(* ===== verification/Prelude.thy ===== *)
theory Prelude
  imports Main "HOL-Library.Sublist" "HOL-Library.AList" "HOL-Library.Product_Lexorder"
    "HOL-Library.Multiset"
begin

text \<open>
  What every component of the gateway shares: the exceptions the code raises as values,
  the result type with its sequencing operators, Python's dictionaries as insertion-ordered
  association lists, and lemmas on lists and sorting that several components use.
\<close>

section \<open>Exceptions as values\<close>

text \<open>
  One constructor per exception class the modelled code raises or lets through. Messages are
  not modelled; an HTTP error carries its status code, a broken audit chain the record id.
\<close>

datatype py_error =
    ValueError
  | TypeError
  | KeyError
  | IndexError
  | AttributeError
  | PermissionError
  | UnicodeError
  | InvalidTag
  | MissingTenantScopeError
  | SessionPurgedError
  | RuntimeError
  | AuditChainBroken "nat list"
  | OverflowError
  | JSONDecodeError
  | TelemetryContentLeakError
  | ValidationError
  | FileNotFoundError
  | HTTPException nat
  | ExternalError nat

type_synonym 'a res = "py_error + 'a"

definition bindE :: "'e + 'a \<Rightarrow> ('a \<Rightarrow> 'e + 'b) \<Rightarrow> 'e + 'b" where
  "bindE r f = (case r of Inl e \<Rightarrow> Inl e | Inr x \<Rightarrow> f x)"

definition raise_if :: "bool \<Rightarrow> 'e \<Rightarrow> 'e + unit" where
  "raise_if b e = (if b then Inl e else Inr ())"

text \<open>A list comprehension (or loop) whose body may raise: the first exception ends it.\<close>

fun mapE :: "('a \<Rightarrow> 'e + 'b) \<Rightarrow> 'a list \<Rightarrow> 'e + 'b list" where
  "mapE f [] = Inr []"
| "mapE f (x # xs) = bindE (f x) (\<lambda>y. bindE (mapE f xs) (\<lambda>ys. Inr (y # ys)))"

text \<open>A loop over a state whose body may raise.\<close>

fun foldE :: "('a \<Rightarrow> 's \<Rightarrow> 'e + 's) \<Rightarrow> 'a list \<Rightarrow> 's \<Rightarrow> 'e + 's" where
  "foldE f [] s = Inr s"
| "foldE f (x # xs) s = bindE (f x s) (foldE f xs)"

definition isOk :: "'e + 'a \<Rightarrow> bool" where
  "isOk r = (case r of Inl _ \<Rightarrow> False | Inr _ \<Rightarrow> True)"

lemma bindE_simps [simp]:
  "bindE (Inl e) f = Inl e"
  "bindE (Inr x) f = f x"
  by (simp_all add: bindE_def)

lemma isOk_simps [simp]: "isOk (Inr x)" "\<not> isOk (Inl e)"
  by (simp_all add: isOk_def)

lemma isOk_iff: "isOk r \<longleftrightarrow> (\<exists>x. r = Inr x)"
  by (cases r) auto

lemma isOk_bindE: "isOk (bindE r f) \<longleftrightarrow> (\<exists>x. r = Inr x \<and> isOk (f x))"
  by (cases r) auto

lemma raise_if_simps [simp]:
  "raise_if True e = Inl e"
  "raise_if False e = Inr ()"
  by (simp_all add: raise_if_def)

lemma bindE_eq_Inr: "bindE r f = Inr y \<longleftrightarrow> (\<exists>x. r = Inr x \<and> f x = Inr y)"
  by (cases r) auto

lemma bindE_eq_Inl: "bindE r f = Inl e \<longleftrightarrow> r = Inl e \<or> (\<exists>x. r = Inr x \<and> f x = Inl e)"
  by (cases r) auto

lemma raise_if_eq_Inr: "raise_if b e = Inr u \<longleftrightarrow> \<not> b"
  by (cases b) auto

lemma raise_if_eq_Inl: "raise_if b e = Inl e' \<longleftrightarrow> b \<and> e' = e"
  by (cases b) auto

lemmas res_simps = bindE_eq_Inr bindE_eq_Inl raise_if_eq_Inr raise_if_eq_Inl

lemma mapE_eq_Inr:
  "mapE f xs = Inr ys \<longleftrightarrow> list_all2 (\<lambda>x y. f x = Inr y) xs ys"
  by (induction xs arbitrary: ys) (auto simp: bindE_eq_Inr list_all2_Cons1)

lemma mapE_member: "mapE f xs = Inr ys \<Longrightarrow> y \<in> set ys \<Longrightarrow> \<exists>x \<in> set xs. f x = Inr y"
  by (induction xs arbitrary: ys) (auto simp: bindE_eq_Inr)

lemma mapE_total:
  assumes "\<And>x. x \<in> set xs \<Longrightarrow> f x = Inr (g x)"
  shows "mapE f xs = Inr (map g xs)"
  using assms by (induction xs) auto

lemma mapE_cong: "(\<And>x. x \<in> set xs \<Longrightarrow> f x = g x) \<Longrightarrow> mapE f xs = mapE g xs"
  by (induction xs) auto

lemma mapE_isOk: "isOk (mapE f xs) \<longleftrightarrow> (\<forall>x \<in> set xs. isOk (f x))"
  by (induction xs) (auto simp: isOk_iff bindE_eq_Inr)

lemma foldE_append: "foldE f (xs @ ys) s = bindE (foldE f xs s) (foldE f ys)"
proof (induction xs arbitrary: s)
  case (Cons x xs)
  then show ?case by (cases "f x s") auto
qed simp

lemma foldE_invariant:
  assumes "foldE f xs s = Inr s'" and "P s" and "\<And>x s s'. x \<in> set xs \<Longrightarrow> P s \<Longrightarrow> f x s = Inr s' \<Longrightarrow> P s'"
  shows "P s'"
  using assms
proof (induction xs arbitrary: s)
  case (Cons x xs)
  from Cons.prems(1) obtain s1 where s1: "f x s = Inr s1" "foldE f xs s1 = Inr s'"
    by (auto simp: bindE_eq_Inr)
  have "P s1" by (rule Cons.prems(3) [OF _ Cons.prems(2) s1(1)]) simp
  show ?case by (rule Cons.IH [OF s1(2) \<open>P s1\<close>]) (rule Cons.prems(3), simp_all)
qed simp

lemma find_SomeD: "find P xs = Some x \<Longrightarrow> P x \<and> x \<in> set xs"
  by (auto simp: find_Some_iff)

lemma list_all2_functional:
  assumes "list_all2 P xs ys" "list_all2 P xs zs" "\<And>x y z. P x y \<Longrightarrow> P x z \<Longrightarrow> y = z"
  shows "ys = zs"
  using assms(1,2)
proof (induction xs arbitrary: ys zs)
  case (Cons x xs)
  then show ?case using assms(3) by (auto simp: list_all2_Cons1)
qed simp

section \<open>Dictionaries in insertion order\<close>

text \<open>
  A Python dictionary is an association list with distinct keys in insertion order:
  \<open>d[k] = v\<close> is \<^theory_text>\<open>AList.update\<close> (in place, or at the end for a new key), \<open>d.pop(k, None)\<close>
  is \<^theory_text>\<open>AList.delete\<close>, \<open>d.get(k)\<close> is \<open>map_of d k\<close>.
\<close>

type_synonym ('k, 'v) dict = "('k \<times> 'v) list"

abbreviation dict_ok :: "('k, 'v) dict \<Rightarrow> bool" where
  "dict_ok d \<equiv> distinct (map fst d)"

abbreviation dict_set :: "'k \<Rightarrow> 'v \<Rightarrow> ('k, 'v) dict \<Rightarrow> ('k, 'v) dict" where
  "dict_set \<equiv> AList.update"

abbreviation dict_pop :: "'k \<Rightarrow> ('k, 'v) dict \<Rightarrow> ('k, 'v) dict" where
  "dict_pop \<equiv> AList.delete"

lemma dict_get_set [simp]: "map_of (dict_set k v d) = (map_of d)(k \<mapsto> v)"
  by (rule update_conv')

lemma dict_get_pop [simp]: "map_of (dict_pop k d) = (map_of d)(k := None)"
  by (rule delete_conv')

lemma dict_ok_set [simp, intro]: "dict_ok d \<Longrightarrow> dict_ok (dict_set k v d)"
  by (rule distinct_update)

lemma dict_ok_pop [simp, intro]: "dict_ok d \<Longrightarrow> dict_ok (dict_pop k d)"
  by (rule distinct_delete)

lemma dict_set_new: "k \<notin> fst ` set d \<Longrightarrow> dict_set k v d = d @ [(k, v)]"
  by (induction d) auto

lemma in_set_dict_set:
  "(k', v') \<in> set (dict_set k v d) \<Longrightarrow> (k', v') = (k, v) \<or> (k', v') \<in> set d"
  by (induction d) (auto split: if_splits)

section \<open>Sorting and positions\<close>

text \<open>
  Python's \<open>sorted\<close> with a key is stable, as Isabelle's \<open>sort_key\<close> is. The element a stable
  sort puts first is the first of the list among those with the least key.
\<close>

lemma sort_key_Nil_iff [simp]: "sort_key f xs = [] \<longleftrightarrow> xs = []"
  by (metis length_0_conv length_sort)

lemma hd_sort_key_least:
  assumes "xs \<noteq> []" and "y \<in> set xs"
  shows "f (hd (sort_key f xs)) \<le> f y"
proof -
  from assms(1) obtain z zs where z: "sort_key f xs = z # zs"
    by (metis sort_key_Nil_iff neq_Nil_conv)
  have "sorted (map f (z # zs))"
    using sorted_sort_key [of f xs] by (simp only: z)
  moreover from assms(2) have "y \<in> set (z # zs)"
    by (metis z set_sort)
  ultimately show ?thesis
    by (auto simp: z)
qed

lemma hd_sort_key_in: "xs \<noteq> [] \<Longrightarrow> hd (sort_key f xs) \<in> set xs"
  by (metis hd_in_set set_sort sort_key_Nil_iff)

text \<open>An element among those of the least key that comes first in the list.\<close>

lemma hd_sort_key_first:
  assumes "xs \<noteq> []"
  shows "hd (sort_key f xs) = hd (filter (\<lambda>x. f x = f (hd (sort_key f xs))) xs)"
proof -
  let ?k = "f (hd (sort_key f xs))"
  from assms obtain z zs where z: "sort_key f xs = z # zs"
    by (metis sort_key_Nil_iff neq_Nil_conv)
  have "filter (\<lambda>x. f x = ?k) (sort_key f xs) = filter (\<lambda>x. f x = ?k) xs"
    by (rule sort_key_stable)
  then show ?thesis
    by (metis (mono_tags, lifting) z filter.simps(2) list.sel(1))
qed

lemma hd_sort_key_head:
  "\<forall>y \<in> set ys. f x \<le> f y \<Longrightarrow> hd (sort_key f (x # ys)) = x"
  by (simp add: insort_is_Cons)

end
