(* ===== verification/PyText.thy ===== *)
theory PyText
  imports Prelude
begin

text \<open>
  Python's \<open>str\<close> and \<open>bytes\<close>. A string is the list of its Unicode code points, so that the
  Arabic and accented text the gateway handles has the length and the offsets Python gives
  it. The operations are the ones the modelled code uses: slices, \<open>in\<close>, \<open>replace\<close>,
  \<open>split\<close>, \<open>join\<close>, \<open>strip\<close>, \<open>startswith\<close>, \<open>int\<close>, \<open>isdigit\<close>, formatting of
  non-negative integers, \<open>bytes.hex\<close> and UTF-8 \<open>encode\<close>/\<open>decode\<close>. Character tables are those
  of Python 3.11 (Unicode 14). Case mapping and the tables behind \<open>isalpha\<close> and \<open>\\w\<close> are
  parameters of the definitions that need them.
\<close>

section \<open>Strings and slices\<close>

type_synonym ustr = "nat list"
type_synonym bytes = "nat list"

abbreviation lit :: "string \<Rightarrow> ustr" where
  "lit s \<equiv> map of_char s"

text \<open>Python clips slice bounds and counts negative ones from the end.\<close>

definition slice_bound :: "int \<Rightarrow> int \<Rightarrow> int" where
  "slice_bound n i = (if i < 0 then max 0 (n + i) else min n i)"

definition py_slice :: "'a list \<Rightarrow> int \<Rightarrow> int \<Rightarrow> 'a list" where
  "py_slice s a b =
     (let n = int (length s); lo = slice_bound n a; hi = slice_bound n b
      in take (nat (hi - lo)) (drop (nat lo) s))"

definition slice_from :: "'a list \<Rightarrow> int \<Rightarrow> 'a list" where
  "slice_from s a = drop (nat (slice_bound (int (length s)) a)) s"

lemma py_slice_in_bounds:
  "0 \<le> a \<Longrightarrow> a \<le> b \<Longrightarrow> b \<le> int (length s) \<Longrightarrow>
     py_slice s a b = take (nat b - nat a) (drop (nat a) s)"
  by (simp add: py_slice_def slice_bound_def nat_diff_distrib)

lemma slice_from_in_bounds:
  "0 \<le> a \<Longrightarrow> a \<le> int (length s) \<Longrightarrow> slice_from s a = drop (nat a) s"
  by (simp add: slice_from_def slice_bound_def)

lemma length_py_slice:
  "0 \<le> a \<Longrightarrow> a \<le> b \<Longrightarrow> b \<le> int (length s) \<Longrightarrow> length (py_slice s a b) = nat (b - a)"
  by (simp add: py_slice_in_bounds nat_diff_distrib)

lemma set_py_slice: "set (py_slice xs a b) \<subseteq> set xs"
  unfolding py_slice_def Let_def by (meson in_set_dropD in_set_takeD subsetI)

lemma take_drop_glue:
  "i \<le> j \<Longrightarrow> take (j - i) (drop i s) @ drop j s = drop i s"
  by (metis append_take_drop_id drop_drop le_add_diff_inverse2)

lemma take_drop_split:
  assumes "i \<le> j" "j \<le> k"
  shows "take (j - i) (drop i s) @ take (k - j) (drop j s) = take (k - i) (drop i s)"
proof -
  have "k - i = (j - i) + (k - j)" and "drop j s = drop (j - i) (drop i s)"
    using assms by simp_all
  then show ?thesis by (simp only: take_add)
qed

lemma py_slice_split:
  assumes "0 \<le> a" "a \<le> b" "b \<le> c" "c \<le> int (length s)"
  shows "py_slice s a b @ py_slice s b c = py_slice s a c"
  using assms by (simp add: py_slice_in_bounds take_drop_split nat_mono)

lemma py_slice_from_split:
  assumes "0 \<le> a" "a \<le> b" "b \<le> int (length s)"
  shows "py_slice s a b @ slice_from s b = slice_from s a"
  using assms by (simp add: py_slice_in_bounds slice_from_in_bounds take_drop_glue nat_mono)

text \<open>\<open>needle in haystack\<close> and \<open>startswith\<close>.\<close>

abbreviation contained :: "ustr \<Rightarrow> ustr \<Rightarrow> bool" where
  "contained needle hay \<equiv> sublist needle hay"

abbreviation starts_with :: "ustr \<Rightarrow> ustr \<Rightarrow> bool" where
  "starts_with s p \<equiv> prefix p s"

text \<open>Python's truth value of an optional string: \<open>None\<close> and the empty string are false.\<close>

definition truthy_str :: "ustr option \<Rightarrow> bool" where
  "truthy_str x = (x \<noteq> None \<and> x \<noteq> Some [])"

section \<open>replace, join, split, strip\<close>

text \<open>
  \<open>str.replace\<close>: leftmost occurrences, not overlapping. For an empty pattern Python inserts
  the replacement around every character.
\<close>

function replace_all :: "ustr \<Rightarrow> ustr \<Rightarrow> ustr \<Rightarrow> ustr" where
  "replace_all old new s =
     (if old = [] \<or> s = [] then s
      else if prefix old s then new @ replace_all old new (drop (length old) s)
      else hd s # replace_all old new (tl s))"
  by pat_completeness auto
termination
  by (relation "measure (\<lambda>(old, new, s). length s)") auto

declare replace_all.simps [simp del]

definition py_replace :: "ustr \<Rightarrow> ustr \<Rightarrow> ustr \<Rightarrow> ustr" where
  "py_replace s old new =
     (if old = [] then new @ concat (map (\<lambda>c. c # new) s) else replace_all old new s)"

lemma replace_all_Nil [simp]: "replace_all old new [] = []"
  by (simp add: replace_all.simps)

lemma replace_all_match:
  "old \<noteq> [] \<Longrightarrow> replace_all old new (old @ s) = new @ replace_all old new s"
  by (subst replace_all.simps) auto

lemma replace_all_step:
  "old \<noteq> [] \<Longrightarrow> \<not> prefix old (c # s) \<Longrightarrow>
     replace_all old new (c # s) = c # replace_all old new s"
  by (subst replace_all.simps) auto

lemma replace_all_absent: "\<not> sublist old s \<Longrightarrow> replace_all old new s = s"
proof (induction s)
  case Nil
  then show ?case by simp
next
  case (Cons c s)
  then have "old \<noteq> []" and "\<not> prefix old (c # s)" and "\<not> sublist old s"
    by (auto simp: sublist_Cons_right)
  with Cons.IH show ?case by (simp add: replace_all_step)
qed

lemma py_replace_absent: "old \<noteq> [] \<Longrightarrow> \<not> sublist old s \<Longrightarrow> py_replace s old new = s"
  by (simp add: py_replace_def replace_all_absent)

text \<open>
  Replacing in \<open>p @ old @ q\<close> where the pattern has no occurrence that starts inside \<open>p\<close>
  and none in \<open>q\<close>.
\<close>

lemma replace_all_once:
  assumes "old \<noteq> []" and "\<not> sublist old q"
    and "\<And>i. i < length p \<Longrightarrow> \<not> prefix old (drop i (p @ old @ q))"
  shows "replace_all old new (p @ old @ q) = p @ new @ q"
  using assms(3)
proof (induction p)
  case Nil
  with assms(1,2) show ?case by (simp add: replace_all_match replace_all_absent)
next
  case (Cons c p)
  have "\<not> prefix old (c # p @ old @ q)"
    using Cons.prems [of 0] by simp
  moreover have "replace_all old new (p @ old @ q) = p @ new @ q"
  proof (rule Cons.IH)
    fix i assume "i < length p"
    with Cons.prems [of "Suc i"] show "\<not> prefix old (drop i (p @ old @ q))" by simp
  qed
  ultimately show ?case using assms(1) by (simp add: replace_all_step)
qed

fun join :: "ustr \<Rightarrow> ustr list \<Rightarrow> ustr" where
  "join sep [] = []"
| "join sep [x] = x"
| "join sep (x # xs) = x @ sep @ join sep xs"

definition ws_table :: "nat list" where
  "ws_table = [9, 10, 11, 12, 13, 28, 29, 30, 31, 32, 133, 160, 5760, 8192, 8193, 8194, 8195,
     8196, 8197, 8198, 8199, 8200, 8201, 8202, 8232, 8233, 8239, 8287, 12288]"

definition is_ws :: "nat \<Rightarrow> bool" where
  "is_ws c = (c \<in> set ws_table)"

text \<open>\<open>str.split()\<close>: the maximal runs of characters that are not white space.\<close>

fun split_acc :: "ustr \<Rightarrow> ustr \<Rightarrow> ustr list" where
  "split_acc w [] = (if w = [] then [] else [w])"
| "split_acc w (c # s) =
     (if is_ws c then (if w = [] then split_acc [] s else w # split_acc [] s)
      else split_acc (w @ [c]) s)"

definition py_split :: "ustr \<Rightarrow> ustr list" where
  "py_split s = split_acc [] s"

definition py_strip :: "ustr \<Rightarrow> ustr" where
  "py_strip s = rev (dropWhile is_ws (rev (dropWhile is_ws s)))"

text \<open>\<open>s.split(sep, 1)\<close> for a one-character separator: the parts around its first occurrence.\<close>

definition split_once :: "nat \<Rightarrow> ustr \<Rightarrow> ustr list" where
  "split_once c s =
     (if c \<in> set s
      then [takeWhile (\<lambda>x. x \<noteq> c) s, tl (dropWhile (\<lambda>x. x \<noteq> c) s)] else [s])"

lemma split_acc_words:
  "\<forall>x \<in> set w. \<not> is_ws x \<Longrightarrow> \<forall>p \<in> set (split_acc w s). p \<noteq> [] \<and> (\<forall>x \<in> set p. \<not> is_ws x)"
proof (induction s arbitrary: w)
  case Nil
  then show ?case by simp
next
  case (Cons c s)
  show ?case
  proof (cases "is_ws c")
    case True
    with Cons.IH [of "[]"] Cons.prems show ?thesis by simp
  next
    case False
    with Cons.IH [of "w @ [c]"] Cons.prems show ?thesis by simp
  qed
qed

lemma py_split_words: "p \<in> set (py_split s) \<Longrightarrow> p \<noteq> [] \<and> (\<forall>x \<in> set p. \<not> is_ws x)"
  using split_acc_words [of "[]" s] by (simp add: py_split_def)

lemma concat_split_acc:
  "concat (split_acc w s) = w @ filter (\<lambda>c. \<not> is_ws c) s"
  by (induction w s rule: split_acc.induct) auto

lemma split_once_first:
  assumes "c \<notin> set a"
  shows "split_once c (a @ c # b) = [a, b]"
proof -
  have "\<forall>x \<in> set a. x \<noteq> c" using assms by auto
  then have "takeWhile (\<lambda>x. x \<noteq> c) (a @ c # b) = a" "dropWhile (\<lambda>x. x \<noteq> c) (a @ c # b) = c # b"
    by (simp_all add: takeWhile_append2 dropWhile_append2)
  then show ?thesis by (simp add: split_once_def)
qed

section \<open>Digits and integers\<close>

text \<open>
  The characters of category Nd come in blocks of ten. They are what \<open>\\d\<close> matches and what
  \<open>int\<close> reads; \<open>isdigit\<close> also holds of superscripts and circled digits, which \<open>int\<close> rejects.
\<close>

definition decimal_zeros :: "nat list" where
  "decimal_zeros = [48, 1632, 1776, 1984, 2406, 2534, 2662, 2790, 2918, 3046, 3174, 3302, 3430,
     3558, 3664, 3792, 3872, 4160, 4240, 6112, 6160, 6470, 6608, 6784, 6800, 6992, 7088, 7232,
     7248, 42528, 43216, 43264, 43472, 43504, 43600, 44016, 65296, 66720, 68912, 69734, 69872,
     69942, 70096, 70384, 70736, 70864, 71248, 71360, 71472, 71904, 72016, 72784, 73040, 73120,
     92768, 92864, 93008, 120782, 120792, 120802, 120812, 120822, 123200, 123632, 125264, 130032]"

definition other_digits :: "(nat \<times> nat) list" where
  "other_digits = [(178, 179), (185, 185), (4969, 4977), (6618, 6618), (8304, 8304), (8308, 8313),
     (8320, 8329), (9312, 9320), (9332, 9340), (9352, 9360), (9450, 9450), (9461, 9469),
     (9471, 9471), (10102, 10110), (10112, 10120), (10122, 10130), (68160, 68163),
     (69216, 69224), (69714, 69722), (127232, 127242)]"

definition digit_value :: "nat \<Rightarrow> nat option" where
  "digit_value c = map_option (\<lambda>z. c - z) (find (\<lambda>z. z \<le> c \<and> c < z + 10) decimal_zeros)"

definition is_decimal :: "nat \<Rightarrow> bool" where
  "is_decimal c = (digit_value c \<noteq> None)"

definition is_digit_char :: "nat \<Rightarrow> bool" where
  "is_digit_char c = (is_decimal c \<or> (\<exists>(lo, hi) \<in> set other_digits. lo \<le> c \<and> c \<le> hi))"

definition py_isdigit :: "ustr \<Rightarrow> bool" where
  "py_isdigit s = (s \<noteq> [] \<and> (\<forall>c \<in> set s. is_digit_char c))"

definition digit_of :: "nat \<Rightarrow> nat" where
  "digit_of c = (case digit_value c of None \<Rightarrow> 0 | Some v \<Rightarrow> v)"

fun digits_val :: "nat \<Rightarrow> ustr \<Rightarrow> nat" where
  "digits_val acc [] = acc"
| "digits_val acc (c # s) = digits_val (10 * acc + digit_of c) s"

text \<open>
  \<open>int(s)\<close>: surrounding white space, a sign, decimal digits with single underscores between
  them, at most 4300 digits.
\<close>

fun int_tail :: "nat \<Rightarrow> ustr \<Rightarrow> nat option" where
  "int_tail acc [] = Some acc"
| "int_tail acc (c # s) =
     (if is_decimal c then int_tail (10 * acc + digit_of c) s
      else if c = 95 then
        (case s of [] \<Rightarrow> None
         | d # s' \<Rightarrow> if is_decimal d then int_tail (10 * acc + digit_of d) s' else None)
      else None)"

definition int_unsigned :: "ustr \<Rightarrow> nat res" where
  "int_unsigned s =
     (if length (filter is_decimal s) > 4300 then Inl ValueError
      else case s of [] \<Rightarrow> Inl ValueError
        | c # s' \<Rightarrow> if is_decimal c
            then (case int_tail (digit_of c) s' of None \<Rightarrow> Inl ValueError | Some n \<Rightarrow> Inr n)
            else Inl ValueError)"

definition py_int :: "ustr \<Rightarrow> int res" where
  "py_int s =
     (case py_strip s of [] \<Rightarrow> Inl ValueError
      | c # r \<Rightarrow>
          if c = 45 then bindE (int_unsigned r) (\<lambda>n. Inr (- int n))
          else if c = 43 then bindE (int_unsigned r) (\<lambda>n. Inr (int n))
          else bindE (int_unsigned (c # r)) (\<lambda>n. Inr (int n)))"

lemma digit_value_bound: "digit_value c = Some v \<Longrightarrow> v < 10"
  by (auto simp: digit_value_def find_Some_iff)

lemma digit_of_bound [simp]: "digit_of c < 10"
  by (auto simp: digit_of_def dest: digit_value_bound split: option.splits)

lemma decimal_not_ws: "is_decimal c \<Longrightarrow> \<not> is_ws c"
proof
  assume "is_decimal c" and "is_ws c"
  then have "c \<in> set ws_table" by (simp add: is_ws_def)
  moreover have "list_all (\<lambda>c. list_all (\<lambda>z. c < z \<or> z + 10 \<le> c) decimal_zeros) ws_table"
    by (simp add: ws_table_def decimal_zeros_def)
  then have "\<forall>c \<in> set ws_table. \<not> is_decimal c"
    by (fastforce simp: list_all_iff is_decimal_def digit_value_def find_None_iff)
  ultimately show False using \<open>is_decimal c\<close> by blast
qed

lemma ascii_digit:
  assumes "v < 10"
  shows "is_decimal (48 + v)" "digit_of (48 + v) = v"
  using assms by (simp_all add: is_decimal_def digit_of_def digit_value_def decimal_zeros_def)

lemma digit_of_ascii: "48 \<le> c \<Longrightarrow> c < 58 \<Longrightarrow> digit_of c = c - 48"
  using ascii_digit(2) [of "c - 48"] by simp

lemma is_decimal_ascii: "48 \<le> c \<Longrightarrow> c < 58 \<Longrightarrow> is_decimal c"
  using ascii_digit(1) [of "c - 48"] by simp

text \<open>The tables on the characters below the Arabic digits, for evaluation.\<close>

lemma is_decimal_low: "c < 1632 \<Longrightarrow> is_decimal c \<longleftrightarrow> 48 \<le> c \<and> c < 58"
  by (simp add: is_decimal_def digit_value_def decimal_zeros_def)

lemma is_ws_ascii: "c < 128 \<Longrightarrow> is_ws c \<longleftrightarrow> 9 \<le> c \<and> c < 14 \<or> 28 \<le> c \<and> c < 33"
  by (simp add: is_ws_def ws_table_def) arith

lemma decimal_sign: "\<not> is_decimal 43" "\<not> is_decimal 45" "\<not> is_decimal 95"
  by (simp_all add: is_decimal_def digit_value_def decimal_zeros_def)

lemma digits_val_append: "digits_val acc (s @ t) = digits_val (digits_val acc s) t"
  by (induction s arbitrary: acc) auto

lemma digits_val_acc: "digits_val acc s = acc * 10 ^ length s + digits_val 0 s"
proof (induction s arbitrary: acc)
  case Nil
  then show ?case by simp
next
  case (Cons c s)
  have "digits_val acc (c # s) = (10 * acc + digit_of c) * 10 ^ length s + digits_val 0 s"
    using Cons.IH [of "10 * acc + digit_of c"] by simp
  also have "\<dots> = acc * 10 ^ length (c # s) + (digit_of c * 10 ^ length s + digits_val 0 s)"
    by (simp add: algebra_simps)
  also have "digit_of c * 10 ^ length s + digits_val 0 s = digits_val 0 (c # s)"
    using Cons.IH [of "digit_of c"] by simp
  finally show ?case .
qed

lemma digits_val_Cons: "digits_val 0 (c # s) = digit_of c * 10 ^ length s + digits_val 0 s"
  using digits_val_acc [of "digit_of c" s] by simp

lemma digits_val_app: "digits_val 0 (s @ t) = digits_val 0 s * 10 ^ length t + digits_val 0 t"
  using digits_val_acc [of "digits_val 0 s" t] by (simp add: digits_val_append)

lemma int_tail_decimal:
  "\<forall>c \<in> set s. is_decimal c \<Longrightarrow> int_tail acc s = Some (digits_val acc s)"
  by (induction s arbitrary: acc) auto

lemma py_strip_no_ws: "\<forall>c \<in> set s. \<not> is_ws c \<Longrightarrow> py_strip s = s"
proof -
  have keep: "dropWhile is_ws t = t" if "\<forall>c \<in> set t. \<not> is_ws c" for t
    using that by (cases t) auto
  assume "\<forall>c \<in> set s. \<not> is_ws c"
  then show ?thesis by (simp add: py_strip_def keep)
qed

lemma py_int_decimal:
  assumes "s \<noteq> []" and "\<forall>c \<in> set s. is_decimal c" and "length s \<le> 4300"
  shows "py_int s = Inr (int (digits_val 0 s))"
proof -
  obtain c r where s: "s = c # r" using assms(1) by (cases s) auto
  have "py_strip s = c # r"
    using assms(2) decimal_not_ws s by (metis py_strip_no_ws)
  moreover have "c \<noteq> 45" "c \<noteq> 43"
    using assms(2) s decimal_sign by auto
  moreover have "length (filter is_decimal (c # r)) \<le> 4300"
    using assms(2,3) s by (metis filter_True)
  ultimately show ?thesis
    using assms(2) s by (simp add: py_int_def int_unsigned_def int_tail_decimal)
qed

section \<open>Formatting integers, hexadecimal\<close>

fun show_nat :: "nat \<Rightarrow> ustr" where
  "show_nat n = (if n < 10 then [48 + n] else show_nat (n div 10) @ [48 + n mod 10])"

declare show_nat.simps [simp del]

definition show_int :: "int \<Rightarrow> ustr" where
  "show_int i = (if i < 0 then 45 # show_nat (nat (- i)) else show_nat (nat i))"

text \<open>The format \<open>:02d\<close> of a non-negative integer.\<close>

definition show_02d :: "nat \<Rightarrow> ustr" where
  "show_02d n = (let s = show_nat n in replicate (2 - length s) 48 @ s)"

definition hex_digit :: "nat \<Rightarrow> nat" where
  "hex_digit v = (if v < 10 then 48 + v else 87 + v)"

definition to_hex :: "bytes \<Rightarrow> ustr" where
  "to_hex bs = concat (map (\<lambda>b. [hex_digit (b div 16), hex_digit (b mod 16)]) bs)"

abbreviation is_bytes :: "nat list \<Rightarrow> bool" where
  "is_bytes bs \<equiv> (\<forall>b \<in> set bs. b < 256)"

lemma show_nat_ascii: "c \<in> set (show_nat n) \<Longrightarrow> 48 \<le> c \<and> c < 58"
proof (induction n rule: show_nat.induct)
  case (1 n)
  then show ?case by (subst (asm) show_nat.simps) (auto split: if_splits)
qed

lemma show_nat_small: "n < 10 \<Longrightarrow> show_nat n = [48 + n]"
  by (simp add: show_nat.simps)

lemma show_nat_two: "10 \<le> n \<Longrightarrow> n < 100 \<Longrightarrow> show_nat n = [48 + n div 10, 48 + n mod 10]"
  by (subst show_nat.simps) (simp add: show_nat_small)

lemma show_02d_two: "n < 100 \<Longrightarrow> show_02d n = [48 + n div 10, 48 + n mod 10]"
  by (cases "n < 10") (simp_all add: show_02d_def show_nat_small show_nat_two)

lemma show_02d_inj: "m < 100 \<Longrightarrow> n < 100 \<Longrightarrow> show_02d m = show_02d n \<Longrightarrow> m = n"
  by (simp add: show_02d_two) (metis div_mult_mod_eq)

lemma hex_digit_inj: "v < 16 \<Longrightarrow> w < 16 \<Longrightarrow> hex_digit v = hex_digit w \<longleftrightarrow> v = w"
  by (auto simp: hex_digit_def split: if_splits)

lemma length_to_hex [simp]: "length (to_hex bs) = 2 * length bs"
  by (induction bs) (auto simp: to_hex_def)

lemma to_hex_Cons: "to_hex (b # bs) = hex_digit (b div 16) # hex_digit (b mod 16) # to_hex bs"
  by (simp add: to_hex_def)

lemma to_hex_inj:
  "is_bytes a \<Longrightarrow> is_bytes b \<Longrightarrow> to_hex a = to_hex b \<longleftrightarrow> a = b"
proof (induction a arbitrary: b)
  case Nil
  then show ?case by (cases b) (auto simp: to_hex_def)
next
  case (Cons x a)
  show ?case
  proof (cases b)
    case Nil
    then show ?thesis by (simp add: to_hex_def)
  next
    case (Cons y b')
    with Cons.prems have "x div 16 < 16" "y div 16 < 16" by auto
    then have "hex_digit (x div 16) = hex_digit (y div 16) \<and> hex_digit (x mod 16) = hex_digit (y mod 16)
        \<longleftrightarrow> x = y"
      by (simp add: hex_digit_inj) (metis div_mult_mod_eq)
    with Cons Cons.IH [of b'] Cons.prems show ?thesis by (auto simp: to_hex_Cons)
  qed
qed

lemma to_hex_alphabet: "is_bytes bs \<Longrightarrow> c \<in> set (to_hex bs) \<Longrightarrow> 48 \<le> c \<and> c < 103"
proof (induction bs)
  case Nil
  then show ?case by (simp add: to_hex_def)
next
  case (Cons b bs)
  then have "b div 16 < 16" "b mod 16 < 16" by auto
  with Cons show ?case by (auto simp: to_hex_Cons hex_digit_def)
qed

section \<open>UTF-8\<close>

text \<open>
  \<open>str.encode()\<close> raises on a surrogate; \<open>bytes.decode()\<close> is strict: it rejects overlong
  forms, surrogates and values above the last code point.
\<close>

definition scalar :: "nat \<Rightarrow> bool" where
  "scalar c = (c < 1114112 \<and> \<not> (55296 \<le> c \<and> c < 57344))"

definition utf8_char :: "nat \<Rightarrow> bytes" where
  "utf8_char c =
     (if c < 128 then [c]
      else if c < 2048 then [192 + c div 64, 128 + c mod 64]
      else if c < 65536 then [224 + c div 4096, 128 + (c div 64) mod 64, 128 + c mod 64]
      else [240 + c div 262144, 128 + (c div 4096) mod 64, 128 + (c div 64) mod 64, 128 + c mod 64])"

definition utf8_encode :: "ustr \<Rightarrow> bytes res" where
  "utf8_encode s =
     (if \<forall>c \<in> set s. scalar c then Inr (concat (map utf8_char s)) else Inl UnicodeError)"

definition is_cont :: "nat \<Rightarrow> bool" where
  "is_cont b = (128 \<le> b \<and> b < 192)"

fun utf8_decode :: "bytes \<Rightarrow> ustr res" where
  "utf8_decode [] = Inr []"
| "utf8_decode (b # r) =
     (if b < 128 then bindE (utf8_decode r) (\<lambda>s. Inr (b # s))
      else if 192 \<le> b \<and> b < 224 then
        (case r of b1 # r1 \<Rightarrow>
           let c = (b - 192) * 64 + (b1 - 128)
           in if is_cont b1 \<and> 128 \<le> c then bindE (utf8_decode r1) (\<lambda>s. Inr (c # s))
              else Inl UnicodeError
         | _ \<Rightarrow> Inl UnicodeError)
      else if 224 \<le> b \<and> b < 240 then
        (case r of b1 # b2 # r2 \<Rightarrow>
           let c = (b - 224) * 4096 + (b1 - 128) * 64 + (b2 - 128)
           in if is_cont b1 \<and> is_cont b2 \<and> 2048 \<le> c \<and> scalar c
              then bindE (utf8_decode r2) (\<lambda>s. Inr (c # s)) else Inl UnicodeError
         | _ \<Rightarrow> Inl UnicodeError)
      else if 240 \<le> b \<and> b < 248 then
        (case r of b1 # b2 # b3 # r3 \<Rightarrow>
           let c = (b - 240) * 262144 + (b1 - 128) * 4096 + (b2 - 128) * 64 + (b3 - 128)
           in if is_cont b1 \<and> is_cont b2 \<and> is_cont b3 \<and> 65536 \<le> c \<and> scalar c
              then bindE (utf8_decode r3) (\<lambda>s. Inr (c # s)) else Inl UnicodeError
         | _ \<Rightarrow> Inl UnicodeError)
      else Inl UnicodeError)"

lemma base64_digits:
  fixes c :: nat
  shows "c div 64 * 64 + c mod 64 = c"
    and "c div 4096 * 4096 + c div 64 mod 64 * 64 + c mod 64 = c"
    and "c div 262144 * 262144 + c div 4096 mod 64 * 4096 + c div 64 mod 64 * 64 + c mod 64 = c"
proof -
  have glue: "h * (64 * k) + l * k + r = n" if "h * 64 + l = q" "q * k + r = n" for h l q k r n :: nat
    using that by (auto simp: algebra_simps)
  have b: "c div 4096 = c div 64 div 64" and d: "c div 262144 = c div 4096 div 64"
    by (simp_all add: div_mult2_eq [symmetric])
  show "c div 64 * 64 + c mod 64 = c" by (rule div_mult_mod_eq)
  show e: "c div 4096 * 4096 + c div 64 mod 64 * 64 + c mod 64 = c"
    using glue [of "c div 64 div 64" "c div 64 mod 64" "c div 64" 64 "c mod 64" c] by (simp add: b)
  show "c div 262144 * 262144 + c div 4096 mod 64 * 4096 + c div 64 mod 64 * 64 + c mod 64 = c"
    using glue [of "c div 262144" "c div 4096 mod 64" "c div 4096" 4096 "c div 64 mod 64 * 64 + c mod 64" c]
      div_mult_mod_eq [of "c div 4096" 64] e
    by (simp add: d [symmetric] del: div_mult_mod_eq)
qed

lemma utf8_char_bytes: "scalar c \<Longrightarrow> b \<in> set (utf8_char c) \<Longrightarrow> b < 256"
proof -
  assume "scalar c" and b: "b \<in> set (utf8_char c)"
  then have c: "c < 1114112" by (simp add: scalar_def)
  have m: "128 + n mod 64 < 256" for n :: nat
    using mod_less_divisor [of 64 n] by linarith
  have "c < 2048 \<Longrightarrow> c div 64 < 32" "c < 65536 \<Longrightarrow> c div 4096 < 16" "c div 262144 < 8"
    using c by simp_all
  with b m show "b < 256" by (auto simp: utf8_char_def split: if_splits)
qed

lemma utf8_decode_char:
  assumes "scalar c"
  shows "utf8_decode (utf8_char c @ r) = bindE (utf8_decode r) (\<lambda>s. Inr (c # s))"
proof -
  have m: "is_cont (128 + n mod 64)" for n :: nat by (simp add: is_cont_def)
  consider "c < 128" | "128 \<le> c" "c < 2048" | "2048 \<le> c" "c < 65536" | "65536 \<le> c" "c < 1114112"
    using assms by (fastforce simp: scalar_def)
  then show ?thesis
  proof cases
    case 1
    then show ?thesis by (simp add: utf8_char_def)
  next
    case 2
    then have "c div 64 < 32" by simp
    with 2 m show ?thesis by (simp add: utf8_char_def base64_digits)
  next
    case 3
    then have "c div 4096 < 16" by simp
    with 3 m assms show ?thesis by (simp add: utf8_char_def base64_digits)
  next
    case 4
    then have "c div 262144 < 8" by simp
    with 4 m assms show ?thesis by (simp add: utf8_char_def base64_digits)
  qed
qed

lemma utf8_roundtrip: "utf8_encode s = Inr bs \<Longrightarrow> utf8_decode bs = Inr s"
proof -
  have "\<forall>c \<in> set s. scalar c \<Longrightarrow> utf8_decode (concat (map utf8_char s)) = Inr s"
    by (induction s) (auto simp: utf8_decode_char)
  then show "utf8_encode s = Inr bs \<Longrightarrow> utf8_decode bs = Inr s"
    by (auto simp: utf8_encode_def split: if_splits)
qed

lemma utf8_inj: "utf8_encode s = Inr b \<Longrightarrow> utf8_encode t = Inr b \<Longrightarrow> s = t"
  by (metis utf8_roundtrip sum.inject(2))

lemma utf8_is_bytes:
  assumes "utf8_encode s = Inr bs"
  shows "is_bytes bs"
proof -
  have "\<forall>c \<in> set s. scalar c" and bs: "bs = concat (map utf8_char s)"
    using assms by (auto simp: utf8_encode_def split: if_splits)
  then have "\<forall>c \<in> set s. \<forall>b \<in> set (utf8_char c). b < 256"
    using utf8_char_bytes by blast
  then show ?thesis by (simp add: bs)
qed

lemma utf8_encode_append:
  "utf8_encode s = Inr a \<Longrightarrow> utf8_encode t = Inr b \<Longrightarrow> utf8_encode (s @ t) = Inr (a @ b)"
  by (auto simp: utf8_encode_def split: if_splits)

lemma utf8_encode_scalar: "(\<exists>bs. utf8_encode s = Inr bs) \<longleftrightarrow> (\<forall>c \<in> set s. scalar c)"
  by (auto simp: utf8_encode_def)

lemma scalar_ascii: "c < 128 \<Longrightarrow> scalar c"
  by (simp add: scalar_def)

end
