(* ===== verification/Tenancy.thy ===== *)
theory Tenancy
  imports PyText
begin

text \<open>
  \<open>src/tenancy/scope.py\<close>: the customer context with its constructor checks, and the context
  variable that carries it. The variable is a record of its value and of the tokens handed
  out by \<open>set\<close>, each with the value it replaced; a token may be used once.
  \<open>isalpha\<close>, the Unicode table behind \<open>str.isalpha\<close>, is a parameter.
\<close>

datatype plan_tier = Starter | Professional | Enterprise | Sovereign

record customer_context =
  cc_customer_id :: ustr
  cc_country_code :: ustr
  cc_plan :: plan_tier

definition mk_customer_context ::
    "(nat \<Rightarrow> bool) \<Rightarrow> ustr \<Rightarrow> ustr \<Rightarrow> plan_tier \<Rightarrow> customer_context res" where
  "mk_customer_context isalpha cid country plan =
     (if cid = [] then Inl MissingTenantScopeError
      else if length country \<noteq> 2 \<or> \<not> (\<forall>c \<in> set country. isalpha c) then Inl ValueError
      else Inr \<lparr>cc_customer_id = cid, cc_country_code = country, cc_plan = plan\<rparr>)"

record context_var =
  cv_value :: "customer_context option"
  cv_tokens :: "customer_context option list"
  cv_used :: "nat list"

definition init_context_var :: context_var where
  "init_context_var = \<lparr>cv_value = None, cv_tokens = [], cv_used = []\<rparr>"

definition bind_customer :: "customer_context \<Rightarrow> context_var \<Rightarrow> nat \<times> context_var" where
  "bind_customer ctx v =
     (length (cv_tokens v),
      v\<lparr>cv_value := Some ctx, cv_tokens := cv_tokens v @ [cv_value v]\<rparr>)"

definition reset_customer :: "nat \<Rightarrow> context_var \<Rightarrow> context_var res" where
  "reset_customer tok v =
     (if tok \<in> set (cv_used v) then Inl RuntimeError
      else if length (cv_tokens v) \<le> tok then Inl ValueError
      else Inr (v\<lparr>cv_value := cv_tokens v ! tok, cv_used := tok # cv_used v\<rparr>))"

definition current_customer :: "context_var \<Rightarrow> customer_context option" where
  "current_customer v = cv_value v"

text \<open>
  What the other components see of the variable is its value; they take it as an argument of
  type \<open>scope\<close>.
\<close>

type_synonym scope = "customer_context option"

definition require_customer :: "scope \<Rightarrow> customer_context res" where
  "require_customer cur =
     (case cur of None \<Rightarrow> Inl MissingTenantScopeError | Some ctx \<Rightarrow> Inr ctx)"

definition require_current :: "context_var \<Rightarrow> customer_context res" where
  "require_current v = require_customer (cv_value v)"

section \<open>Lemmas\<close>

lemma require_customer_simps [simp]:
  "require_customer None = Inl MissingTenantScopeError"
  "require_customer (Some ctx) = Inr ctx"
  by (simp_all add: require_customer_def)

lemma require_customer_eq_Inr: "require_customer cur = Inr ctx \<longleftrightarrow> cur = Some ctx"
  by (cases cur) auto

lemma mk_customer_context_Inr:
  "mk_customer_context al cid country plan = Inr c \<longleftrightarrow>
     cid \<noteq> [] \<and> length country = 2 \<and> (\<forall>x \<in> set country. al x) \<and>
     c = \<lparr>cc_customer_id = cid, cc_country_code = country, cc_plan = plan\<rparr>"
  by (auto simp: mk_customer_context_def)

text \<open>Tokens that were handed out and not used yet; \<open>tokens_ok\<close> holds of every reachable variable.\<close>

definition tokens_ok :: "context_var \<Rightarrow> bool" where
  "tokens_ok v = (\<forall>t \<in> set (cv_used v). t < length (cv_tokens v))"

inductive cv_reachable :: "context_var \<Rightarrow> bool" where
  cv_init: "cv_reachable init_context_var"
| cv_bind: "cv_reachable v \<Longrightarrow> cv_reachable (snd (bind_customer ctx v))"
| cv_reset: "cv_reachable v \<Longrightarrow> reset_customer tok v = Inr v' \<Longrightarrow> cv_reachable v'"

lemma cv_reachable_tokens_ok: "cv_reachable v \<Longrightarrow> tokens_ok v"
  by (induction rule: cv_reachable.induct)
    (auto simp: tokens_ok_def init_context_var_def bind_customer_def reset_customer_def
      less_Suc_eq split: if_splits)

end
