(* ===== verification/PyFloat.thy ===== *)
theory PyFloat
  imports Complex_Main Prelude "HOL-Library.Log_Nat"
begin

text \<open>
  Python's \<open>float\<close>: IEEE double precision. A finite double is the rational it denotes, and an
  arithmetic operation rounds the exact result to the nearest double, ties to even. The values
  the gateway computes with (confidences, thresholds, clock readings) are far from the range
  where a double overflows, so rounding never yields an infinity here; infinities and NaN
  enter only where a number is read from outside and are values of \<open>pyfloat\<close>.
\<close>

section \<open>Rounding to double precision\<close>

definition bit_length :: "int \<Rightarrow> int" where
  "bit_length n = int (floorlog 2 (nat n))"

text \<open>The exponent \<open>e\<close> with \<open>2 ^ e \<le> x < 2 ^ (e + 1)\<close> of a positive rational.\<close>

definition exponent :: "rat \<Rightarrow> int" where
  "exponent x =
     (let (p, q) = quotient_of x; e = bit_length p - bit_length q
      in if x < 2 powi e then e - 1 else e)"

definition round_even :: "rat \<Rightarrow> int" where
  "round_even y =
     (let n = \<lfloor>y\<rfloor>; r = y - of_int n
      in if r < 1 / 2 then n else if 1 / 2 < r then n + 1 else if even n then n else n + 1)"

definition to_double :: "rat \<Rightarrow> rat" where
  "to_double x =
     (if x = 0 then 0
      else let u = 2 powi (max (exponent \<bar>x\<bar>) (- 1022) - 52)
           in sgn x * of_int (round_even (\<bar>x\<bar> / u)) * u)"

definition float_add :: "rat \<Rightarrow> rat \<Rightarrow> rat" where
  "float_add x y = to_double (x + y)"

definition float_sub :: "rat \<Rightarrow> rat \<Rightarrow> rat" where
  "float_sub x y = to_double (x - y)"

text \<open>The value of a decimal literal \<open>n / d\<close> of the source.\<close>

definition float_lit :: "int \<Rightarrow> int \<Rightarrow> rat" where
  "float_lit n d = to_double (of_int n / of_int d)"

section \<open>Values read from outside\<close>

datatype pyfloat = Finite rat | PosInf | NegInf | NaN

fun float_less :: "pyfloat \<Rightarrow> pyfloat \<Rightarrow> bool" where
  "float_less NaN _ = False"
| "float_less _ NaN = False"
| "float_less (Finite x) (Finite y) = (x < y)"
| "float_less NegInf y = (y \<noteq> NegInf)"
| "float_less (Finite _) y = (y = PosInf)"
| "float_less PosInf _ = False"

text \<open>Python's two-argument \<open>min\<close> and \<open>max\<close> keep the first argument unless the second beats it.\<close>

definition py_min :: "pyfloat \<Rightarrow> pyfloat \<Rightarrow> pyfloat" where
  "py_min a b = (if float_less b a then b else a)"

definition py_max :: "pyfloat \<Rightarrow> pyfloat \<Rightarrow> pyfloat" where
  "py_max a b = (if float_less a b then b else a)"

section \<open>The exponent is right, and literals evaluate\<close>

lemma bit_length_bounds:
  assumes "0 < n"
  shows "2 powi (bit_length n - 1) \<le> (of_int n :: rat)" "(of_int n :: rat) < 2 powi bit_length n"
proof -
  let ?k = "floorlog 2 (nat n)"
  have k: "2 ^ (?k - 1) \<le> nat n" "nat n < 2 ^ ?k"
    using floorlog_bounds [of "nat n" 2] assms by auto
  have k3: "0 < ?k"
    using floorlog_eq_zero_iff [of 2 "nat n"] assms by linarith
  have n: "of_nat (nat n) = (of_int n :: rat)" using assms by simp
  have "(2::rat) ^ (?k - 1) \<le> of_int n" "(of_int n :: rat) < 2 ^ ?k"
    using k(1,2) n by (metis of_nat_le_iff of_nat_numeral of_nat_power)
      (metis k(2) n of_nat_less_iff of_nat_numeral of_nat_power)
  moreover have "int ?k - 1 = int (?k - 1)" using k3 by simp
  ultimately show "2 powi (bit_length n - 1) \<le> (of_int n :: rat)"
    "(of_int n :: rat) < 2 powi bit_length n"
    by (simp_all only: bit_length_def power_int_of_nat)
qed

lemma exponent_bounds:
  assumes "0 < x"
  shows "2 powi exponent x \<le> x" "x < 2 powi (exponent x + 1)"
proof -
  obtain p q where pq: "quotient_of x = (p, q)" by fastforce
  let ?a = "bit_length p" and ?b = "bit_length q"
  have q: "0 < q" and x: "x = of_int p / of_int q"
    using pq quotient_of_denom_pos quotient_of_div by auto
  then have p: "0 < p" using assms by (simp add: zero_less_divide_iff)
  note P = bit_length_bounds [OF p] and Q = bit_length_bounds [OF q]
  have "x < 2 powi ?a / 2 powi (?b - 1)"
    unfolding x using P Q q p by (intro frac_less) auto
  then have hi: "x < 2 powi (?a - ?b + 1)"
    by (simp add: power_int_diff [symmetric] algebra_simps)
  have "2 powi (?a - 1) / 2 powi ?b \<le> x"
    unfolding x using P Q q p by (intro frac_le) auto
  then have lo: "2 powi (?a - ?b - 1) \<le> x"
    by (simp add: power_int_diff [symmetric] algebra_simps)
  show "2 powi exponent x \<le> x" "x < 2 powi (exponent x + 1)"
    using hi lo by (auto simp: exponent_def pq Let_def)
qed

lemma exponent_unique:
  assumes "0 < x" "2 powi e \<le> x" "x < 2 powi (e + 1)"
  shows "exponent x = e"
proof (rule ccontr)
  have mono: "(2::rat) powi m \<le> 2 powi n" if "m \<le> n" for m n
    using that by (intro power_int_increasing) auto
  assume "exponent x \<noteq> e"
  then consider "e + 1 \<le> exponent x" | "exponent x + 1 \<le> e" by linarith
  then show False
  proof cases
    case 1
    with mono [OF 1] exponent_bounds [OF assms(1)] assms(3) show False by linarith
  next
    case 2
    with mono [OF 2] exponent_bounds [OF assms(1)] assms(2) show False by linarith
  qed
qed

lemma to_double_eq:
  assumes "0 < x" "2 powi e \<le> x" "x < 2 powi (e + 1)" "- 1022 \<le> e"
    and near: "of_int m - 1 / 2 < x / 2 powi (e - 52)" "x / 2 powi (e - 52) < of_int m + 1 / 2"
  shows "to_double x = of_int m * 2 powi (e - 52)"
proof -
  define y where "y = x / 2 powi (e - 52)"
  note near = near [folded y_def]
  have "round_even y = m"
  proof (cases "of_int m \<le> y")
    case True
    with near have "\<lfloor>y\<rfloor> = m" by (intro floor_unique) linarith+
    with True near show ?thesis by (simp add: round_even_def Let_def)
  next
    case False
    with near have "of_int (m - 1) \<le> y" "y < of_int (m - 1) + 1" by simp_all
    then have "\<lfloor>y\<rfloor> = m - 1" by (rule floor_unique)
    with False near show ?thesis by (simp add: round_even_def Let_def)
  qed
  with assms(1-4) exponent_unique [OF assms(1-3)] show ?thesis
    by (simp add: to_double_def Let_def y_def)
qed

lemma float_0_85: "float_lit 85 100 = 7656119366529843 / 9007199254740992"
  using to_double_eq [of "85 / 100" "- 1" 7656119366529843]
  by (simp add: float_lit_def power_int_def power_divide)

lemma float_0_99: "float_lit 99 100 = 8917127262193582 / 9007199254740992"
  using to_double_eq [of "99 / 100" "- 1" 8917127262193582]
  by (simp add: float_lit_def power_int_def power_divide)

lemma float_0_9: "float_lit 9 10 = 8106479329266893 / 9007199254740992"
  using to_double_eq [of "9 / 10" "- 1" 8106479329266893]
  by (simp add: float_lit_def power_int_def power_divide)

lemma float_0_05: "float_lit 5 100 = 3602879701896397 / 72057594037927936"
  using to_double_eq [of "5 / 100" "- 5" 7205759403792794]
  by (simp add: float_lit_def power_int_def power_divide)

lemmas float_lits = float_0_85 float_0_99 float_0_9 float_0_05

text \<open>A sum of doubles that is itself rounded: \<open>0.75 + 0.05\<close>.\<close>

lemma float_add_0_75: "float_add (3 / 4) (float_lit 5 100) = 3602879701896397 / 4503599627370496"
  using to_double_eq [of "3 / 4 + 3602879701896397 / 72057594037927936" "- 1" 7205759403792794]
  by (simp add: float_add_def float_0_05 power_int_def power_divide)

end
