(* ===== verification/Detection.thy ===== *)
theory Detection
  imports Tenancy PyFloat
begin

text \<open>
  \<open>src/detectors/base.py\<close>: the entity vocabulary and the \<open>Detection\<close> value with the checks of
  its constructor. Offsets and tiers are Python integers. The interface every detector
  implements is the locale \<open>span_detector\<close>.
\<close>

datatype entity_type =
    National_id | Tax_id | Bank_account | Card_number | Phone | Email
  | Person | Organization | Location | Date | Monetary | Custom

text \<open>The string the code uses for an entity type.\<close>

fun entity_name :: "entity_type \<Rightarrow> ustr" where
  "entity_name National_id = lit ''national_id''"
| "entity_name Tax_id = lit ''tax_id''"
| "entity_name Bank_account = lit ''bank_account''"
| "entity_name Card_number = lit ''card_number''"
| "entity_name Phone = lit ''phone''"
| "entity_name Email = lit ''email''"
| "entity_name Person = lit ''person''"
| "entity_name Organization = lit ''organization''"
| "entity_name Location = lit ''location''"
| "entity_name Date = lit ''date''"
| "entity_name Monetary = lit ''monetary''"
| "entity_name Custom = lit ''custom''"

record detection =
  d_entity_type :: entity_type
  d_start :: int
  d_end :: int
  d_text :: ustr
  d_confidence :: rat
  d_tier :: int
  d_detector :: ustr
  d_rule_id :: "ustr option"
  d_metadata :: "(ustr, ustr) dict"

text \<open>\<open>__post_init__\<close>, which every construction (also \<open>dataclasses.replace\<close>) runs.\<close>

definition post_init :: "detection \<Rightarrow> detection res" where
  "post_init d =
     (if \<not> (0 \<le> d_confidence d \<and> d_confidence d \<le> 1) then Inl ValueError
      else if d_start d < 0 \<or> d_end d \<le> d_start d then Inl ValueError
      else Inr d)"

definition mk_detection ::
    "entity_type \<Rightarrow> int \<Rightarrow> int \<Rightarrow> ustr \<Rightarrow> rat \<Rightarrow> int \<Rightarrow> ustr \<Rightarrow> ustr option \<Rightarrow> detection res" where
  "mk_detection et s e t c tier det rid =
     post_init \<lparr>d_entity_type = et, d_start = s, d_end = e, d_text = t, d_confidence = c,
       d_tier = tier, d_detector = det, d_rule_id = rid, d_metadata = []\<rparr>"

definition replace_confidence :: "detection \<Rightarrow> rat \<Rightarrow> detection res" where
  "replace_confidence d c = post_init (d\<lparr>d_confidence := c\<rparr>)"

text \<open>What the constructor guarantees of every detection.\<close>

definition wf_detection :: "detection \<Rightarrow> bool" where
  "wf_detection d = (0 \<le> d_confidence d \<and> d_confidence d \<le> 1 \<and> 0 \<le> d_start d \<and> d_start d < d_end d)"

text \<open>The span lies in the text and the detection's text is the text at the span.\<close>

definition span_in :: "ustr \<Rightarrow> detection \<Rightarrow> bool" where
  "span_in s d =
     (0 \<le> d_start d \<and> d_start d < d_end d \<and> d_end d \<le> int (length s) \<and>
      py_slice s (d_start d) (d_end d) = d_text d)"

section \<open>Lemmas\<close>

lemma post_init_iff: "post_init d = Inr d' \<longleftrightarrow> wf_detection d \<and> d' = d"
  by (auto simp: post_init_def wf_detection_def)

lemma post_init_error: "post_init d = Inl e \<longleftrightarrow> \<not> wf_detection d \<and> e = ValueError"
  by (auto simp: post_init_def wf_detection_def)

lemma entity_name_inj: "entity_name a = entity_name b \<longleftrightarrow> a = b"
  by (cases a; cases b) simp_all

lemma entity_name_ascii: "c \<in> set (entity_name et) \<Longrightarrow> 95 \<le> c \<and> c < 123"
  by (cases et) auto

lemma span_in_text_length: "span_in s d \<Longrightarrow> int (length (d_text d)) = d_end d - d_start d"
  using length_py_slice [of "d_start d" "d_end d" s] by (auto simp: span_in_def)

lemma span_in_chars: "span_in s d \<Longrightarrow> set (d_text d) \<subseteq> set s"
  unfolding span_in_def by (metis set_py_slice)

section \<open>The detector interface\<close>

text \<open>
  \<open>Detector.detect\<close> returns detections or raises. What the components behind it rely on is
  that every returned detection was constructed (so it is well formed) and that the detection
  quotes the text it was found in.
\<close>

locale span_detector =
  fixes detect :: "scope \<Rightarrow> ustr \<Rightarrow> detection list res"
  assumes detect_wf: "detect cur s = Inr ds \<Longrightarrow> d \<in> set ds \<Longrightarrow> wf_detection d"
    and detect_span: "detect cur s = Inr ds \<Longrightarrow> d \<in> set ds \<Longrightarrow> span_in s d"
begin

lemma detect_text_nonempty:
  assumes "detect cur s = Inr ds" and "d \<in> set ds"
  shows "d_text d \<noteq> []"
  using span_in_text_length [OF detect_span [OF assms]] detect_wf [OF assms]
  by (auto simp: wf_detection_def)

end

text \<open>A detector that also refuses to run outside a customer's scope.\<close>

locale scoped_detector = span_detector +
  assumes detect_unscoped: "detect None s = Inl MissingTenantScopeError"
begin

lemma detect_needs_scope: "detect cur s = Inr ds \<Longrightarrow> cur \<noteq> None"
  using detect_unscoped by (cases cur) auto

end

section \<open>The resolver interface\<close>

text \<open>
  What substitution relies on: the spans it is given quote the text, ascend and do not overlap.
\<close>

definition disjoint_spans :: "detection list \<Rightarrow> bool" where
  "disjoint_spans ds = sorted_wrt (\<lambda>a b. d_end a \<le> d_start b) ds"

locale span_resolver =
  fixes resolve :: "ustr \<Rightarrow> detection list \<Rightarrow> detection list res"
  assumes resolve_span: "resolve s ds = Inr out \<Longrightarrow> d \<in> set out \<Longrightarrow> span_in s d"
    and resolve_disjoint: "resolve s ds = Inr out \<Longrightarrow> disjoint_spans out"
    and resolve_total: "\<forall>d \<in> set ds. wf_detection d \<Longrightarrow> isOk (resolve s ds)"

end
