(* ===== verification/Merge.thy ===== *)
theory Merge
  imports Detection
begin

text \<open>
  \<open>src/merge/engine.py\<close>: span validation, customer exceptions, tier thresholds, overlap
  resolution and the confidence boost. The contract the pipeline relies on, that the accepted
  spans quote the text and do not overlap, is the locale \<open>span_resolver\<close>; the abstract
  specification of the overlap resolution is one winner per connected component of the
  overlap relation.
\<close>

section \<open>The engine\<close>

definition detector_precedence :: "(ustr, int) dict" where
  "detector_precedence =
     [(lit ''structural'', 0), (lit ''structural.dz'', 0), (lit ''ner'', 1), (lit ''contextual'', 2)]"

record merge_config =
  tier1_threshold :: rat
  tier2_threshold :: rat
  tier3_threshold :: rat

record merge_result =
  accepted :: "detection list"
  below_threshold :: "detection list"
  exception_suppressed :: "detection list"
  span_invalid :: "detection list"

record exception_entry =
  ee_rule_id :: "ustr option"
  ee_entity_type :: "ustr option"
  ee_text_match :: "ustr option"

definition matches_anything :: "exception_entry \<Rightarrow> bool" where
  "matches_anything x = (truthy_str (ee_rule_id x) \<or> truthy_str (ee_entity_type x) \<or> truthy_str (ee_text_match x))"

definition exception_applies :: "exception_entry \<Rightarrow> detection \<Rightarrow> bool" where
  "exception_applies x d =
     (if \<not> matches_anything x then False
      else if ee_rule_id x \<noteq> None \<and> ee_rule_id x \<noteq> d_rule_id d then False
      else if ee_entity_type x \<noteq> None \<and> ee_entity_type x \<noteq> Some (entity_name (d_entity_type d)) then False
      else \<not> (ee_text_match x \<noteq> None \<and> ee_text_match x \<noteq> Some (d_text d)))"

definition threshold :: "merge_config \<Rightarrow> int \<Rightarrow> rat" where
  "threshold cfg tier =
     (case map_of [(1, tier1_threshold cfg), (2, tier2_threshold cfg), (3, tier3_threshold cfg)] tier of
        Some t \<Rightarrow> t | None \<Rightarrow> tier3_threshold cfg)"

definition span_matches :: "ustr \<Rightarrow> detection \<Rightarrow> bool" where
  "span_matches original d =
     (if d_start d < 0 \<or> int (length original) < d_end d \<or> d_end d \<le> d_start d then False
      else py_slice original (d_start d) (d_end d) = d_text d)"

text \<open>The loop of \<open>_resolve_overlaps\<close>: \<open>current\<close>, \<open>current_end\<close> and the detections still to place.\<close>

fun clusters_from :: "detection list \<Rightarrow> int \<Rightarrow> detection list \<Rightarrow> detection list list" where
  "clusters_from current current_end [] = [current]"
| "clusters_from current current_end (d # ds) =
     (if d_start d < current_end then clusters_from (current @ [d]) (max current_end (d_end d)) ds
      else current # clusters_from [d] (d_end d) ds)"

definition winner_key :: "detection \<Rightarrow> int \<times> int \<times> int" where
  "winner_key d =
     (- (d_end d - d_start d), d_tier d,
      (case map_of detector_precedence (d_detector d) of Some p \<Rightarrow> p | None \<Rightarrow> 99))"

definition corroborates :: "detection \<Rightarrow> detection \<Rightarrow> bool" where
  "corroborates winner other =
     (other \<noteq> winner \<and> d_start other = d_start winner \<and> d_end other = d_end winner \<and>
      d_detector other \<noteq> d_detector winner)"

definition boost :: "rat \<Rightarrow> rat" where
  "boost c = min (float_lit 99 100) (float_add c (float_lit 5 100))"

definition pick_cluster_winner :: "detection list \<Rightarrow> detection res" where
  "pick_cluster_winner cluster =
     (if length cluster = 1 then Inr (hd cluster)
      else let winner = hd (sort_key winner_key cluster)
           in if list_ex (corroborates winner) cluster \<and> d_confidence winner < boost (d_confidence winner)
              then replace_confidence winner (boost (d_confidence winner))
              else Inr winner)"

definition span_key :: "detection \<Rightarrow> int \<times> int" where
  "span_key d = (d_start d, - d_end d)"

definition clusters :: "detection list \<Rightarrow> detection list list" where
  "clusters ds =
     (case sort_key span_key ds of [] \<Rightarrow> [] | d # rest \<Rightarrow> clusters_from [d] (d_end d) rest)"

definition resolve_overlaps :: "detection list \<Rightarrow> detection list res" where
  "resolve_overlaps ds = mapE pick_cluster_winner (clusters ds)"

definition exempt :: "exception_entry list \<Rightarrow> detection \<Rightarrow> bool" where
  "exempt exceptions d = list_ex (\<lambda>x. exception_applies x d) exceptions"

definition above_threshold :: "merge_config \<Rightarrow> detection \<Rightarrow> bool" where
  "above_threshold cfg d = (threshold cfg (d_tier d) \<le> d_confidence d)"

definition merge :: "merge_config \<Rightarrow> ustr \<Rightarrow> detection list \<Rightarrow> exception_entry list \<Rightarrow> merge_result res" where
  "merge cfg original detections exceptions =
     (let validated = filter (span_matches original) detections;
          invalid = filter (\<lambda>d. \<not> span_matches original d) detections;
          kept = filter (\<lambda>d. \<not> exempt exceptions d) validated;
          suppressed = filter (exempt exceptions) validated;
          threshold_filtered = filter (above_threshold cfg) kept;
          below = filter (\<lambda>d. \<not> above_threshold cfg d) kept
      in bindE (resolve_overlaps threshold_filtered) (\<lambda>out.
           Inr \<lparr>accepted = out, below_threshold = below, exception_suppressed = suppressed,
             span_invalid = invalid\<rparr>))"

section \<open>Overlap and its components\<close>

definition overlaps :: "detection \<Rightarrow> detection \<Rightarrow> bool" where
  "overlaps a b = (d_start a < d_end b \<and> d_start b < d_end a)"

text \<open>Two detections are linked in a set when a chain of overlapping members joins them.\<close>

inductive linked :: "detection set \<Rightarrow> detection \<Rightarrow> detection \<Rightarrow> bool" for S where
  refl: "a \<in> S \<Longrightarrow> linked S a a"
| step: "linked S a b \<Longrightarrow> c \<in> S \<Longrightarrow> overlaps b c \<Longrightarrow> linked S a c"

text \<open>The detections that pass the span check, the exceptions and the threshold.\<close>

definition survivors ::
    "merge_config \<Rightarrow> ustr \<Rightarrow> exception_entry list \<Rightarrow> detection list \<Rightarrow> detection list" where
  "survivors cfg original exceptions ds =
     filter (\<lambda>d. span_matches original d \<and> \<not> exempt exceptions d \<and> above_threshold cfg d) ds"

text \<open>The same detection up to the confidence.\<close>

definition same_span_entry :: "detection \<Rightarrow> detection \<Rightarrow> bool" where
  "same_span_entry a b = (a\<lparr>d_confidence := 0\<rparr> = b\<lparr>d_confidence := 0\<rparr>)"

lemma overlaps_sym: "overlaps a b \<longleftrightarrow> overlaps b a"
  by (auto simp: overlaps_def)

lemma linked_in: "linked S a b \<Longrightarrow> a \<in> S \<and> b \<in> S"
  by (induction rule: linked.induct) auto

lemma linked_trans: "linked S b c \<Longrightarrow> linked S a b \<Longrightarrow> linked S a c"
  by (induction rule: linked.induct) (auto intro: linked.step)

lemma linked_sym: "linked S a b \<Longrightarrow> linked S b a"
proof (induction rule: linked.induct)
  case (refl a)
  then show ?case by (rule linked.refl)
next
  case (step a b c)
  have "linked S c b"
    using linked.step [OF linked.refl [OF step.hyps(2)]] step.hyps overlaps_sym linked_in by blast
  with step.IH show ?case by (blast intro: linked_trans)
qed

lemma linked_mono: "linked S a b \<Longrightarrow> S \<subseteq> T \<Longrightarrow> linked T a b"
  by (induction rule: linked.induct) (auto intro: linked.intros)

text \<open>A set that no overlap leaves holds all that is linked to its members.\<close>

lemma linked_closed:
  assumes "linked S a b" and "a \<in> A"
    and "\<And>x y. x \<in> A \<Longrightarrow> y \<in> S \<Longrightarrow> overlaps x y \<Longrightarrow> y \<in> A"
  shows "b \<in> A"
  using assms by (induction rule: linked.induct) auto

section \<open>The clusters\<close>

abbreviation proper :: "detection \<Rightarrow> bool" where
  "proper d \<equiv> d_start d < d_end d"

abbreviation ends_before :: "detection list \<Rightarrow> detection list \<Rightarrow> bool" where
  "ends_before A B \<equiv> (\<forall>a \<in> set A. \<forall>b \<in> set B. d_end a \<le> d_start b)"

lemma concat_clusters_from: "concat (clusters_from cur e ds) = cur @ ds"
  by (induction cur e ds rule: clusters_from.induct) auto

lemma clusters_from_nonempty: "cur \<noteq> [] \<Longrightarrow> C \<in> set (clusters_from cur e ds) \<Longrightarrow> C \<noteq> []"
  by (induction cur e ds rule: clusters_from.induct) (auto split: if_splits)

text \<open>What the loop keeps: the end is the greatest of the current cluster, and starts ascend.\<close>

definition cluster_inv :: "detection list \<Rightarrow> int \<Rightarrow> detection list \<Rightarrow> bool" where
  "cluster_inv cur e ds =
     (cur \<noteq> [] \<and> (\<forall>d \<in> set cur. d_end d \<le> e) \<and> (\<exists>d \<in> set cur. d_end d = e) \<and>
      sorted (map d_start (cur @ ds)) \<and> (\<forall>d \<in> set (cur @ ds). proper d))"

lemma cluster_inv_extend:
  assumes "cluster_inv cur e (d # ds)"
  shows "cluster_inv (cur @ [d]) (max e (d_end d)) ds" "cluster_inv [d] (d_end d) ds"
proof -
  show "cluster_inv (cur @ [d]) (max e (d_end d)) ds"
    using assms unfolding cluster_inv_def
    by (cases "e \<le> d_end d") (force simp: max_def)+
  show "cluster_inv [d] (d_end d) ds"
    using assms unfolding cluster_inv_def by (auto simp: sorted_append)
qed

lemma clusters_from_separated:
  "cluster_inv cur e ds \<Longrightarrow> sorted_wrt ends_before (clusters_from cur e ds)"
proof (induction cur e ds rule: clusters_from.induct)
  case (2 cur e d ds)
  show ?case
  proof (cases "d_start d < e")
    case True
    then show ?thesis using 2 cluster_inv_extend(1) by simp
  next
    case False
    have "ends_before cur (d # ds)"
      using 2(3) False unfolding cluster_inv_def by (fastforce simp: sorted_append)
    moreover have "\<Union> (set ` set (clusters_from [d] (d_end d) ds)) = set (d # ds)"
      using concat_clusters_from [of "[d]" "d_end d" ds] by (metis append_Cons append_Nil set_concat)
    ultimately show ?thesis
      using False 2(2) [OF False cluster_inv_extend(2) [OF 2(3)]] by auto
  qed
qed simp

lemma clusters_from_linked:
  "cluster_inv cur e ds \<Longrightarrow> (\<And>a b. a \<in> set cur \<Longrightarrow> b \<in> set cur \<Longrightarrow> linked (set cur) a b) \<Longrightarrow>
   C \<in> set (clusters_from cur e ds) \<Longrightarrow> a \<in> set C \<Longrightarrow> b \<in> set C \<Longrightarrow> linked (set C) a b"
proof (induction cur e ds rule: clusters_from.induct)
  case (2 cur e d ds)
  show ?case
  proof (cases "d_start d < e")
    case True
    from 2(3) obtain x where x: "x \<in> set cur" "d_end x = e" "d_start x \<le> d_start d" "proper d"
      unfolding cluster_inv_def by (auto simp: sorted_append)
    with True have ov: "overlaps x d" by (auto simp: overlaps_def)
    have one: "linked (set (cur @ [d])) a d" if "a \<in> set cur" for a
      using 2(4) [OF that x(1)] ov by (auto intro: linked.step linked_mono)
    have old: "linked (set (cur @ [d])) a b" if "a \<in> set cur" "b \<in> set cur" for a b
      using linked_mono [OF 2(4) [OF that]] by auto
    have "linked (set (cur @ [d])) a b" if "a \<in> set (cur @ [d])" "b \<in> set (cur @ [d])" for a b
      using that one linked_sym [OF one] old by (auto intro: linked.refl)
    with 2(1) [OF True cluster_inv_extend(1) [OF 2(3)]] 2(5-7) True show ?thesis by auto
  next
    case False
    then show ?thesis
      using 2(2) [OF False cluster_inv_extend(2) [OF 2(3)]] 2(4-7) by (auto intro: linked.refl)
  qed
qed auto

text \<open>The clusters of a list of proper detections, as the loop is started on the sorted list.\<close>

lemma sorted_span_key: "sorted (map d_start (sort_key span_key ds))"
proof -
  have "sorted_wrt (\<lambda>a b. span_key a \<le> span_key b) (sort_key span_key ds)"
    using sorted_sort_key [of span_key ds] by (simp add: sorted_map)
  then have "sorted_wrt (\<lambda>a b. d_start a \<le> d_start b) (sort_key span_key ds)"
    by (rule sorted_wrt_mono_rel [rotated]) (auto simp: span_key_def less_eq_prod_def)
  then show ?thesis by (simp add: sorted_map)
qed

lemma clusters_start:
  assumes "\<forall>d \<in> set ds. proper d" and "sort_key span_key ds = d # rest"
  shows "cluster_inv [d] (d_end d) rest"
  using sorted_span_key [of ds] assms set_sort [of span_key ds]
  by (fastforce simp: cluster_inv_def)

lemma mset_clusters: "mset (concat (clusters ds)) = mset ds"
proof (cases "sort_key span_key ds")
  case (Cons d rest)
  then have "concat (clusters ds) = sort_key span_key ds"
    by (simp add: clusters_def concat_clusters_from)
  then show ?thesis by simp
qed (simp add: clusters_def)

lemma set_clusters: "(\<Union>C \<in> set (clusters ds). set C) = set ds"
  using mset_clusters [of ds] by (metis set_concat set_mset_mset)

lemma in_cluster: "C \<in> set (clusters ds) \<Longrightarrow> d \<in> set C \<Longrightarrow> d \<in> set ds"
  using set_clusters [of ds] by auto

lemma clusters_nonempty: "C \<in> set (clusters ds) \<Longrightarrow> C \<noteq> []"
  by (auto simp: clusters_def split: list.splits dest: clusters_from_nonempty [rotated])

lemma clusters_separated:
  "\<forall>d \<in> set ds. proper d \<Longrightarrow> sorted_wrt ends_before (clusters ds)"
  using clusters_from_separated [OF clusters_start] by (auto simp: clusters_def split: list.splits)

lemma cluster_linked:
  assumes "\<forall>d \<in> set ds. proper d" "C \<in> set (clusters ds)" "a \<in> set C" "b \<in> set C"
  shows "linked (set ds) a b"
proof -
  obtain d rest where s: "sort_key span_key ds = d # rest"
    using assms(2) by (cases "sort_key span_key ds") (auto simp: clusters_def)
  have one: "linked (set [d]) x y" if "x \<in> set [d]" "y \<in> set [d]" for x y
    using that by (auto intro: linked.refl)
  have "C \<in> set (clusters_from [d] (d_end d) rest)"
    using assms(2) s by (simp add: clusters_def)
  from clusters_from_linked [OF clusters_start [OF assms(1) s] one this assms(3,4)]
  have "linked (set C) a b" by blast
  then show ?thesis
    using in_cluster [OF assms(2)] by (blast intro: linked_mono)
qed

lemma cluster_closed:
  assumes pr: "\<forall>d \<in> set ds. proper d" and C: "C \<in> set (clusters ds)"
    and x: "x \<in> set C" and y: "y \<in> set ds" and ov: "overlaps x y"
  shows "y \<in> set C"
proof -
  obtain D where D: "D \<in> set (clusters ds)" "y \<in> set D"
    using y set_clusters [of ds] by auto
  have "D = C"
  proof (rule ccontr)
    assume "D \<noteq> C"
    obtain i j where ij: "i < length (clusters ds)" "j < length (clusters ds)"
        "clusters ds ! i = C" "clusters ds ! j = D" "i \<noteq> j"
      using C D(1) \<open>D \<noteq> C\<close> by (metis in_set_conv_nth)
    then have "ends_before C D \<or> ends_before D C"
      using sorted_wrt_nth_less [OF clusters_separated [OF pr], of i j]
        sorted_wrt_nth_less [OF clusters_separated [OF pr], of j i] by (cases "i < j") auto
    with x D(2) ov show False unfolding overlaps_def by (meson not_le)
  qed
  with D(2) show ?thesis by simp
qed

text \<open>So a cluster is exactly one component of the overlap relation.\<close>

lemma cluster_is_component:
  assumes "\<forall>d \<in> set ds. proper d" "C \<in> set (clusters ds)" "a \<in> set C"
  shows "b \<in> set C \<longleftrightarrow> linked (set ds) a b"
  using cluster_linked [OF assms] linked_closed [of "set ds" a b "set C"]
    cluster_closed [OF assms(1,2)] assms(3) by blast

section \<open>The winner of a cluster\<close>

lemma boost_le: "boost c \<le> 1"
  by (simp add: boost_def float_0_99 min_le_iff_disj)

lemma pick_total:
  assumes "C \<noteq> []" and "\<forall>d \<in> set C. wf_detection d"
  shows "\<exists>w. pick_cluster_winner C = Inr w"
proof -
  have "wf_detection (hd (sort_key winner_key C))"
    using assms hd_sort_key_in by blast
  then show ?thesis
    using boost_le by (auto simp: pick_cluster_winner_def replace_confidence_def Let_def
      wf_detection_def post_init_def intro: order_trans)
qed

text \<open>The winner is the first best of the cluster, with its confidence kept or boosted.\<close>

lemma pick_winner:
  assumes "pick_cluster_winner C = Inr w" and "C \<noteq> []"
  shows "\<exists>d \<in> set C. same_span_entry d w \<and> (\<forall>y \<in> set C. winner_key d \<le> winner_key y) \<and>
    d_confidence d \<le> d_confidence w \<and>
    (d_confidence w = d_confidence d \<or>
      list_ex (corroborates d) C \<and> d_confidence w = boost (d_confidence d))"
proof -
  let ?d = "hd (sort_key winner_key C)"
  note key = hd_sort_key_least [OF assms(2), where f = winner_key]
  have one: "?d = hd C" if "length C = 1"
    using that by (auto simp: length_Suc_conv)
  show ?thesis
    using assms hd_sort_key_in [OF assms(2), of winner_key] one key
    by (intro bexI [of _ ?d])
      (auto simp: pick_cluster_winner_def Let_def replace_confidence_def post_init_iff
        same_span_entry_def split: if_splits)
qed

lemma same_span_entryD:
  assumes "same_span_entry a b"
  shows "d_start a = d_start b" "d_end a = d_end b" "d_text a = d_text b"
    "d_entity_type a = d_entity_type b" "d_tier a = d_tier b" "d_detector a = d_detector b"
    "d_rule_id a = d_rule_id b" "d_metadata a = d_metadata b"
  using assms unfolding same_span_entry_def by (cases a; cases b; simp)+

section \<open>The pipeline of filters\<close>

lemma span_matches_iff: "span_matches s d \<longleftrightarrow> span_in s d"
  by (auto simp: span_matches_def span_in_def)

lemma survivors_proper: "\<forall>d \<in> set (survivors cfg s xs ds). proper d"
  by (auto simp: survivors_def span_matches_iff span_in_def)

lemma merge_Inr:
  "merge cfg s ds xs = Inr r \<longleftrightarrow>
     resolve_overlaps (survivors cfg s xs ds) = Inr (accepted r) \<and>
     span_invalid r = filter (\<lambda>d. \<not> span_matches s d) ds \<and>
     exception_suppressed r = filter (exempt xs) (filter (span_matches s) ds) \<and>
     below_threshold r = filter (\<lambda>d. \<not> above_threshold cfg d)
       (filter (\<lambda>d. \<not> exempt xs d) (filter (span_matches s) ds))"
proof -
  have "filter (above_threshold cfg) (filter (\<lambda>d. \<not> exempt xs d) (filter (span_matches s) ds)) =
      survivors cfg s xs ds"
    by (auto simp: survivors_def intro: filter_cong)
  then show ?thesis
    by (cases r) (auto simp: merge_def Let_def bindE_eq_Inr)
qed

lemma resolve_clusters:
  assumes "resolve_overlaps ds = Inr out"
  shows "list_all2 (\<lambda>C w. pick_cluster_winner C = Inr w) (clusters ds) out"
  using assms by (simp add: resolve_overlaps_def mapE_eq_Inr)

text \<open>Every winner stands for its cluster, at the cluster's position.\<close>

lemma resolve_nth:
  assumes out: "resolve_overlaps ds = Inr out" and i: "i < length out"
  shows "i < length (clusters ds)" "pick_cluster_winner (clusters ds ! i) = Inr (out ! i)"
    "clusters ds ! i \<in> set (clusters ds)" "clusters ds ! i \<noteq> []"
proof -
  note l = resolve_clusters [OF out]
  show 1: "i < length (clusters ds)" using i list_all2_lengthD [OF l] by simp
  show "pick_cluster_winner (clusters ds ! i) = Inr (out ! i)"
    using list_all2_nthD2 [OF l i] .
  show "clusters ds ! i \<in> set (clusters ds)" using 1 by simp
  then show "clusters ds ! i \<noteq> []" by (rule clusters_nonempty)
qed

lemma resolve_member:
  assumes "resolve_overlaps ds = Inr out" and "a \<in> set out"
  obtains C w where "C \<in> set (clusters ds)" "w \<in> set C" "same_span_entry w a"
    "\<forall>y \<in> set C. winner_key w \<le> winner_key y" "d_confidence w \<le> d_confidence a"
    "d_confidence a = d_confidence w \<or>
      list_ex (corroborates w) C \<and> d_confidence a = boost (d_confidence w)"
proof -
  obtain i where i: "i < length out" "a = out ! i"
    using assms(2) by (auto simp: in_set_conv_nth)
  note n = resolve_nth [OF assms(1) i(1)]
  from pick_winner [OF n(2) n(4)] n(3) i(2) that show thesis by blast
qed

lemma resolve_disjoint_spans:
  assumes pr: "\<forall>d \<in> set ds. proper d" and out: "resolve_overlaps ds = Inr out"
  shows "disjoint_spans out"
  unfolding disjoint_spans_def sorted_wrt_iff_nth_less
proof (intro allI impI)
  fix i j
  assume ij: "i < j" "j < length out"
  then have i: "i < length out" by simp
  note I = resolve_nth [OF out i] and J = resolve_nth [OF out ij(2)]
  obtain a where a: "a \<in> set (clusters ds ! i)" "same_span_entry a (out ! i)"
    using pick_winner [OF I(2) I(4)] by blast
  obtain b where b: "b \<in> set (clusters ds ! j)" "same_span_entry b (out ! j)"
    using pick_winner [OF J(2) J(4)] by blast
  have "ends_before (clusters ds ! i) (clusters ds ! j)"
    using sorted_wrt_nth_less [OF clusters_separated [OF pr] ij(1) J(1)] .
  with a(1) b(1) have "d_end a \<le> d_start b" by blast
  with same_span_entryD [OF a(2)] same_span_entryD [OF b(2)]
  show "d_end (out ! i) \<le> d_start (out ! j)" by simp
qed

lemma resolve_overlaps_total:
  assumes "\<forall>d \<in> set ds. wf_detection d"
  shows "\<exists>out. resolve_overlaps ds = Inr out"
proof -
  have "isOk (pick_cluster_winner C)" if "C \<in> set (clusters ds)" for C
    using pick_total [OF clusters_nonempty [OF that]] in_cluster [OF that] assms
    by (auto simp: isOk_iff)
  then show ?thesis
    unfolding resolve_overlaps_def using mapE_isOk [of pick_cluster_winner "clusters ds"]
    by (auto simp: isOk_iff)
qed

lemma span_in_same: "same_span_entry a b \<Longrightarrow> span_in s a \<longleftrightarrow> span_in s b"
  using same_span_entryD [of a b] by (simp add: span_in_def)

section \<open>The engine as a resolver\<close>

definition merge_accepted ::
    "merge_config \<Rightarrow> exception_entry list \<Rightarrow> ustr \<Rightarrow> detection list \<Rightarrow> detection list res" where
  "merge_accepted cfg exceptions original ds =
     bindE (merge cfg original ds exceptions) (\<lambda>r. Inr (accepted r))"

interpretation merge_resolver: span_resolver "merge_accepted cfg xs"
proof
  fix s ds out d
  assume "merge_accepted cfg xs s ds = Inr out" "d \<in> set out"
  then obtain w where w: "w \<in> set (survivors cfg s xs ds)" "same_span_entry w d"
    by (auto simp: merge_accepted_def bindE_eq_Inr merge_Inr elim!: resolve_member
        dest: in_cluster)
  then show "span_in s d"
    using span_in_same [OF w(2), of s] by (auto simp: survivors_def span_matches_iff)
next
  fix s ds out
  assume "merge_accepted cfg xs s ds = Inr out"
  then show "disjoint_spans out"
    using resolve_disjoint_spans [OF survivors_proper]
    by (auto simp: merge_accepted_def bindE_eq_Inr merge_Inr)
next
  fix s and ds :: "detection list"
  assume "\<forall>d \<in> set ds. wf_detection d"
  then obtain out where "resolve_overlaps (survivors cfg s xs ds) = Inr out"
    using resolve_overlaps_total [of "survivors cfg s xs ds"] by (auto simp: survivors_def)
  then have "merge cfg s ds xs = Inr \<lparr>accepted = out,
      below_threshold = filter (\<lambda>d. \<not> above_threshold cfg d)
        (filter (\<lambda>d. \<not> exempt xs d) (filter (span_matches s) ds)),
      exception_suppressed = filter (exempt xs) (filter (span_matches s) ds),
      span_invalid = filter (\<lambda>d. \<not> span_matches s d) ds\<rparr>"
    by (simp add: merge_Inr)
  then show "isOk (merge_accepted cfg xs s ds)"
    by (simp add: merge_accepted_def)
qed

section \<open>Components, accounting, idempotence\<close>

lemma same_span_cluster:
  assumes "\<forall>d \<in> set ds. proper d" "C \<in> set (clusters ds)" "x \<in> set C" "y \<in> set ds"
    and "same_span_entry x a" "same_span_entry y a"
  shows "y \<in> set C"
proof -
  have "overlaps x y"
    using bspec [OF assms(1,4)] same_span_entryD(1,2) [OF assms(5)] same_span_entryD(1,2) [OF assms(6)]
    by (simp add: overlaps_def)
  with cluster_closed [OF assms(1-4)] show ?thesis .
qed

lemma shared_cluster:
  assumes pr: "\<forall>d \<in> set ds. proper d"
    and "i < length (clusters ds)" "j < length (clusters ds)"
    and "d \<in> set (clusters ds ! i)" "d \<in> set (clusters ds ! j)"
  shows "i = j"
proof (rule ccontr)
  have d: "proper d" using pr assms(2,4) in_cluster [OF nth_mem] by blast
  assume "i \<noteq> j"
  then have "ends_before (clusters ds ! i) (clusters ds ! j) \<or>
      ends_before (clusters ds ! j) (clusters ds ! i)"
    using sorted_wrt_nth_less [OF clusters_separated [OF pr], of i j]
      sorted_wrt_nth_less [OF clusters_separated [OF pr], of j i] assms(2,3)
    by (cases "i < j") auto
  with assms(4,5) d show False by (meson not_le)
qed

lemma resolve_nth_entry:
  assumes pr: "\<forall>d \<in> set ds. proper d" and out: "resolve_overlaps ds = Inr out"
    and i: "i < length out" and w: "w \<in> set ds" "same_span_entry w (out ! i)"
  shows "w \<in> set (clusters ds ! i)"
proof -
  note I = resolve_nth [OF out i]
  obtain x where "x \<in> set (clusters ds ! i)" "same_span_entry x (out ! i)"
    using pick_winner [OF I(2) I(4)] by blast
  with same_span_cluster [OF pr I(3) _ w(1) _ w(2)] show ?thesis by blast
qed

lemma resolve_one_per_component:
  assumes pr: "\<forall>d \<in> set ds. proper d" and out: "resolve_overlaps ds = Inr out"
    and d: "d \<in> set ds"
  shows "\<exists>!i. i < length out \<and> (\<exists>w \<in> set ds. same_span_entry w (out ! i) \<and> linked (set ds) d w)"
proof -
  have len: "length out = length (clusters ds)"
    using list_all2_lengthD [OF resolve_clusters [OF out]] by simp
  obtain C where C: "C \<in> set (clusters ds)" "d \<in> set C"
    using d set_clusters [of ds] by auto
  then obtain i where i: "i < length out" "d \<in> set (clusters ds ! i)"
    using len by (metis in_set_conv_nth)
  note I = resolve_nth [OF out i(1)]
  obtain w where w: "w \<in> set (clusters ds ! i)" "same_span_entry w (out ! i)"
    using pick_winner [OF I(2) I(4)] by blast
  show ?thesis
  proof (rule ex1I [of _ i])
    show "i < length out \<and> (\<exists>w \<in> set ds. same_span_entry w (out ! i) \<and> linked (set ds) d w)"
      using i(1) w in_cluster [OF I(3) w(1)] cluster_linked [OF pr I(3) i(2) w(1)] by blast
  next
    fix j
    assume j: "j < length out \<and> (\<exists>w \<in> set ds. same_span_entry w (out ! j) \<and> linked (set ds) d w)"
    then obtain v where v: "v \<in> set ds" "same_span_entry v (out ! j)" "linked (set ds) d v" by blast
    have j': "j < length out" using j by blast
    note J = resolve_nth [OF out j']
    have "v \<in> set (clusters ds ! j)" using resolve_nth_entry [OF pr out j' v(1,2)] .
    then have "d \<in> set (clusters ds ! j)"
      using cluster_is_component [OF pr J(3)] linked_sym [OF v(3)] by blast
    with shared_cluster [OF pr J(1) I(1) _ i(2)] show "j = i" by blast
  qed
qed

lemma clusters_from_disjoint:
  "disjoint_spans (d # ds) \<Longrightarrow> \<forall>x \<in> set (d # ds). proper x \<Longrightarrow>
   clusters_from [d] (d_end d) ds = map (\<lambda>x. [x]) (d # ds)"
  by (induction ds arbitrary: d) (auto simp: disjoint_spans_def)

lemma disjoint_sorted:
  assumes "disjoint_spans ds" and "\<forall>x \<in> set ds. proper x"
  shows "sort_key span_key ds = ds"
proof -
  have "sorted_wrt (\<lambda>a b. span_key a \<le> span_key b) ds"
    using assms unfolding disjoint_spans_def
    by (induction ds) (force simp: span_key_def less_eq_prod_def)+
  then show ?thesis by (intro sort_key_id_if_sorted) (simp add: sorted_map)
qed

lemma resolve_disjoint_id:
  assumes "disjoint_spans ds" and "\<forall>x \<in> set ds. proper x"
  shows "resolve_overlaps ds = Inr ds"
proof -
  have "clusters ds = map (\<lambda>x. [x]) ds"
    using disjoint_sorted [OF assms] clusters_from_disjoint assms
    by (auto simp: clusters_def split: list.splits)
  then show ?thesis
    by (auto simp: resolve_overlaps_def mapE_eq_Inr list_all2_map1 list_all2_same
        pick_cluster_winner_def)
qed

lemma exempt_same: "same_span_entry a b \<Longrightarrow> exempt xs a \<longleftrightarrow> exempt xs b"
  using same_span_entryD [of a b] by (simp add: exempt_def exception_applies_def list_ex_iff)

lemma survivor_again:
  assumes "resolve_overlaps (survivors cfg s xs ds) = Inr out" and "a \<in> set out"
  shows "span_matches s a" "\<not> exempt xs a" "above_threshold cfg a"
proof -
  obtain w where w: "w \<in> set (survivors cfg s xs ds)" "same_span_entry w a"
      "d_confidence w \<le> d_confidence a"
    using assms by (blast elim: resolve_member dest: in_cluster)
  then show "span_matches s a" "\<not> exempt xs a" "above_threshold cfg a"
    using span_in_same [OF w(2), of s] exempt_same [OF w(2), of xs] same_span_entryD(5) [OF w(2)]
    by (auto simp: survivors_def span_matches_iff above_threshold_def)
qed

lemma chain_clusters:
  assumes "d_start A < d_start B" "d_start B < d_end A" "d_end A \<le> d_start C" "d_start C < d_end B"
  shows "clusters [A, B, C] = [[A, B, C]]"
  using assms by (simp add: clusters_def span_key_def less_eq_prod_def sort_key_def)

lemma mset_four_filters:
  "mset ds = mset (filter (\<lambda>d. \<not> P d) ds) + mset (filter Q (filter P ds)) +
     mset (filter (\<lambda>d. \<not> T d) (filter (\<lambda>d. \<not> Q d) (filter P ds))) +
     mset (filter (\<lambda>d. P d \<and> \<not> Q d \<and> T d) ds)"
  unfolding filter_filter by (induction ds) auto

section \<open>Properties\<close>

text \<open>
  C13. The resolution picks one winner per component of the overlap relation: every detection
  that survives the span check, the exceptions and its threshold is joined by a chain of
  overlapping survivors to the source of exactly one accepted entry.
\<close>

theorem merge_one_winner_per_component:
  assumes "merge cfg s ds xs = Inr r" and "d \<in> set (survivors cfg s xs ds)"
  shows "\<exists>!i. i < length (accepted r) \<and>
    (\<exists>w \<in> set (survivors cfg s xs ds). same_span_entry w (accepted r ! i) \<and>
      linked (set (survivors cfg s xs ds)) d w)"
  using assms resolve_one_per_component [OF survivors_proper] by (simp add: merge_Inr)

text \<open>
  C24. Every accepted entry is a surviving detection that is best in its component (longest
  span, then lowest tier, then detector precedence), unchanged but for its confidence, which
  is raised to \<open>min(0.99, c + 0.05)\<close> only if another detector reported the very same span.
\<close>

theorem merge_accepts_best:
  assumes "merge cfg s ds xs = Inr r" and "a \<in> set (accepted r)"
  shows "\<exists>w \<in> set (survivors cfg s xs ds). same_span_entry w a \<and>
    (\<forall>y. linked (set (survivors cfg s xs ds)) w y \<longrightarrow> winner_key w \<le> winner_key y) \<and>
    (d_confidence a = d_confidence w \<or>
     d_confidence w < d_confidence a \<and> d_confidence a = boost (d_confidence w) \<and>
     (\<exists>y \<in> set (survivors cfg s xs ds). corroborates w y))"
proof -
  from assms have "resolve_overlaps (survivors cfg s xs ds) = Inr (accepted r)" by (simp add: merge_Inr)
  from this assms(2) obtain C w where C: "C \<in> set (clusters (survivors cfg s xs ds))" "w \<in> set C"
    "same_span_entry w a" "\<forall>y \<in> set C. winner_key w \<le> winner_key y" "d_confidence w \<le> d_confidence a"
    "d_confidence a = d_confidence w \<or>
      list_ex (corroborates w) C \<and> d_confidence a = boost (d_confidence w)"
    by (rule resolve_member)
  have "winner_key w \<le> winner_key y" if "linked (set (survivors cfg s xs ds)) w y" for y
    using cluster_is_component [OF survivors_proper C(1,2)] C(4) that by blast
  moreover have "y \<in> set (survivors cfg s xs ds)" if "y \<in> set C" for y
    using in_cluster [OF C(1) that] .
  ultimately show ?thesis
    using C(2,3,5,6) by (intro bexI [of _ w]) (auto simp: list_ex_iff)
qed

text \<open>
  No detection is lost or invented: the rejected lists and the clusters the winners come
  from make up the input, and each cluster gives one accepted entry.
\<close>

theorem merge_accounting:
  assumes "merge cfg s ds xs = Inr r"
  shows "mset ds = mset (span_invalid r) + mset (exception_suppressed r) + mset (below_threshold r) +
      mset (concat (clusters (survivors cfg s xs ds))) \<and>
    length (accepted r) = length (clusters (survivors cfg s xs ds))"
proof -
  have "resolve_overlaps (survivors cfg s xs ds) = Inr (accepted r)"
    using assms by (simp add: merge_Inr)
  from list_all2_lengthD [OF resolve_clusters [OF this]]
  have "length (accepted r) = length (clusters (survivors cfg s xs ds))" by simp
  moreover have "mset ds = mset (span_invalid r) + mset (exception_suppressed r) +
      mset (below_threshold r) + mset (survivors cfg s xs ds)"
    using assms mset_four_filters [of ds "span_matches s" "exempt xs" "above_threshold cfg"]
    by (simp only: merge_Inr survivors_def)
  ultimately show ?thesis by (simp only: mset_clusters)
qed

text \<open>
  C23. On detections that were constructed, the merge never raises, and its output quotes the
  text at ascending spans that do not overlap.
\<close>

theorem merge_total_and_disjoint:
  assumes "\<forall>d \<in> set ds. wf_detection d"
  shows "\<exists>r. merge cfg s ds xs = Inr r \<and> disjoint_spans (accepted r) \<and>
    (\<forall>a \<in> set (accepted r). span_in s a)"
proof -
  obtain r where r: "merge cfg s ds xs = Inr r"
    using merge_resolver.resolve_total [OF assms, of cfg xs s]
    by (auto simp: isOk_iff merge_accepted_def bindE_eq_Inr)
  then have "merge_accepted cfg xs s ds = Inr (accepted r)" by (simp add: merge_accepted_def)
  with r merge_resolver.resolve_disjoint merge_resolver.resolve_span show ?thesis by blast
qed

text \<open>Merging what was accepted again changes nothing and rejects nothing.\<close>

theorem merge_idempotent:
  assumes "merge cfg s ds xs = Inr r"
  shows "merge cfg s (accepted r) xs =
    Inr \<lparr>accepted = accepted r, below_threshold = [], exception_suppressed = [], span_invalid = []\<rparr>"
proof -
  have out: "resolve_overlaps (survivors cfg s xs ds) = Inr (accepted r)"
    using assms by (simp add: merge_Inr)
  note again = survivor_again [OF out]
  have surv: "survivors cfg s xs (accepted r) = accepted r"
    using again by (auto simp: survivors_def)
  have "resolve_overlaps (accepted r) = Inr (accepted r)"
    using resolve_disjoint_id [OF resolve_disjoint_spans [OF survivors_proper out]] again(1)
    by (auto simp: span_matches_iff span_in_def)
  with surv again show ?thesis by (simp add: merge_Inr)
qed

text \<open>
  Clusters close under chains of overlaps, but only the winner of a cluster is kept: of
  three detections of which the first overlaps the second and the second the third, the third
  is dropped when the first wins, though nothing accepted covers any of it.
\<close>

theorem merge_chain_drops:
  assumes "survivors cfg s xs [A, B, C] = [A, B, C]"
    and "d_start A < d_start B" "d_start B < d_end A" "d_end A \<le> d_start C" "d_start C < d_end B"
    and "winner_key A \<le> winner_key B" "winner_key A \<le> winner_key C"
  shows "merge cfg s [A, B, C] xs =
    Inr \<lparr>accepted = [A], below_threshold = [], exception_suppressed = [], span_invalid = []\<rparr> \<and>
    \<not> overlaps A C"
proof -
  have "hd (sort_key winner_key [A, B, C]) = A"
    using assms(6,7) by (intro hd_sort_key_head) auto
  moreover have "\<not> list_ex (corroborates A) [A, B, C]"
    using assms(2-4) by (simp add: corroborates_def)
  ultimately have "pick_cluster_winner [A, B, C] = Inr A"
    by (simp add: pick_cluster_winner_def Let_def)
  then have "resolve_overlaps [A, B, C] = Inr [A]"
    by (simp add: resolve_overlaps_def chain_clusters [OF assms(2-5)])
  moreover have "\<forall>d \<in> set [A, B, C]. span_matches s d \<and> \<not> exempt xs d \<and> above_threshold cfg d"
    using assms(1) unfolding survivors_def by (simp only: filter_id_conv)
  ultimately show ?thesis
    using assms(1,4) by (simp add: merge_Inr overlaps_def)
qed

section \<open>Witnesses\<close>

text \<open>
  A text of twenty letters, two detectors that agree on one span and a chain of three spans,
  with the thresholds of the default settings.
\<close>

definition sample_text :: ustr where
  "sample_text = [97, 98, 99, 100, 101, 102, 103, 104, 105, 106, 107, 108, 109, 110, 111, 112, 113, 114, 115, 116]"

definition sample_config :: merge_config where
  "sample_config = \<lparr>tier1_threshold = 1 / 2, tier2_threshold = 1 / 2, tier3_threshold = 1 / 2\<rparr>"

definition sample_detection :: "int \<Rightarrow> int \<Rightarrow> ustr \<Rightarrow> rat \<Rightarrow> detection" where
  "sample_detection s e det c =
     \<lparr>d_entity_type = Person, d_start = s, d_end = e, d_text = py_slice sample_text s e,
      d_confidence = c, d_tier = 2, d_detector = det, d_rule_id = None, d_metadata = []\<rparr>"

abbreviation sample_A :: detection where
  "sample_A \<equiv> sample_detection 0 10 (lit ''ner'') (3 / 4)"

abbreviation sample_B :: detection where
  "sample_B \<equiv> sample_detection 9 12 (lit ''ner'') (3 / 4)"

abbreviation sample_C :: detection where
  "sample_C \<equiv> sample_detection 11 19 (lit ''contextual'') (3 / 4)"

lemma sample_span: "0 \<le> a \<Longrightarrow> a < b \<Longrightarrow> b \<le> 20 \<Longrightarrow> span_matches sample_text (sample_detection a b det c)"
  by (simp add: span_matches_def sample_detection_def sample_text_def)

lemma sample_survivors:
  "survivors sample_config sample_text [] [sample_A, sample_B, sample_C] = [sample_A, sample_B, sample_C]"
  by (simp add: survivors_def sample_span exempt_def)
    (simp add: above_threshold_def threshold_def sample_config_def sample_detection_def)

lemma sample_keys:
  "winner_key sample_A \<le> winner_key sample_B" "winner_key sample_A \<le> winner_key sample_C"
  by (simp_all add: winner_key_def sample_detection_def less_eq_prod_def detector_precedence_def)

lemma merge_chain_drops_witness:
  "merge sample_config sample_text [sample_A, sample_B, sample_C] [] =
    Inr \<lparr>accepted = [sample_A], below_threshold = [], exception_suppressed = [], span_invalid = []\<rparr> \<and>
    \<not> overlaps sample_A sample_C"
  by (rule merge_chain_drops [OF sample_survivors _ _ _ _ sample_keys])
    (simp_all add: sample_detection_def)

definition sample_pair :: "detection list" where
  "sample_pair = [sample_detection 0 5 (lit ''ner'') (3 / 4), sample_detection 0 5 (lit ''contextual'') (3 / 4)]"

abbreviation sample_winner :: detection where
  "sample_winner \<equiv> sample_detection 0 5 (lit ''ner'') (boost (3 / 4))"

lemma sample_pair_survivors: "survivors sample_config sample_text [] sample_pair = sample_pair"
  by (simp add: survivors_def sample_pair_def sample_span exempt_def)
    (simp add: above_threshold_def threshold_def sample_config_def sample_detection_def)

lemma sample_pair_wf: "\<forall>d \<in> set sample_pair. wf_detection d"
  by (simp add: sample_pair_def wf_detection_def sample_detection_def)

lemma sample_boost: "boost (3 / 4) = 3602879701896397 / 4503599627370496"
  by (simp add: boost_def float_add_0_75 float_0_99)

lemma sample_pair_pick: "pick_cluster_winner sample_pair = Inr sample_winner"
proof -
  have "hd (sort_key winner_key sample_pair) = sample_detection 0 5 (lit ''ner'') (3 / 4)"
    unfolding sample_pair_def
    by (rule hd_sort_key_head)
      (simp add: winner_key_def sample_detection_def less_eq_prod_def detector_precedence_def)
  moreover have "length sample_pair \<noteq> 1"
    "list_ex (corroborates (sample_detection 0 5 (lit ''ner'') (3 / 4))) sample_pair"
    by (simp_all add: sample_pair_def corroborates_def sample_detection_def)
  moreover have "replace_confidence (sample_detection 0 5 (lit ''ner'') (3 / 4)) (boost (3 / 4)) =
      Inr sample_winner"
    unfolding replace_confidence_def sample_boost by (simp add: post_init_def sample_detection_def)
  moreover have "d_confidence (sample_detection 0 5 (lit ''ner'') (3 / 4)) = 3 / 4"
    by (simp add: sample_detection_def)
  ultimately show ?thesis
    unfolding pick_cluster_winner_def Let_def by (simp only: simp_thms if_True if_False sample_boost) simp
qed

lemma sample_pair_merge:
  "merge sample_config sample_text sample_pair [] = Inr \<lparr>accepted = [sample_winner],
     below_threshold = [], exception_suppressed = [], span_invalid = []\<rparr>"
proof -
  have "clusters sample_pair = [sample_pair]"
    by (simp add: clusters_def sample_pair_def span_key_def sort_key_def less_eq_prod_def
        sample_detection_def)
  then have "resolve_overlaps sample_pair = Inr [sample_winner]"
    by (simp add: resolve_overlaps_def sample_pair_pick)
  moreover have "\<forall>d \<in> set sample_pair. span_matches sample_text d \<and> \<not> exempt [] d \<and>
      above_threshold sample_config d"
    using sample_pair_survivors unfolding survivors_def by (simp only: filter_id_conv)
  ultimately show ?thesis
    using sample_pair_survivors by (simp add: merge_Inr)
qed

lemma merge_one_winner_per_component_witness:
  "\<exists>!i. i < length [sample_winner] \<and>
    (\<exists>w \<in> set (survivors sample_config sample_text [] sample_pair).
      same_span_entry w ([sample_winner] ! i) \<and>
      linked (set (survivors sample_config sample_text [] sample_pair))
        (sample_detection 0 5 (lit ''contextual'') (3 / 4)) w)"
  using merge_one_winner_per_component [OF sample_pair_merge,
      of "sample_detection 0 5 (lit ''contextual'') (3 / 4)"]
  by (simp only: sample_pair_survivors merge_result.simps) (simp add: sample_pair_def)

lemma merge_accepts_best_witness:
  "\<exists>w \<in> set sample_pair. same_span_entry w sample_winner \<and>
    (\<forall>y. linked (set sample_pair) w y \<longrightarrow> winner_key w \<le> winner_key y) \<and>
    (d_confidence sample_winner = d_confidence w \<or>
     d_confidence w < d_confidence sample_winner \<and> d_confidence sample_winner = boost (d_confidence w) \<and>
     (\<exists>y \<in> set sample_pair. corroborates w y))"
  using merge_accepts_best [OF sample_pair_merge, of sample_winner]
  by (simp only: sample_pair_survivors merge_result.simps list.set insert_iff simp_thms)

lemma merge_accounting_witness:
  "mset sample_pair = mset (concat (clusters sample_pair)) \<and> length (clusters sample_pair) = 1"
  using merge_accounting [OF sample_pair_merge] by (simp add: sample_pair_survivors)

lemma merge_total_and_disjoint_witness:
  "\<exists>r. merge sample_config sample_text sample_pair [] = Inr r \<and> disjoint_spans (accepted r) \<and>
    (\<forall>a \<in> set (accepted r). span_in sample_text a)"
  by (rule merge_total_and_disjoint [OF sample_pair_wf])

lemma merge_idempotent_witness:
  "merge sample_config sample_text [sample_winner] [] = Inr \<lparr>accepted = [sample_winner],
     below_threshold = [], exception_suppressed = [], span_invalid = []\<rparr>"
  using merge_idempotent [OF sample_pair_merge] by simp

end
