(* ===== verification/Regex.thy ===== *)
theory Regex
  imports PyText
begin

text \<open>
  The fragment of Python's \<open>re\<close> that the gateway's patterns use, with the semantics of a
  backtracking matcher: \<open>ends s r i\<close> lists the positions where a match of \<open>r\<close> that starts at
  position \<open>i\<close> of the subject \<open>s\<close> can end, in the order the matcher tries them, so the match
  \<open>re\<close> returns ends at the first of them. \<open>finditer\<close> scans from the left and continues behind
  a match. None of the patterns has an empty match or repeats an expression that has one.
\<close>

datatype regex =
    Chars "nat \<Rightarrow> bool"
  | Cat regex regex
  | Alt regex regex
  | Opt regex
  | Repeat nat "nat option" regex
  | NotBehind "nat \<Rightarrow> bool"
  | NotAhead "nat \<Rightarrow> bool"
  | Boundary "nat \<Rightarrow> bool"

text \<open>
  Greedy repetition between \<open>lo\<close> and \<open>hi\<close> times of a step \<open>f\<close> that lists end positions. An
  iteration that consumes nothing is not tried; each one that is moves on by at least one
  character, so the number of characters left bounds the iterations (\<open>fuel\<close>).
\<close>

fun repeat_ends :: "(nat \<Rightarrow> nat list) \<Rightarrow> nat \<Rightarrow> nat \<Rightarrow> nat option \<Rightarrow> nat \<Rightarrow> nat list" where
  "repeat_ends f 0 lo hi i = (if lo = 0 then [i] else [])"
| "repeat_ends f (Suc fuel) lo hi i =
     (if hi = Some 0 then []
      else concat (map (repeat_ends f fuel (lo - 1) (map_option (\<lambda>h. h - 1) hi))
                       (filter (\<lambda>j. i < j) (f i))))
     @ (if lo = 0 then [i] else [])"

definition char_at :: "(nat \<Rightarrow> bool) \<Rightarrow> ustr \<Rightarrow> nat \<Rightarrow> bool" where
  "char_at p s i = (i < length s \<and> p (s ! i))"

definition char_before :: "(nat \<Rightarrow> bool) \<Rightarrow> ustr \<Rightarrow> nat \<Rightarrow> bool" where
  "char_before p s i = (0 < i \<and> char_at p s (i - 1))"

fun ends :: "ustr \<Rightarrow> regex \<Rightarrow> nat \<Rightarrow> nat list" where
  "ends s (Chars p) i = (if char_at p s i then [Suc i] else [])"
| "ends s (Cat a b) i = concat (map (ends s b) (ends s a i))"
| "ends s (Alt a b) i = ends s a i @ ends s b i"
| "ends s (Opt a) i = ends s a i @ [i]"
| "ends s (Repeat lo hi a) i = repeat_ends (ends s a) (length s - i) lo hi i"
| "ends s (NotBehind p) i = (if char_before p s i then [] else [i])"
| "ends s (NotAhead p) i = (if char_at p s i then [] else [i])"
| "ends s (Boundary w) i = (if char_before w s i \<noteq> char_at w s i then [i] else [])"

definition match_at :: "ustr \<Rightarrow> regex \<Rightarrow> nat \<Rightarrow> nat option" where
  "match_at s r i = (case ends s r i of [] \<Rightarrow> None | j # _ \<Rightarrow> Some j)"

function finditer :: "ustr \<Rightarrow> regex \<Rightarrow> nat \<Rightarrow> (nat \<times> nat) list" where
  "finditer s r i =
     (if length s < i then []
      else case match_at s r i of
          None \<Rightarrow> finditer s r (Suc i)
        | Some j \<Rightarrow> (i, j) # finditer s r (if i < j then j else Suc i))"
  by pat_completeness auto
termination
  by (relation "measure (\<lambda>(s, r, i). Suc (length s) - i)") auto

declare finditer.simps [simp del]

definition find_all :: "ustr \<Rightarrow> regex \<Rightarrow> (nat \<times> nat) list" where
  "find_all s r = finditer s r 0"

text \<open>The text of a match.\<close>

definition group :: "ustr \<Rightarrow> nat \<times> nat \<Rightarrow> ustr" where
  "group s m = take (snd m - fst m) (drop (fst m) s)"

section \<open>Positions\<close>

lemma repeat_ends_range:
  assumes step: "\<And>k j. k \<le> n \<Longrightarrow> j \<in> set (f k) \<Longrightarrow> j \<le> n"
  shows "i \<le> n \<Longrightarrow> j \<in> set (repeat_ends f fuel lo hi i) \<Longrightarrow> i \<le> j \<and> j \<le> n"
proof (induction fuel arbitrary: lo hi i)
  case 0
  then show ?case by (simp split: if_splits)
next
  case (Suc fuel)
  show ?case
  proof (cases "j = i")
    case True
    with Suc.prems show ?thesis by simp
  next
    case False
    with Suc.prems(2) have "j \<in> set (concat (map (repeat_ends f fuel (lo - 1) (map_option (\<lambda>h. h - 1) hi))
        (filter (\<lambda>j. i < j) (f i))))"
      by (simp split: if_splits)
    then obtain k where k: "k \<in> set (f i)" "i < k"
      and j: "j \<in> set (repeat_ends f fuel (lo - 1) (map_option (\<lambda>h. h - 1) hi) k)"
      by auto
    from Suc.IH [OF step [OF Suc.prems(1) k(1)] j] k(2) show ?thesis by simp
  qed
qed

lemma ends_range: "i \<le> length s \<Longrightarrow> j \<in> set (ends s r i) \<Longrightarrow> i \<le> j \<and> j \<le> length s"
proof (induction r arbitrary: i j)
  case (Cat a b)
  from Cat.prems(2) obtain k where k: "k \<in> set (ends s a i)" "j \<in> set (ends s b k)" by auto
  from Cat.IH(1) [OF Cat.prems(1) k(1)] Cat.IH(2) [OF _ k(2)] show ?case by simp
next
  case (Repeat lo hi a)
  from Repeat.prems(2) have "j \<in> set (repeat_ends (ends s a) (length s - i) lo hi i)"
    by simp
  with Repeat.prems(1) Repeat.IH show ?case
    by (intro repeat_ends_range [of "length s" "ends s a" i]) blast+
next
  case (Opt a)
  show ?case
    using Opt.IH [OF Opt.prems(1), of j] Opt.prems by (cases "j = i") simp_all
next
  case (Alt a b)
  show ?case
    using Alt.IH(1) [OF Alt.prems(1), of j] Alt.IH(2) [OF Alt.prems(1), of j] Alt.prems(2)
    by (cases "j \<in> set (ends s a i)") simp_all
qed (auto simp: char_at_def split: if_splits)

lemma match_at_range: "i \<le> length s \<Longrightarrow> match_at s r i = Some j \<Longrightarrow> i \<le> j \<and> j \<le> length s"
  using ends_range [of i s j r] by (auto simp: match_at_def split: list.splits)

section \<open>What finditer returns\<close>

lemma finditer_sound:
  "(a, b) \<in> set (finditer s r i) \<Longrightarrow> i \<le> a \<and> a \<le> length s \<and> match_at s r a = Some b"
proof (induction s r i rule: finditer.induct)
  case (1 s r i)
  from "1.prems" have i: "i \<le> length s"
    by (subst (asm) finditer.simps) (auto split: if_splits)
  show ?case
  proof (cases "match_at s r i")
    case None
    with "1.prems" i have "(a, b) \<in> set (finditer s r (Suc i))"
      by (subst (asm) finditer.simps) simp
    with "1.IH"(1) i None show ?thesis by fastforce
  next
    case (Some j)
    with "1.prems" i have "(a, b) = (i, j) \<or> (a, b) \<in> set (finditer s r (if i < j then j else Suc i))"
      by (subst (asm) finditer.simps) simp
    then show ?thesis
    proof
      assume "(a, b) = (i, j)"
      with i Some show ?thesis by simp
    next
      assume "(a, b) \<in> set (finditer s r (if i < j then j else Suc i))"
      with "1.IH"(2) i Some show ?thesis by (fastforce split: if_splits)
    qed
  qed
qed

lemma finditer_span:
  assumes "(a, b) \<in> set (finditer s r i)"
  shows "a \<le> b \<and> b \<le> length s"
  using finditer_sound [OF assms] match_at_range by blast

text \<open>
  A match is reported when no match from further left reaches into it.
\<close>

lemma finditer_complete:
  assumes "i \<le> a" "a \<le> length s" "match_at s r a = Some b"
    and "\<And>a' b'. i \<le> a' \<Longrightarrow> a' < a \<Longrightarrow> match_at s r a' = Some b' \<Longrightarrow> b' \<le> a"
  shows "(a, b) \<in> set (finditer s r i)"
  using assms
proof (induction s r i rule: finditer.induct)
  case (1 s r i)
  have i: "\<not> length s < i" using "1.prems"(1,2) by simp
  show ?case
  proof (cases "match_at s r i")
    case None
    with "1.prems"(1,3) have "Suc i \<le> a" by (cases "i = a") auto
    then have "(a, b) \<in> set (finditer s r (Suc i))"
      by (rule "1.IH"(1) [OF i None _ "1.prems"(2,3)]) (rule "1.prems"(4), simp_all)
    with i None show ?thesis by (subst finditer.simps) simp
  next
    case (Some j)
    show ?thesis
    proof (cases "i = a")
      case True
      with i Some "1.prems"(3) show ?thesis by (subst finditer.simps) simp
    next
      case False
      with "1.prems"(1) have "i < a" by simp
      with "1.prems"(4) [OF order_refl _ Some] have "(if i < j then j else Suc i) \<le> a" by simp
      moreover have "i \<le> (if i < j then j else Suc i)" by simp
      ultimately have "(a, b) \<in> set (finditer s r (if i < j then j else Suc i))"
        using "1.prems" by (intro "1.IH"(2) [OF i Some]) (auto intro: "1.prems"(4) order_trans)
      with i Some show ?thesis by (subst finditer.simps) simp
    qed
  qed
qed

text \<open>Matches come in order and do not overlap.\<close>

lemma finditer_sorted: "sorted_wrt (\<lambda>m m'. snd m \<le> fst m') (finditer s r i)"
proof (induction s r i rule: finditer.induct)
  case (1 s r i)
  show ?case
  proof (cases "length s < i")
    case True
    then show ?thesis by (subst finditer.simps) simp
  next
    case i: False
    show ?thesis
    proof (cases "match_at s r i")
      case None
      with 1 i show ?thesis by (subst finditer.simps) simp
    next
      case (Some j)
      have "j \<le> fst m" if "m \<in> set (finditer s r (if i < j then j else Suc i))" for m
        using finditer_sound [of "fst m" "snd m"] that
        by (cases "i < j") (fastforce simp: not_less)+
      with 1 i Some show ?thesis by (subst finditer.simps) auto
    qed
  qed
qed

text \<open>The fuel of a repetition is enough: with more of it the result is the same.\<close>

lemma repeat_ends_fuel:
  assumes step: "\<And>k j. k \<le> n \<Longrightarrow> j \<in> set (f k) \<Longrightarrow> j \<le> n"
  shows "i \<le> n \<Longrightarrow> n - i \<le> k \<Longrightarrow> n - i \<le> m \<Longrightarrow>
    repeat_ends f k lo hi i = repeat_ends f m lo hi i"
proof (induction k arbitrary: m lo hi i)
  case 0
  then have "i = n" by simp
  then have "filter (\<lambda>j. i < j) (f i) = []"
    using step [of n] by (fastforce simp: filter_empty_conv)
  then show ?case by (cases m) auto
next
  case (Suc k)
  have same: "repeat_ends f k l h j = repeat_ends f (m - 1) l h j"
    if "j \<in> set (filter (\<lambda>j. i < j) (f i))" for l h j
    using that step [of i j] Suc.prems by (intro Suc.IH) auto
  show ?case
  proof (cases m)
    case 0
    with Suc.prems have "i = n" by simp
    then have "filter (\<lambda>j. i < j) (f i) = []"
      using step [of n] by (fastforce simp: filter_empty_conv)
    with 0 show ?thesis by simp
  next
    case (Suc m')
    have "map (repeat_ends f k l h) (filter (\<lambda>j. i < j) (f i))
        = map (repeat_ends f m' l h) (filter (\<lambda>j. i < j) (f i))" for l h
      using same Suc by (intro map_cong) simp_all
    with Suc show ?thesis by (simp only: repeat_ends.simps)
  qed
qed

text \<open>A run of exactly \<open>n\<close> characters of a class: the expression \<open>\\d{n}\<close>.\<close>

lemma repeat_ends_exact:
  "repeat_ends (ends s (Chars p)) fuel n (Some n) i =
     (if n \<le> fuel \<and> (\<forall>k < n. char_at p s (i + k)) then [i + n] else [])"
proof (induction fuel arbitrary: n i)
  case 0
  then show ?case by auto
next
  case (Suc fuel)
  show ?case
  proof (cases n)
    case 0
    then show ?thesis by simp
  next
    case (Suc m)
    have split: "(\<forall>k < Suc m. char_at p s (i + k)) \<longleftrightarrow>
        char_at p s i \<and> (\<forall>k < m. char_at p s (Suc i + k))"
      by (simp add: All_less_Suc2)
    have e: "ends s (Chars p) i = (if char_at p s i then [Suc i] else [])"
      by simp
    show ?thesis
      using Suc.IH [of m "Suc i"] by (auto simp: Suc split e simp del: ends.simps(1))
  qed
qed

lemma ends_run:
  "ends s (Repeat n (Some n) (Chars p)) i =
     (if (\<forall>k < n. char_at p s (i + k)) then [i + n] else [])"
proof -
  have "n \<le> length s - i" if all: "\<forall>k < n. char_at p s (i + k)"
  proof (cases n)
    case (Suc m)
    with all have "i + m < length s" by (simp add: char_at_def)
    with Suc show ?thesis by simp
  qed simp
  then show ?thesis by (auto simp: repeat_ends_exact)
qed

end
