(* ===== verification/Algeria.thy ===== *)
theory Algeria
  imports Detection Regex
begin

text \<open>
  \<open>src/detectors/countries/algeria.py\<close> and \<open>src/detectors/structural.py\<close>: the Algerian
  structural validators (NIN, NIF, RIB with its mod-97 key, phone) and Detector A, which runs
  the validators of the customer's country. \<open>phonenumbers\<close> is a third-party library: its
  matcher is the parameter \<open>pm\<close>, with \<open>phone_matcher_ok\<close> the part of its documentation the
  code relies on (a match quotes the text between its offsets).
\<close>

section \<open>The validators\<close>

definition dz_detector_name :: ustr where
  "dz_detector_name = lit ''structural.dz''"

text \<open>\<open>(?<!\\d)(\\d{n})(?!\\d)\<close>.\<close>

definition digit_run_rx :: "nat \<Rightarrow> regex" where
  "digit_run_rx n =
     Cat (NotBehind is_decimal) (Cat (Repeat n (Some n) (Chars is_decimal)) (NotAhead is_decimal))"

definition nin_rx :: regex where "nin_rx = digit_run_rx 18"
definition nif_rx :: regex where "nif_rx = digit_run_rx 15"
definition rib_rx :: regex where "rib_rx = digit_run_rx 20"

definition make_dz_detection ::
    "entity_type \<Rightarrow> int \<Rightarrow> int \<Rightarrow> ustr \<Rightarrow> rat \<Rightarrow> ustr \<Rightarrow> detection res" where
  "make_dz_detection et s e t c rid = mk_detection et s e t c 1 dz_detector_name (Some rid)"

definition detect_nin :: "ustr \<Rightarrow> detection list res" where
  "detect_nin text =
     mapE (\<lambda>m. make_dz_detection National_id (int (fst m)) (int (snd m)) (group text m)
                 (float_lit 85 100) (lit ''dz.nin''))
       (find_all text nin_rx)"

definition detect_nif :: "ustr \<Rightarrow> detection list res" where
  "detect_nif text =
     mapE (\<lambda>m. make_dz_detection Tax_id (int (fst m)) (int (snd m)) (group text m)
                 (float_lit 85 100) (lit ''dz.nif''))
       (find_all text nif_rx)"

definition rib_key_valid :: "ustr \<Rightarrow> bool res" where
  "rib_key_valid rib =
     (if length rib \<noteq> 20 \<or> \<not> py_isdigit rib then Inr False
      else let body = py_slice rib 0 18; key = slice_from rib 18
           in bindE (py_int (body @ lit ''00'')) (\<lambda>n.
                let expected = 97 - n mod 97
                in Inr (show_02d (nat expected) = key)))"

fun detect_rib_loop :: "ustr \<Rightarrow> (nat \<times> nat) list \<Rightarrow> detection list res" where
  "detect_rib_loop text [] = Inr []"
| "detect_rib_loop text (m # ms) =
     bindE (rib_key_valid (group text m)) (\<lambda>ok.
       if \<not> ok then detect_rib_loop text ms
       else bindE (make_dz_detection Bank_account (int (fst m)) (int (snd m)) (group text m)
                     (float_lit 99 100) (lit ''dz.rib'')) (\<lambda>d.
            bindE (detect_rib_loop text ms) (\<lambda>ds. Inr (d # ds))))"

definition detect_rib :: "ustr \<Rightarrow> detection list res" where
  "detect_rib text = detect_rib_loop text (find_all text rib_rx)"

text \<open>A match of the library: its offsets, its raw text, and what \<open>is_valid_number\<close> says of it.\<close>

record phone_match =
  pm_start :: int
  pm_end :: int
  pm_raw_string :: ustr
  pm_valid :: bool

type_synonym phone_matcher = "ustr \<Rightarrow> ustr \<Rightarrow> phone_match list"

fun detect_phone_loop :: "phone_match list \<Rightarrow> detection list res" where
  "detect_phone_loop [] = Inr []"
| "detect_phone_loop (m # ms) =
     (if \<not> pm_valid m then detect_phone_loop ms
      else bindE (make_dz_detection Phone (pm_start m) (pm_end m) (pm_raw_string m)
                    (float_lit 99 100) (lit ''dz.phone'')) (\<lambda>d.
           bindE (detect_phone_loop ms) (\<lambda>ds. Inr (d # ds))))"

definition detect_phone :: "phone_matcher \<Rightarrow> ustr \<Rightarrow> detection list res" where
  "detect_phone pm text = detect_phone_loop (pm text (lit ''DZ''))"

definition algeria_validators :: "phone_matcher \<Rightarrow> (ustr \<Rightarrow> detection list res) list" where
  "algeria_validators pm = [detect_nin, detect_nif, detect_rib, detect_phone pm]"

text \<open>\<open>for validator in ...: results.extend(validator(text))\<close>.\<close>

fun run_validators :: "(ustr \<Rightarrow> detection list res) list \<Rightarrow> ustr \<Rightarrow> detection list res" where
  "run_validators [] text = Inr []"
| "run_validators (v # vs) text =
     bindE (v text) (\<lambda>ds. bindE (run_validators vs text) (\<lambda>rest. Inr (ds @ rest)))"

definition run_all :: "phone_matcher \<Rightarrow> ustr \<Rightarrow> detection list res" where
  "run_all pm text = run_validators (algeria_validators pm) text"

section \<open>Detector A\<close>

definition country_packs :: "phone_matcher \<Rightarrow> (ustr, (ustr \<Rightarrow> detection list res) list) dict" where
  "country_packs pm = [(lit ''DZ'', algeria_validators pm)]"

definition structural_detect :: "phone_matcher \<Rightarrow> scope \<Rightarrow> ustr \<Rightarrow> detection list res" where
  "structural_detect pm cur text =
     bindE (require_customer cur) (\<lambda>ctx.
       let validators = (case map_of (country_packs pm) (cc_country_code ctx) of
                           None \<Rightarrow> [] | Some vs \<Rightarrow> vs)
       in run_validators validators text)"

definition phone_matcher_ok :: "phone_matcher \<Rightarrow> bool" where
  "phone_matcher_ok pm =
     (\<forall>text region. \<forall>m \<in> set (pm text region).
        0 \<le> pm_start m \<and> pm_start m < pm_end m \<and> pm_end m \<le> int (length text) \<and>
        pm_raw_string m = py_slice text (pm_start m) (pm_end m))"

section \<open>The digit-run pattern\<close>

text \<open>A maximal run of exactly \<open>n\<close> decimal digits.\<close>

definition isolated_run :: "ustr \<Rightarrow> nat \<Rightarrow> nat \<Rightarrow> bool" where
  "isolated_run s n a =
     (a + n \<le> length s \<and> (\<forall>k < n. is_decimal (s ! (a + k))) \<and>
      (a = 0 \<or> \<not> is_decimal (s ! (a - 1))) \<and>
      (a + n = length s \<or> \<not> is_decimal (s ! (a + n))))"

lemma run_in_bounds:
  assumes "0 < n" and "\<forall>k < n. char_at p s (a + k)"
  shows "a + n \<le> length s"
proof -
  have "n - 1 < n" using assms(1) by simp
  with assms(2) have "char_at p s (a + (n - 1))" by blast
  with assms(1) show ?thesis by (auto simp: char_at_def)
qed

lemma match_digit_run:
  assumes "0 < n"
  shows "match_at s (digit_run_rx n) a = Some b \<longleftrightarrow> b = a + n \<and> isolated_run s n a"
proof (cases "\<forall>k < n. char_at is_decimal s (a + k)")
  case True
  note bound = run_in_bounds [OF assms True]
  have "match_at s (digit_run_rx n) a =
      (if char_before is_decimal s a \<or> char_at is_decimal s (a + n) then None else Some (a + n))"
    using True by (simp add: match_at_def digit_run_rx_def ends_run del: ends.simps(5))
  moreover have "isolated_run s n a \<longleftrightarrow> \<not> char_before is_decimal s a \<and> \<not> char_at is_decimal s (a + n)"
    using True bound assms by (auto simp: isolated_run_def char_before_def char_at_def)
  ultimately show ?thesis by auto
next
  case False
  then have "match_at s (digit_run_rx n) a = None"
    by (auto simp: match_at_def digit_run_rx_def ends_run simp del: ends.simps(5))
  moreover have "\<not> isolated_run s n a"
    using False by (auto simp: isolated_run_def char_at_def)
  ultimately show ?thesis by simp
qed

text \<open>Two isolated runs do not overlap.\<close>

lemma isolated_runs_apart:
  assumes "isolated_run s n a'" "isolated_run s n a" "a' < a" "0 < n"
  shows "a' + n \<le> a"
proof (rule ccontr)
  assume "\<not> a' + n \<le> a"
  then have "a - 1 - a' < n" and "a' + (a - 1 - a') = a - 1" using assms(3) by auto
  then have "is_decimal (s ! (a - 1))"
    using assms(1) unfolding isolated_run_def by metis
  with assms(2,3) show False by (simp add: isolated_run_def)
qed

lemma find_digit_runs:
  assumes "0 < n"
  shows "(a, b) \<in> set (find_all s (digit_run_rx n)) \<longleftrightarrow> b = a + n \<and> isolated_run s n a"
proof
  assume "(a, b) \<in> set (find_all s (digit_run_rx n))"
  then show "b = a + n \<and> isolated_run s n a"
    using finditer_sound match_digit_run [OF assms] by (fastforce simp: find_all_def)
next
  assume r: "b = a + n \<and> isolated_run s n a"
  then have "a \<le> length s" by (simp add: isolated_run_def)
  then show "(a, b) \<in> set (find_all s (digit_run_rx n))"
    unfolding find_all_def
  proof (rule finditer_complete [OF le0])
    show "match_at s (digit_run_rx n) a = Some b"
      using r match_digit_run [OF assms] by simp
    fix a' b' assume "a' < a" and "match_at s (digit_run_rx n) a' = Some b'"
    then have "b' = a' + n" "isolated_run s n a'"
      by (simp_all add: match_digit_run [OF assms])
    with isolated_runs_apart [OF this(2) _ \<open>a' < a\<close> assms] r show "b' \<le> a" by simp
  qed
qed

lemma group_slice: "a \<le> b \<Longrightarrow> b \<le> length s \<Longrightarrow> group s (a, b) = py_slice s (int a) (int b)"
  by (simp add: group_def py_slice_in_bounds)

section \<open>NIN and NIF detections\<close>

definition run_detection :: "entity_type \<Rightarrow> rat \<Rightarrow> ustr \<Rightarrow> ustr \<Rightarrow> nat \<times> nat \<Rightarrow> detection" where
  "run_detection et c rid text m =
     \<lparr>d_entity_type = et, d_start = int (fst m), d_end = int (snd m), d_text = group text m,
      d_confidence = c, d_tier = 1, d_detector = dz_detector_name, d_rule_id = Some rid,
      d_metadata = []\<rparr>"

lemma make_dz_detection_run:
  "0 \<le> c \<Longrightarrow> c \<le> 1 \<Longrightarrow> fst m < snd m \<Longrightarrow>
     make_dz_detection et (int (fst m)) (int (snd m)) (group text m) c rid
       = Inr (run_detection et c rid text m)"
  by (simp add: make_dz_detection_def mk_detection_def post_init_def run_detection_def)

lemma find_digit_runs_pair:
  assumes "0 < n" and "m \<in> set (find_all text (digit_run_rx n))"
  shows "snd m = fst m + n" "isolated_run text n (fst m)"
  using find_digit_runs [OF assms(1), of "fst m" "snd m" "text"] assms(2) by auto

lemma detect_runs:
  assumes "0 < n" "0 \<le> c" "c \<le> 1"
  shows "mapE (\<lambda>m. make_dz_detection et (int (fst m)) (int (snd m)) (group text m) c rid)
           (find_all text (digit_run_rx n))
         = Inr (map (run_detection et c rid text) (find_all text (digit_run_rx n)))"
proof (rule mapE_total)
  fix m assume "m \<in> set (find_all text (digit_run_rx n))"
  from find_digit_runs_pair(1) [OF assms(1) this] assms
  show "make_dz_detection et (int (fst m)) (int (snd m)) (group text m) c rid
      = Inr (run_detection et c rid text m)"
    by (intro make_dz_detection_run) simp_all
qed

lemma run_detection_span:
  assumes "0 < n" and "m \<in> set (find_all text (digit_run_rx n))"
  shows "span_in text (run_detection et c rid text m)"
  using find_digit_runs_pair [OF assms] assms(1) group_slice [of "fst m" "snd m" "text"]
  by (cases m) (simp add: span_in_def run_detection_def isolated_run_def)

lemma run_starts:
  assumes "0 < n"
  shows "d_start ` set (map (run_detection et c rid text) (find_all text (digit_run_rx n)))
         = int ` {a. isolated_run text n a}"
proof -
  have "fst ` set (find_all text (digit_run_rx n)) = {a. isolated_run text n a}"
    using find_digit_runs [OF assms, of _ _ "text"] by force
  then show ?thesis
    by (simp add: image_image run_detection_def flip: image_image [of int fst])
qed

lemma run_order:
  "sorted_wrt (\<lambda>d d'. d_end d \<le> d_start d')
     (map (run_detection et c rid text) (find_all text (digit_run_rx n)))"
  using finditer_sorted [of "text" "digit_run_rx n" 0]
  by (simp add: sorted_wrt_map find_all_def run_detection_def)

lemmas run_facts = detect_runs run_detection_span run_starts run_order

lemma conf_085 [simp]: "0 \<le> float_lit 85 100" "float_lit 85 100 \<le> 1"
  by (simp_all add: float_0_85)

lemma conf_099 [simp]: "0 \<le> float_lit 99 100" "float_lit 99 100 \<le> 1"
  by (simp_all add: float_0_99)

lemma detect_nin_eq:
  "detect_nin text = Inr (map (run_detection National_id (float_lit 85 100) (lit ''dz.nin'') text)
     (find_all text (digit_run_rx 18)))"
  by (simp add: detect_nin_def nin_rx_def detect_runs del: list.map)

lemma detect_nif_eq:
  "detect_nif text = Inr (map (run_detection Tax_id (float_lit 85 100) (lit ''dz.nif'') text)
     (find_all text (digit_run_rx 15)))"
  by (simp add: detect_nif_def nif_rx_def detect_runs del: list.map)

section \<open>The RIB key\<close>

lemma rib_key_valid_decimal:
  assumes len: "length rib = 20" and dec: "\<forall>c \<in> set rib. is_decimal c"
  shows "rib_key_valid rib =
    Inr (show_02d (97 - digits_val 0 (take 18 rib) * 100 mod 97) = drop 18 rib)"
proof -
  let ?v = "digits_val 0 (take 18 rib)"
  have isd: "py_isdigit rib"
    using len dec by (auto simp: py_isdigit_def is_digit_char_def)
  have body: "py_slice rib 0 18 = take 18 rib" and key: "slice_from rib 18 = drop 18 rib"
    using len by (simp_all add: py_slice_in_bounds slice_from_in_bounds)
  have zeros: "digits_val 0 (lit ''00'') = 0" "\<forall>c \<in> set (lit ''00''). is_decimal c"
    using ascii_digit [of 0] by simp_all
  have "digits_val 0 (take 18 rib @ lit ''00'') = ?v * 100"
    using zeros(1) by (simp add: digits_val_app del: list.map)
  moreover have "py_int (take 18 rib @ lit ''00'') = Inr (int (digits_val 0 (take 18 rib @ lit ''00'')))"
    using dec zeros(2) len by (intro py_int_decimal) (auto dest: in_set_takeD)
  moreover have "nat (97 - int (?v * 100) mod 97) = 97 - ?v * 100 mod 97"
    by (simp add: nat_diff_distrib nat_mod_distrib nat_mult_distrib)
  ultimately show ?thesis
    using len isd by (simp add: rib_key_valid_def body key Let_def del: list.map)
qed

lemma two_digits:
  assumes "length k = 2" and "\<forall>c \<in> set k. 48 \<le> c \<and> c < 58"
  shows "digits_val 0 k < 100" "show_02d (digits_val 0 k) = k"
proof -
  from assms(1) obtain x y where k: "k = [x, y]"
    by (auto simp: numeral_2_eq_2 length_Suc_conv)
  with assms(2) obtain a b where ab: "x = 48 + a" "y = 48 + b" "a < 10" "b < 10"
    by (auto simp: le_iff_add)
  then have v: "digits_val 0 k = 10 * a + b"
    by (simp add: k digit_of_ascii)
  with ab show "digits_val 0 k < 100" "show_02d (digits_val 0 k) = k"
    by (simp_all add: show_02d_two k)
qed

lemma rib_decimal_ascii:
  "\<forall>c \<in> set rib. 48 \<le> c \<and> c < 58 \<Longrightarrow> \<forall>c \<in> set rib. is_decimal c"
  by (simp add: is_decimal_ascii)

lemma rib_key_check:
  fixes v k :: nat
  shows "97 - v mod 97 = k \<longleftrightarrow> 97 dvd (v + k) \<and> 1 \<le> k \<and> k \<le> 97"
proof -
  define r where "r = v mod 97"
  have r: "r < 97" by (simp add: r_def)
  have "97 dvd (v + k) \<longleftrightarrow> 97 dvd (r + k)"
    by (simp add: r_def dvd_eq_mod_eq_0 mod_simps)
  moreover have "97 dvd (r + k) \<longleftrightarrow> r + k = 97" if "1 \<le> k" "k \<le> 97"
  proof
    assume "97 dvd (r + k)"
    then obtain c where c: "r + k = 97 * c" by (elim dvdE)
    with that r have "97 * c < 97 * 2" "0 < 97 * c" by linarith+
    then have "c = 1" by simp
    with c show "r + k = 97" by simp
  qed simp
  ultimately show ?thesis
    using r unfolding r_def [symmetric] by auto
qed

text \<open>A change of one digit, or of two neighbours, changes the value by a multiple of a power of ten.\<close>

lemma digits_val_update:
  assumes "i < length s"
  shows "int (digits_val 0 (s[i := c]))
    = int (digits_val 0 s) + (int (digit_of c) - int (digit_of (s ! i))) * 10 ^ (length s - Suc i)"
proof -
  have "s = take i s @ s ! i # drop (Suc i) s" and "s[i := c] = take i s @ c # drop (Suc i) s"
    using assms by (simp_all add: id_take_nth_drop upd_conv_take_nth_drop)
  then have "digits_val 0 s = digits_val 0 (take i s @ s ! i # drop (Suc i) s)"
    and "digits_val 0 (s[i := c]) = digits_val 0 (take i s @ c # drop (Suc i) s)" by simp_all
  then show ?thesis
    by (simp add: digits_val_app digits_val_Cons algebra_simps del: digits_val.simps)
qed

lemma not_dvd_97:
  fixes d :: int
  assumes "97 dvd d * 10 ^ k" and "\<bar>d\<bar> < 97"
  shows "d = 0"
proof -
  have "coprime (97 :: int) 10"
  proof (rule coprimeI)
    fix e :: int assume "e dvd 97" and "e dvd 10"
    then have "e dvd 97 * 3 - 10 * 29" by (intro dvd_diff dvd_mult2)
    then show "is_unit e" by simp
  qed
  then have "coprime (97 :: int) (10 ^ k)" by simp
  with assms(1) have "97 dvd d" by (simp add: coprime_dvd_mult_left_iff)
  with assms(2) show ?thesis using zdvd_imp_le by fastforce
qed

text \<open>What acceptance means for a RIB written in ASCII digits.\<close>

lemma rib_accept_ascii:
  assumes "length rib = 20" and "\<forall>c \<in> set rib. 48 \<le> c \<and> c < 58"
  shows "rib_key_valid rib = Inr (97 dvd digits_val 0 rib \<and>
           1 \<le> digits_val 0 (drop 18 rib) \<and> digits_val 0 (drop 18 rib) \<le> 97)"
proof -
  let ?k = "digits_val 0 (drop 18 rib)" and ?v = "digits_val 0 (take 18 rib)"
  have len: "length (drop 18 rib) = 2" and asc: "\<forall>c \<in> set (drop 18 rib). 48 \<le> c \<and> c < 58"
    using assms by (auto dest: in_set_dropD)
  note k = two_digits [OF len asc]
  have "show_02d (97 - ?v * 100 mod 97) = drop 18 rib \<longleftrightarrow> 97 - ?v * 100 mod 97 = ?k"
    using k show_02d_inj [of "97 - ?v * 100 mod 97" ?k] by force
  also have "\<dots> \<longleftrightarrow> 97 dvd (?v * 100 + ?k) \<and> 1 \<le> ?k \<and> ?k \<le> 97"
    by (rule rib_key_check)
  also have "?v * 100 + ?k = digits_val 0 rib"
    using digits_val_app [of "take 18 rib" "drop 18 rib"] len by simp
  finally show ?thesis
    using rib_key_valid_decimal [OF assms(1) rib_decimal_ascii [OF assms(2)]] by simp
qed

section \<open>RIB and phone detections\<close>

lemma rib_key_valid_total:
  assumes "isolated_run text 20 (fst m)" and "snd m = fst m + 20"
  shows "\<exists>ok. rib_key_valid (group text m) = Inr ok"
proof -
  have g: "group text m = take 20 (drop (fst m) text)" using assms(2) by (simp add: group_def)
  have "\<forall>c \<in> set (group text m). is_decimal c"
    using assms(1) by (auto simp: g in_set_conv_nth isolated_run_def)
  moreover have "length (group text m) = 20"
    using assms(1) by (auto simp: g isolated_run_def min_def)
  ultimately show ?thesis using rib_key_valid_decimal by blast
qed

lemma detect_rib_loop_eq:
  assumes "\<forall>m \<in> set ms. isolated_run text 20 (fst m) \<and> snd m = fst m + 20"
  shows "detect_rib_loop text ms =
    Inr (map (run_detection Bank_account (float_lit 99 100) (lit ''dz.rib'') text)
      (filter (\<lambda>m. rib_key_valid (group text m) = Inr True) ms))"
  using assms
proof (induction ms)
  case Nil
  then show ?case by simp
next
  case (Cons m ms)
  then obtain ok where ok: "rib_key_valid (group text m) = Inr ok"
    using rib_key_valid_total [of "text" m] by auto
  have "make_dz_detection Bank_account (int (fst m)) (int (snd m)) (group text m)
      (float_lit 99 100) (lit ''dz.rib'')
    = Inr (run_detection Bank_account (float_lit 99 100) (lit ''dz.rib'') text m)"
    using Cons.prems by (intro make_dz_detection_run) simp_all
  with Cons ok show ?case by (simp del: list.map(2) split_paired_All) (simp add: ok)
qed

lemma detect_rib_eq:
  "detect_rib text = Inr (map (run_detection Bank_account (float_lit 99 100) (lit ''dz.rib'') text)
     (filter (\<lambda>m. rib_key_valid (group text m) = Inr True) (find_all text (digit_run_rx 20))))"
  unfolding detect_rib_def rib_rx_def
  by (rule detect_rib_loop_eq) (simp add: find_digit_runs_pair)

lemma detect_phone_loop_eq:
  assumes "\<forall>m \<in> set ms. 0 \<le> pm_start m \<and> pm_start m < pm_end m"
  shows "\<exists>ds. detect_phone_loop ms = Inr ds \<and>
    (\<forall>d \<in> set ds. d_tier d = 1 \<and> d_detector d = dz_detector_name \<and> wf_detection d \<and>
       (\<exists>m \<in> set ms. pm_valid m \<and> d_start d = pm_start m \<and> d_end d = pm_end m \<and>
          d_text d = pm_raw_string m \<and> d_entity_type d = Phone))"
  using assms
proof (induction ms)
  case Nil
  then show ?case by simp
next
  case (Cons m ms)
  then obtain ds where ds: "detect_phone_loop ms = Inr ds" by auto
  with Cons show ?case
    by (auto simp: make_dz_detection_def mk_detection_def post_init_def wf_detection_def)
qed

lemma run_validators_total:
  assumes "\<And>v. v \<in> set vs \<Longrightarrow> \<exists>ds. v text = Inr ds \<and> (\<forall>d \<in> set ds. P d)"
  shows "\<exists>ds. run_validators vs text = Inr ds \<and> (\<forall>d \<in> set ds. P d)"
  using assms
proof (induction vs)
  case Nil
  then show ?case by simp
next
  case (Cons v vs)
  from Cons.prems [of v] obtain a where "v text = Inr a" "\<forall>d \<in> set a. P d" by auto
  moreover from Cons.IH Cons.prems obtain b
    where "run_validators vs text = Inr b" "\<forall>d \<in> set b. P d" by auto
  ultimately show ?case by auto
qed

lemma run_detection_facts [simp]:
  "d_tier (run_detection et c rid text m) = 1"
  "d_detector (run_detection et c rid text m) = dz_detector_name"
  "d_confidence (run_detection et c rid text m) = c"
  by (simp_all add: run_detection_def)

lemma span_wf: "span_in text d \<Longrightarrow> 0 \<le> d_confidence d \<Longrightarrow> d_confidence d \<le> 1 \<Longrightarrow> wf_detection d"
  by (simp add: span_in_def wf_detection_def)

definition structural_ok :: "ustr \<Rightarrow> detection \<Rightarrow> bool" where
  "structural_ok text d =
     (span_in text d \<and> wf_detection d \<and> d_tier d = 1 \<and> d_detector d = dz_detector_name)"

lemma run_structural_ok:
  assumes "0 < n" "0 \<le> c" "c \<le> 1" "m \<in> set (find_all text (digit_run_rx n))"
  shows "structural_ok text (run_detection et c rid text m)"
proof -
  have "span_in text (run_detection et c rid text m)"
    by (rule run_detection_span [OF assms(1,4)])
  with assms(2,3) show ?thesis by (simp add: structural_ok_def span_wf)
qed

lemma detect_digits_ok:
  "\<exists>ds. detect_nin text = Inr ds \<and> (\<forall>d \<in> set ds. structural_ok text d)"
  "\<exists>ds. detect_nif text = Inr ds \<and> (\<forall>d \<in> set ds. structural_ok text d)"
  "\<exists>ds. detect_rib text = Inr ds \<and> (\<forall>d \<in> set ds. structural_ok text d)"
  unfolding detect_nin_eq detect_nif_eq detect_rib_eq
  using run_structural_ok [of 18 _ _ "text"] run_structural_ok [of 15 _ _ "text"]
    run_structural_ok [of 20 _ _ "text"]
  by (simp_all del: list.map)

lemma detect_phone_ok:
  assumes "phone_matcher_ok pm"
  shows "\<exists>ds. detect_phone pm text = Inr ds \<and> (\<forall>d \<in> set ds. structural_ok text d)"
proof -
  let ?ms = "pm text (lit ''DZ'')"
  have ms: "\<forall>m \<in> set ?ms. 0 \<le> pm_start m \<and> pm_start m < pm_end m \<and> pm_end m \<le> int (length text) \<and>
      pm_raw_string m = py_slice text (pm_start m) (pm_end m)"
    using assms unfolding phone_matcher_ok_def by blast
  then have "\<forall>m \<in> set ?ms. 0 \<le> pm_start m \<and> pm_start m < pm_end m" by blast
  from detect_phone_loop_eq [OF this] ms show ?thesis
    unfolding detect_phone_def structural_ok_def span_in_def by (metis (no_types, lifting))
qed

lemma algeria_total:
  assumes "phone_matcher_ok pm"
  shows "\<exists>ds. run_all pm text = Inr ds \<and> (\<forall>d \<in> set ds. structural_ok text d)"
  unfolding run_all_def
proof (rule run_validators_total)
  fix v assume "v \<in> set (algeria_validators pm)"
  then consider "v = detect_nin" | "v = detect_nif" | "v = detect_rib" | "v = detect_phone pm"
    by (auto simp: algeria_validators_def)
  then show "\<exists>ds. v text = Inr ds \<and> (\<forall>d \<in> set ds. structural_ok text d)"
    using assms by cases (simp_all add: detect_digits_ok detect_phone_ok)
qed

lemma structural_detect_cases:
  "structural_detect pm (Some ctx) text =
     (if cc_country_code ctx = lit ''DZ'' then run_all pm text else Inr [])"
  by (auto simp: structural_detect_def country_packs_def run_all_def simp del: list.map)

text \<open>Detector A implements the detector interface, for every matcher that keeps its contract.\<close>

lemma structural_scoped_detector:
  assumes "phone_matcher_ok pm"
  shows "scoped_detector (structural_detect pm)"
proof
  fix cur s ds d
  assume "structural_detect pm cur s = Inr ds" and "d \<in> set ds"
  then obtain ctx where "cur = Some ctx" and "structural_ok s d"
    using algeria_total [OF assms, of s]
    by (cases cur) (auto simp: structural_detect_cases split: if_splits, simp add: structural_detect_def)
  then show "wf_detection d" "span_in s d" by (simp_all add: structural_ok_def)
next
  fix s show "structural_detect pm None s = Inl MissingTenantScopeError"
    by (simp add: structural_detect_def)
qed

text \<open>The validators by themselves are detectors that need no scope.\<close>

lemma unscoped_detector:
  assumes "\<And>s. \<exists>ds. detect s = Inr ds \<and> (\<forall>d \<in> set ds. structural_ok s d)"
  shows "span_detector (\<lambda>_. detect)"
proof
  fix cur :: scope and s ds d
  assume "detect s = Inr ds" and "d \<in> set ds"
  with assms [of s] show "wf_detection d" "span_in s d" by (auto simp: structural_ok_def)
qed

interpretation nin: span_detector "\<lambda>_. detect_nin"
  by (rule unscoped_detector) (rule detect_digits_ok)

interpretation nif: span_detector "\<lambda>_. detect_nif"
  by (rule unscoped_detector) (rule detect_digits_ok)

interpretation rib: span_detector "\<lambda>_. detect_rib"
  by (rule unscoped_detector) (rule detect_digits_ok)

section \<open>Properties\<close>

text \<open>
  The NIN validator never raises and reports exactly the maximal runs of 18 decimal digits
  (not the inside of a longer run), in text order, each quoting the text at its offsets.
\<close>

theorem detect_nin_exact:
  "\<exists>ds. detect_nin text = Inr ds \<and>
     d_start ` set ds = int ` {a. isolated_run text 18 a} \<and>
     sorted_wrt (\<lambda>d d'. d_end d \<le> d_start d') ds \<and>
     (\<forall>d \<in> set ds. span_in text d \<and> d_end d = d_start d + 18 \<and> d_entity_type d = National_id)"
proof -
  let ?ms = "find_all text (digit_run_rx 18)"
  let ?ds = "map (run_detection National_id (float_lit 85 100) (lit ''dz.nin'') text) ?ms"
  have "\<forall>d \<in> set ?ds. span_in text d \<and> d_end d = d_start d + 18 \<and> d_entity_type d = National_id"
  proof
    fix d assume "d \<in> set ?ds"
    then obtain m where m: "m \<in> set ?ms"
      and d: "d = run_detection National_id (float_lit 85 100) (lit ''dz.nin'') text m" by auto
    from find_digit_runs_pair(1) [OF _ m] run_detection_span [OF _ m]
    show "span_in text d \<and> d_end d = d_start d + 18 \<and> d_entity_type d = National_id"
      by (simp add: d) (simp add: run_detection_def)
  qed
  then show ?thesis
    unfolding detect_nin_eq
    by (intro exI [of _ ?ds] conjI refl run_starts run_order) simp
qed

theorem detect_nin_exact_witness:
  "\<exists>ds. detect_nin (replicate 18 50) = Inr ds \<and> (\<exists>d \<in> set ds. d_start d = 0 \<and> d_end d = 18)"
proof -
  let ?t = "replicate 18 50 :: ustr"
  have "isolated_run ?t 18 0" by (simp add: isolated_run_def is_decimal_low)
  then have "0 \<in> int ` {a. isolated_run ?t 18 a}" by force
  with detect_nin_exact [of ?t] show ?thesis by (metis (no_types, lifting) add_0 imageE)
qed

text \<open>
  A RIB in ASCII digits is accepted exactly when its 20-digit value is divisible by 97 and
  its key lies between 1 and 97.
\<close>

theorem rib_accepts_iff:
  assumes "length rib = 20" and "\<forall>c \<in> set rib. 48 \<le> c \<and> c < 58"
  shows "rib_key_valid rib = Inr True \<longleftrightarrow>
    97 dvd digits_val 0 rib \<and> digits_val 0 (drop 18 rib) \<in> {1..97}"
  using rib_accept_ascii [OF assms] by simp

definition sample_rib :: ustr where
  "sample_rib = lit ''00400123456789012375''"

lemma sample_rib_valid: "rib_key_valid sample_rib = Inr True"
  by (simp add: rib_accept_ascii sample_rib_def digit_of_ascii dvd_eq_mod_eq_0)

lemma sample_rib_ok:
  "length sample_rib = 20" "\<forall>c \<in> set sample_rib. 48 \<le> c \<and> c < 58"
  by (simp_all add: sample_rib_def)

theorem rib_accepts_iff_witness:
  "rib_key_valid sample_rib = Inr True \<longleftrightarrow> (97::nat) dvd 400123456789012375 \<and> 75 \<in> {1..97::nat}"
proof -
  have "digits_val 0 sample_rib = 400123456789012375" "digits_val 0 (drop 18 sample_rib) = 75"
    by (simp_all add: sample_rib_def digit_of_ascii)
  with rib_accepts_iff [OF sample_rib_ok] show ?thesis by simp
qed

text \<open>A slip of the pen: one digit wrong, or two neighbouring digits exchanged.\<close>

definition one_slip :: "ustr \<Rightarrow> ustr \<Rightarrow> bool" where
  "one_slip r r' =
     ((\<exists>i < length r. \<exists>c \<in> {48..<58}. c \<noteq> r ! i \<and> r' = r[i := c]) \<or>
      (\<exists>j. Suc j < length r \<and> r ! j \<noteq> r ! Suc j \<and> r' = r[j := r ! Suc j, Suc j := r ! j]))"

lemma one_slip_value:
  assumes "one_slip r r'" and "\<forall>c \<in> set r. 48 \<le> c \<and> c < 58"
  shows "\<exists>d k. d \<noteq> 0 \<and> \<bar>d\<bar> < 97 \<and> int (digits_val 0 r') = int (digits_val 0 r) + d * 10 ^ k"
  using assms(1) unfolding one_slip_def
proof (elim disjE exE bexE conjE)
  fix i c assume i: "i < length r" and c: "c \<in> {48..<58}" "c \<noteq> r ! i" "r' = r[i := c]"
  let ?d = "int (digit_of c) - int (digit_of (r ! i))"
  have "r ! i \<in> set r" using i by simp
  with assms(2) c have "?d \<noteq> 0" "\<bar>?d\<bar> < 97" by (auto simp: digit_of_ascii)
  with digits_val_update [OF i, of c] c(3) show ?thesis by blast
next
  fix j assume j: "Suc j < length r" and ne: "r ! j \<noteq> r ! Suc j"
    and r': "r' = r[j := r ! Suc j, Suc j := r ! j]"
  let ?a = "int (digit_of (r ! j))" and ?b = "int (digit_of (r ! Suc j))"
  let ?k = "length r - Suc (Suc j)"
  have "r ! j \<in> set r" "r ! Suc j \<in> set r" using j by simp_all
  with assms(2) have lo: "48 \<le> r ! j" "48 \<le> r ! Suc j" and hi: "r ! j < 58" "r ! Suc j < 58"
    by blast+
  with ne have d: "9 * (?b - ?a) \<noteq> 0" "\<bar>9 * (?b - ?a)\<bar> < 97"
    by (simp_all add: digit_of_ascii)
  have "int (digits_val 0 r') = int (digits_val 0 r) + (?b - ?a) * 10 ^ (length r - Suc j)
      + (?a - ?b) * 10 ^ ?k"
    using j digits_val_update [of j r "r ! Suc j"]
      digits_val_update [of "Suc j" "r[j := r ! Suc j]" "r ! j"] by (simp add: r')
  also have "length r - Suc j = Suc ?k" using j by simp
  finally have "int (digits_val 0 r') = int (digits_val 0 r) + (9 * (?b - ?a)) * 10 ^ ?k"
    by (simp add: algebra_simps)
  with d show ?thesis by blast
qed

lemma one_slip_shape:
  assumes "one_slip r r'" and "\<forall>c \<in> set r. 48 \<le> c \<and> c < 58"
  shows "length r' = length r" "\<forall>c \<in> set r'. 48 \<le> c \<and> c < 58"
  using assms unfolding one_slip_def
  by (auto dest!: set_update_subset_insert [THEN subsetD])

text \<open>
  The key detects every error in a single digit and every exchange of two neighbouring
  digits: a RIB one such slip away from an accepted one is rejected.
\<close>

theorem rib_detects_slips:
  assumes "length rib = 20" and "\<forall>c \<in> set rib. 48 \<le> c \<and> c < 58"
    and "rib_key_valid rib = Inr True" and "one_slip rib rib'"
  shows "rib_key_valid rib' = Inr False"
proof -
  note shape = one_slip_shape [OF assms(4,2)]
  obtain d k where d: "d \<noteq> 0" "\<bar>d\<bar> < 97"
    and v: "int (digits_val 0 rib') = int (digits_val 0 rib) + d * 10 ^ k"
    using one_slip_value [OF assms(4,2)] by blast
  have "97 dvd digits_val 0 rib"
    using assms(1-3) rib_accept_ascii [of rib] by simp
  then have "97 dvd int (digits_val 0 rib)" by presburger
  then have "\<not> 97 dvd int (digits_val 0 rib')"
    using not_dvd_97 [of d k] d by (auto simp: v dvd_add_right_iff)
  then have "\<not> 97 dvd digits_val 0 rib'"
    by presburger
  with shape assms(1) rib_accept_ascii [of rib'] show ?thesis by simp
qed

theorem rib_detects_slips_witness:
  "rib_key_valid (sample_rib[3 := 55]) = Inr False"
proof (rule rib_detects_slips [OF sample_rib_ok])
  show "rib_key_valid sample_rib = Inr True" by (rule sample_rib_valid)
  have "3 < length sample_rib" "(55::nat) \<in> {48..<58}" "55 \<noteq> sample_rib ! 3"
    by (simp_all add: sample_rib_def)
  then show "one_slip sample_rib (sample_rib[3 := 55])"
    unfolding one_slip_def by blast
qed

text \<open>
  C38. The RIB validator never raises and reports exactly the maximal runs of 20 decimal digits
  whose key is valid.
\<close>

theorem detect_rib_exact:
  "\<exists>ds. detect_rib text = Inr ds \<and>
     d_start ` set ds =
       int ` {a. isolated_run text 20 a \<and> rib_key_valid (take 20 (drop a text)) = Inr True} \<and>
     (\<forall>d \<in> set ds. span_in text d \<and> d_end d = d_start d + 20 \<and> d_entity_type d = Bank_account)"
proof -
  let ?ms = "filter (\<lambda>m. rib_key_valid (group text m) = Inr True) (find_all text (digit_run_rx 20))"
  let ?f = "run_detection Bank_account (float_lit 99 100) (lit ''dz.rib'') text"
  have ms: "snd m = fst m + 20 \<and> isolated_run text 20 (fst m) \<and> group text m = take 20 (drop (fst m) text)"
    if "m \<in> set (find_all text (digit_run_rx 20))" for m
    using find_digit_runs_pair [OF _ that] by (simp add: group_def)
  have "d_start ` set (map ?f ?ms) = int ` fst ` set ?ms"
    by (simp add: image_image run_detection_def)
  also have "fst ` set ?ms =
      {a. isolated_run text 20 a \<and> rib_key_valid (take 20 (drop a text)) = Inr True}"
    using ms find_digit_runs [of 20 _ _ "text"] by (fastforce simp: image_iff)
  finally have starts: "d_start ` set (map ?f ?ms) =
      int ` {a. isolated_run text 20 a \<and> rib_key_valid (take 20 (drop a text)) = Inr True}" .
  have "\<forall>d \<in> set (map ?f ?ms). span_in text d \<and> d_end d = d_start d + 20 \<and> d_entity_type d = Bank_account"
    using ms run_detection_span [of 20 _ "text"] by (auto simp: run_detection_def)
  with starts show ?thesis unfolding detect_rib_eq by blast
qed

theorem detect_rib_exact_witness:
  "\<exists>ds. detect_rib sample_rib = Inr ds \<and> (\<exists>d \<in> set ds. d_start d = 0 \<and> d_end d = 20)"
proof -
  have "\<forall>c \<in> set sample_rib. is_decimal c"
    using sample_rib_ok(2) by (rule rib_decimal_ascii)
  then have "isolated_run sample_rib 20 0"
    using sample_rib_ok(1) by (simp add: isolated_run_def)
  moreover have "rib_key_valid (take 20 (drop 0 sample_rib)) = Inr True"
    using sample_rib_ok(1) sample_rib_valid by simp
  ultimately have "0 \<in> int ` {a. isolated_run sample_rib 20 a \<and>
      rib_key_valid (take 20 (drop a sample_rib)) = Inr True}" by force
  with detect_rib_exact [of sample_rib] show ?thesis by (metis (no_types, lifting) add_0 imageE)
qed

text \<open>
  A RIB whose key is written in decimal digits outside ASCII (Arabic-Indic digits, say) is
  never accepted, although the pattern matches it: the computed key is formatted in ASCII.
\<close>

theorem rib_other_digits_rejected:
  assumes "length rib = 20" and "\<forall>c \<in> set rib. is_decimal c"
    and "\<exists>c \<in> set (drop 18 rib). 58 \<le> c"
  shows "rib_key_valid rib = Inr False"
proof -
  let ?e = "97 - digits_val 0 (take 18 rib) * 100 mod 97"
  have "show_02d ?e = [48 + ?e div 10, 48 + ?e mod 10]" by (rule show_02d_two) simp
  moreover have "?e div 10 < 10" "?e mod 10 < 10" by simp_all
  ultimately have "\<forall>c \<in> set (show_02d ?e). c < 58" by (simp only:) simp
  with assms(3) have "show_02d ?e \<noteq> drop 18 rib" by force
  with rib_key_valid_decimal [OF assms(1,2)] show ?thesis by simp
qed

theorem rib_other_digits_rejected_witness:
  "rib_key_valid (map (\<lambda>c. c + 1584) sample_rib) = Inr False"
  by (rule rib_other_digits_rejected)
    (simp_all add: sample_rib_def is_decimal_def digit_value_def decimal_zeros_def)

text \<open>
  Detector A refuses to run without a customer; with one it never raises, runs the country's
  pack only for country DZ, and returns well-formed Tier 1 detections that quote the text.
\<close>

theorem structural_detect_spec:
  assumes "phone_matcher_ok pm"
  shows "structural_detect pm None text = Inl MissingTenantScopeError \<and>
    (\<exists>ds. structural_detect pm (Some ctx) text = Inr ds \<and>
       (cc_country_code ctx \<noteq> lit ''DZ'' \<longrightarrow> ds = []) \<and>
       (\<forall>d \<in> set ds. wf_detection d \<and> span_in text d \<and> d_tier d = 1))"
proof -
  note A = structural_scoped_detector [OF assms]
  note D = span_detector.detect_span [OF scoped_detector.axioms(1) [OF A]]
    span_detector.detect_wf [OF scoped_detector.axioms(1) [OF A]]
  obtain ds where ds: "run_all pm text = Inr ds" "\<forall>d \<in> set ds. structural_ok text d"
    using algeria_total [OF assms] by blast
  show ?thesis
    using scoped_detector.detect_unscoped [OF A] D ds
    by (auto simp: structural_detect_cases structural_ok_def)
qed

text \<open>A matcher that keeps the library's contract: it takes the first character for a number.\<close>

definition first_char_matcher :: phone_matcher where
  "first_char_matcher t region =
     (case t of [] \<Rightarrow> []
      | c # _ \<Rightarrow> [\<lparr>pm_start = 0, pm_end = 1, pm_raw_string = [c], pm_valid = True\<rparr>])"

theorem structural_detect_spec_witness:
  "\<exists>ds. structural_detect first_char_matcher
     (Some \<lparr>cc_customer_id = lit ''acme'', cc_country_code = lit ''DZ'', cc_plan = Starter\<rparr>)
     sample_rib = Inr ds \<and> (\<forall>d \<in> set ds. wf_detection d \<and> span_in sample_rib d \<and> d_tier d = 1)"
proof -
  have "phone_matcher_ok first_char_matcher"
    by (auto simp: phone_matcher_ok_def first_char_matcher_def py_slice_in_bounds split: list.splits)
  from structural_detect_spec [OF this, of sample_rib
      "\<lparr>cc_customer_id = lit ''acme'', cc_country_code = lit ''DZ'', cc_plan = Starter\<rparr>"]
  show ?thesis by blast
qed

end
