(* ===== verification/Sha256.thy ===== *)
theory Sha256
  imports PyText "HOL-Library.Word"
begin

text \<open>
  \<open>hashlib.sha256\<close> of the standard library (FIPS 180-4) on byte strings, which the synthetic
  values and the audit chain use: 32-bit words with wrapping addition, the message padded to
  blocks of 64 bytes. The digest is 32 bytes.
\<close>

unbundle bit_operations_syntax

definition sha_ch :: "32 word \<Rightarrow> 32 word \<Rightarrow> 32 word \<Rightarrow> 32 word" where
  "sha_ch x y z = ((x AND y) XOR (NOT x AND z))"

definition sha_maj :: "32 word \<Rightarrow> 32 word \<Rightarrow> 32 word \<Rightarrow> 32 word" where
  "sha_maj x y z = ((x AND y) XOR (x AND z) XOR (y AND z))"

definition big_sigma0 :: "32 word \<Rightarrow> 32 word" where
  "big_sigma0 x = (word_rotr 2 x XOR word_rotr 13 x XOR word_rotr 22 x)"

definition big_sigma1 :: "32 word \<Rightarrow> 32 word" where
  "big_sigma1 x = (word_rotr 6 x XOR word_rotr 11 x XOR word_rotr 25 x)"

definition small_sigma0 :: "32 word \<Rightarrow> 32 word" where
  "small_sigma0 x = (word_rotr 7 x XOR word_rotr 18 x XOR drop_bit 3 x)"

definition small_sigma1 :: "32 word \<Rightarrow> 32 word" where
  "small_sigma1 x = (word_rotr 17 x XOR word_rotr 19 x XOR drop_bit 10 x)"

text \<open>
  The standard's constants: the first 32 bits of the fractional parts of the cube roots of the
  first 64 primes, and of the square roots of the first eight. \<open>int_root k n\<close> is the integer
  \<open>k\<close>th root of \<open>n\<close> below \<open>2 ^ 40\<close>, bit by bit.
\<close>

definition small_primes :: "nat list" where
  "small_primes = filter (\<lambda>p. list_all (\<lambda>d. p mod d \<noteq> 0) [2..<p]) [2..<312]"

definition int_root :: "nat \<Rightarrow> nat \<Rightarrow> nat" where
  "int_root k n = foldl (\<lambda>r i. if (r + 2 ^ i) ^ k \<le> n then r + 2 ^ i else r) 0 (rev [0..<40])"

definition sha_k :: "32 word list" where
  "sha_k = map (\<lambda>p. of_nat (int_root 3 (p * 2 ^ 96))) small_primes"

definition sha_init :: "32 word list" where
  "sha_init = map (\<lambda>p. of_nat (int_root 2 (p * 2 ^ 64))) (take 8 small_primes)"

definition be_bytes :: "nat \<Rightarrow> nat \<Rightarrow> bytes" where
  "be_bytes k n = map (\<lambda>i. n div 256 ^ (k - 1 - i) mod 256) [0..<k]"

text \<open>\<open>int.from_bytes(..., "big")\<close>.\<close>

definition be_value :: "bytes \<Rightarrow> nat" where
  "be_value bs = foldl (\<lambda>acc b. acc * 256 + b) 0 bs"

definition sha_pad :: "bytes \<Rightarrow> bytes" where
  "sha_pad m =
     (let n = length m
      in m @ [128] @ replicate ((119 - n mod 64) mod 64) 0 @ be_bytes 8 (8 * n mod 2 ^ 64))"

fun chunks :: "nat \<Rightarrow> nat \<Rightarrow> bytes \<Rightarrow> bytes list" where
  "chunks 0 k bs = []"
| "chunks (Suc c) k bs = take k bs # chunks c k (drop k bs)"

fun sha_schedule :: "nat \<Rightarrow> 32 word list \<Rightarrow> 32 word list" where
  "sha_schedule 0 ws = ws"
| "sha_schedule (Suc r) ws =
     (let t = length ws
      in sha_schedule r (ws @ [small_sigma1 (ws ! (t - 2)) + ws ! (t - 7) +
           small_sigma0 (ws ! (t - 15)) + ws ! (t - 16)]))"

type_synonym sha_state =
  "32 word \<times> 32 word \<times> 32 word \<times> 32 word \<times> 32 word \<times> 32 word \<times> 32 word \<times> 32 word"

definition sha_round :: "32 word \<times> 32 word \<Rightarrow> sha_state \<Rightarrow> sha_state" where
  "sha_round kw st =
     (case st of (a, b, c, d, e, f, g, h) \<Rightarrow>
        let t1 = h + big_sigma1 e + sha_ch e f g + fst kw + snd kw;
            t2 = big_sigma0 a + sha_maj a b c
        in (t1 + t2, a, b, c, d + t1, e, f, g))"

definition sha_words :: "bytes \<Rightarrow> 32 word list" where
  "sha_words block = map (\<lambda>bs. of_nat (be_value bs)) (chunks 16 4 block)"

fun sha_block :: "bytes \<Rightarrow> sha_state \<Rightarrow> sha_state" where
  "sha_block block (a, b, c, d, e, f, g, h) =
     (case fold sha_round (zip sha_k (sha_schedule 48 (sha_words block))) (a, b, c, d, e, f, g, h) of
        (a', b', c', d', e', f', g', h') \<Rightarrow>
          (a + a', b + b', c + c', d + d', e + e', f + f', g + g', h + h'))"

fun sha_output :: "sha_state \<Rightarrow> bytes" where
  "sha_output (a, b, c, d, e, f, g, h) =
     concat (map (\<lambda>w. be_bytes 4 (unat w)) [a, b, c, d, e, f, g, h])"

definition sha_start :: sha_state where
  "sha_start = (sha_init ! 0, sha_init ! 1, sha_init ! 2, sha_init ! 3,
     sha_init ! 4, sha_init ! 5, sha_init ! 6, sha_init ! 7)"

definition sha256 :: "bytes \<Rightarrow> bytes" where
  "sha256 m =
     (let p = sha_pad m
      in sha_output (fold sha_block (chunks (length p div 64) 64 p) sha_start))"

text \<open>\<open>hashlib.sha256(m).hexdigest()\<close>.\<close>

definition sha256_hex :: "bytes \<Rightarrow> ustr" where
  "sha256_hex m = to_hex (sha256 m)"

text \<open>\<open>hmac.new(key, msg, hashlib.sha256)\<close> (RFC 2104).\<close>

definition hmac_sha256 :: "bytes \<Rightarrow> bytes \<Rightarrow> bytes" where
  "hmac_sha256 key msg =
     (let short = (if 64 < length key then sha256 key else key);
          k = short @ replicate (64 - length short) 0
      in sha256 (map (\<lambda>b. b XOR 92) k @ sha256 (map (\<lambda>b. b XOR 54) k @ msg)))"


section \<open>The shape of a digest\<close>

lemma length_be_bytes [simp]: "length (be_bytes k n) = k"
  by (simp add: be_bytes_def)

lemma be_bytes_bytes: "is_bytes (be_bytes k n)"
  by (auto simp: be_bytes_def)

lemma length_sha_output: "length (sha_output st) = 32"
  by (cases st rule: sha_output.cases) simp

lemma sha_output_bytes: "is_bytes (sha_output st)"
  using be_bytes_bytes [of 4] by (cases st rule: sha_output.cases) auto

lemma length_sha256 [simp]: "length (sha256 m) = 32"
  by (simp add: sha256_def Let_def length_sha_output)

lemma sha256_bytes: "is_bytes (sha256 m)"
  by (simp add: sha256_def Let_def sha_output_bytes)

text \<open>The padded message is a whole number of blocks, so no byte of it is left out.\<close>

lemma length_sha_pad: "64 dvd length (sha_pad m)"
proof -
  have "length (sha_pad m) = length m + 9 + (119 - length m mod 64) mod 64"
    by (simp add: sha_pad_def Let_def)
  moreover have "64 dvd n + 9 + (119 - n mod 64) mod 64" for n :: nat
  proof -
    obtain q r where n: "n = 64 * q + r" "r < 64"
      by (metis mult_div_mod_eq mod_less_divisor zero_less_numeral)
    have "(119 - r) mod 64 = (if r \<le> 55 then 55 - r else 119 - r)"
    proof (cases "r \<le> 55")
      case True
      then have "119 - r = (55 - r) + 64" by simp
      also have "((55 - r) + 64) mod 64 = 55 - r" by (simp only: mod_add_self2) simp
      finally show ?thesis using True by simp
    qed simp
    with n have "n + 9 + (119 - n mod 64) mod 64 = 64 * (q + (if r \<le> 55 then 1 else 2))"
      by simp
    then show ?thesis by simp
  qed
  ultimately show ?thesis by simp
qed

lemma length_hmac [simp]: "length (hmac_sha256 key msg) = 32"
  by (simp add: hmac_sha256_def Let_def)

lemma hmac_bytes: "is_bytes (hmac_sha256 key msg)"
  unfolding hmac_sha256_def Let_def by (rule sha256_bytes)

end
