(* ===== verification/Components.thy ===== *)
theory Components
  imports Detection
begin

text \<open>
  \<open>src/substitution/components.py\<close>: the surface forms under which a substituted value may come
  back in a response. A person's name yields its full form, its first and last parts and the
  last part under every honorific; every other value its full form only.
\<close>

definition honorifics :: "(ustr, ustr list) dict" where
  "honorifics =
     [(lit ''en'', [lit ''Mr.'',
         lit ''Mrs.'',
         lit ''Ms.'',
         lit ''Dr.'']),
      (lit ''fr'', [lit ''M.'',
         lit ''Mme'',
         lit ''Mlle'',
         lit ''Dr'']),
      (lit ''ar'', [[1575, 1604, 1587, 1610, 1583],
         [1575, 1604, 1587, 1610, 1583, 1577],
         [1575, 1604, 1570, 1606, 1587, 1577],
         [1575, 1604, 1583, 1603, 1578, 1608, 1585]])]"

record component =
  c_surface :: ustr
  c_original_surface :: ustr
  c_kind :: ustr
  c_language :: "ustr option"

definition mk_component :: "ustr \<Rightarrow> ustr \<Rightarrow> ustr \<Rightarrow> ustr option \<Rightarrow> component" where
  "mk_component s orig k l =
     \<lparr>c_surface = s, c_original_surface = orig, c_kind = k, c_language = l\<rparr>"

definition honorific_components :: "ustr \<Rightarrow> ustr \<Rightarrow> component list" where
  "honorific_components o_last s_last =
     concat (map (\<lambda>(lang, prefixes).
       map (\<lambda>p. mk_component (p @ [32] @ s_last) (p @ [32] @ o_last) (lit ''honorific'') (Some lang))
         prefixes) honorifics)"

definition decompose_person :: "ustr \<Rightarrow> ustr \<Rightarrow> component list" where
  "decompose_person original_full synthetic_full =
     (let components = [mk_component synthetic_full original_full (lit ''full'') None];
          o_parts = py_split original_full; s_parts = py_split synthetic_full
      in if length o_parts < 2 \<or> length s_parts < 2 then components
         else let o_first = hd o_parts; o_last = last o_parts;
                  s_first = hd s_parts; s_last = last s_parts
              in components @ [mk_component s_first o_first (lit ''first'') None] @
                 [mk_component s_last o_last (lit ''last'') None] @
                 honorific_components o_last s_last)"

definition decompose :: "entity_type \<Rightarrow> ustr \<Rightarrow> ustr \<Rightarrow> component list" where
  "decompose et original synthetic =
     (if et = Person then decompose_person original synthetic
      else [mk_component synthetic original (lit ''full'') None])"

section \<open>Lemmas\<close>

lemma component_simps [simp]:
  "c_surface (mk_component s orig k l) = s" "c_original_surface (mk_component s orig k l) = orig"
  "c_kind (mk_component s orig k l) = k" "c_language (mk_component s orig k l) = l"
  by (simp_all add: mk_component_def)

lemma decompose_full:
  "\<exists>rest. decompose et original synthetic = mk_component synthetic original (lit ''full'') None # rest"
  by (auto simp: decompose_def decompose_person_def Let_def)

lemma decompose_nonempty: "decompose et original synthetic \<noteq> []"
  using decompose_full by (metis list.discI)

lemma honorific_kinds: "c \<in> set (honorific_components a b) \<Longrightarrow> c_kind c = lit ''honorific''"
  by (auto simp: honorific_components_def)

lemma decompose_kinds:
  "c \<in> set (decompose et a b) \<Longrightarrow> c_kind c \<in> {lit ''full'', lit ''first'', lit ''last'', lit ''honorific''}"
  using honorific_kinds by (auto simp: decompose_def decompose_person_def Let_def split: if_splits)

text \<open>Only the first component is a full form, so a full match is counted once per value.\<close>

lemma decompose_one_full:
  "filter (\<lambda>c. c_kind c = lit ''full'') (decompose et a b) = [mk_component b a (lit ''full'') None]"
proof -
  have "filter (\<lambda>c. c_kind c = lit ''full'') (honorific_components x y) = []" for x y
    by (auto simp: filter_empty_conv dest: honorific_kinds)
  then show ?thesis by (auto simp: decompose_def decompose_person_def Let_def)
qed

lemma py_split_part_nonempty: "length (py_split s) \<ge> 2 \<Longrightarrow> hd (py_split s) \<noteq> [] \<and> last (py_split s) \<noteq> []"
  using py_split_words [of "hd (py_split s)" s] py_split_words [of "last (py_split s)" s]
  by (cases "py_split s") auto

text \<open>No component is an empty pattern, if the synthetic value is not empty.\<close>

lemma decompose_surface_nonempty:
  "synthetic \<noteq> [] \<Longrightarrow> c \<in> set (decompose et original synthetic) \<Longrightarrow> c_surface c \<noteq> []"
  using py_split_part_nonempty [of synthetic]
  by (auto simp: decompose_def decompose_person_def honorific_components_def Let_def split: if_splits)

text \<open>A person of two names in both worlds has every variant.\<close>

lemma decompose_person_count:
  assumes "2 \<le> length (py_split a)" and "2 \<le> length (py_split b)"
  shows "length (decompose Person a b) = 15"
  using assms by (simp add: decompose_def decompose_person_def Let_def honorific_components_def honorifics_def)

end
