(* ===== verification/Synthetic.thy ===== *)
theory Synthetic
  imports Algeria Sha256 Components
begin

text \<open>
  \<open>src/substitution/synthetic.py\<close>: the synthetic value of a detected one, derived from the
  SHA-256 digest of a seed that carries the request's salt. The process-wide pack registry is
  an argument; a missing salt takes the token \<open>secrets.token_hex(8)\<close> returned, an argument too.
\<close>

record pack =
  p_persons :: "ustr list"
  p_organizations :: "ustr list"
  p_locations :: "ustr list"

definition dz_pack :: pack where
  "dz_pack =
     \<lparr>p_persons = [lit ''Karim Hadji'',
         lit ''Yacine Mansouri'',
         lit ''Amina Belkacem'',
         lit ''Sara Bouzid'',
         lit ''Walid Ouali'',
         lit ''Nadia Cherif'',
         lit ''Mehdi Lounis'',
         lit ''Lina Saadi''],
      p_organizations = [[83, 111, 99, 105, 233, 116, 233, 32, 71, 233, 110, 233, 114, 97, 108, 101, 32, 65, 108, 103, 233, 114, 105, 101],
         lit ''Naftal SPA'',
         lit ''Mobilis Telecom'',
         lit ''Sonelgaz'',
         [65, 108, 103, 233, 114, 105, 101, 32, 80, 111, 115, 116, 101]],
      p_locations = [lit ''Alger'',
         lit ''Oran'',
         lit ''Constantine'',
         lit ''Annaba'',
         lit ''Tlemcen'',
         [83, 233, 116, 105, 102]]\<rparr>"

type_synonym packs = "(ustr, pack) dict"

definition initial_packs :: packs where
  "initial_packs = [(lit ''DZ'', dz_pack)]"

definition register_pack :: "ustr \<Rightarrow> pack \<Rightarrow> packs \<Rightarrow> packs" where
  "register_pack country_code p packs = dict_set country_code p packs"

definition pick :: "ustr \<Rightarrow> ustr list \<Rightarrow> ustr res" where
  "pick seed pool =
     (if pool = [] then Inr ([60] @ py_slice seed 0 6 @ [62])
      else bindE (utf8_encode seed) (\<lambda>b.
           let idx = be_value (py_slice (sha256 b) 0 8) mod length pool in Inr (pool ! idx)))"

definition digest_digits :: "bytes \<Rightarrow> ustr" where
  "digest_digits digest = concat (map (\<lambda>b. show_nat (b mod 10)) digest)"

lemma length_digest_digits: "length (digest_digits bs) = length bs"
  by (induction bs) (simp_all add: digest_digits_def show_nat_small)

function digits_loop :: "nat \<Rightarrow> bytes \<Rightarrow> ustr \<Rightarrow> ustr" where
  "digits_loop n digest digits =
     (if length digits < n
      then digits_loop n (sha256 digest) (digits @ digest_digits (sha256 digest)) else digits)"
  by pat_completeness auto
termination
  by (relation "measure (\<lambda>(n, digest, digits). n - length digits)") (auto simp: length_digest_digits)

declare digits_loop.simps [simp del]

definition digit_string_for :: "ustr \<Rightarrow> nat \<Rightarrow> ustr res" where
  "digit_string_for seed n =
     bindE (utf8_encode seed) (\<lambda>b.
       let digest = sha256 b
       in Inr (py_slice (digits_loop n digest (digest_digits digest)) 0 (int n)))"

definition phone_for :: "ustr \<Rightarrow> ustr \<Rightarrow> ustr res" where
  "phone_for seed country_code =
     bindE (digit_string_for seed 9) (\<lambda>suffix.
       if country_code = lit ''DZ''
       then Inr (lit ''+213 5'' @ py_slice suffix 0 2 @ [32] @ py_slice suffix 2 4 @ [32] @
              py_slice suffix 4 6 @ [32] @ py_slice suffix 6 8)
       else Inr (lit ''+1 555 '' @ py_slice suffix 0 3 @ [32] @ py_slice suffix 3 7))"

definition rib_for :: "ustr \<Rightarrow> ustr res" where
  "rib_for seed =
     bindE (digit_string_for seed 18) (\<lambda>body.
     bindE (py_int (body @ lit ''00'')) (\<lambda>n.
       Inr (body @ show_02d (nat (97 - n mod 97)))))"

definition luhn_term :: "nat \<Rightarrow> int \<Rightarrow> int" where
  "luhn_term i digit =
     (if i mod 2 = 0 then let doubled = digit * 2 in if 9 < doubled then doubled - 9 else doubled
      else digit)"

definition luhn_for :: "ustr \<Rightarrow> ustr res" where
  "luhn_for seed =
     bindE (digit_string_for seed 15) (\<lambda>base.
     bindE (mapE (\<lambda>c. py_int [c]) base) (\<lambda>digits.
       let s = sum_list (map (\<lambda>(i, d). luhn_term i d) (enumerate 0 (rev digits)));
           check = (10 - s mod 10) mod 10
       in Inr (base @ show_int check)))"

definition email_for :: "ustr \<Rightarrow> ustr res" where
  "email_for seed =
     bindE (utf8_encode seed) (\<lambda>b.
       Inr (lit ''user'' @ py_slice (sha256_hex b) 0 8 @ lit ''@example.com''))"

definition synthetic_seed :: "ustr \<Rightarrow> entity_type \<Rightarrow> ustr \<Rightarrow> ustr \<Rightarrow> ustr option \<Rightarrow> ustr" where
  "synthetic_seed token et original country_code salt =
     (if truthy_str salt then the salt else token) @ [124] @ entity_name et @ [124] @ original @ [124] @
     country_code"

fun synthetic_of_type :: "pack \<Rightarrow> ustr \<Rightarrow> ustr \<Rightarrow> entity_type \<Rightarrow> ustr \<Rightarrow> ustr res" where
  "synthetic_of_type p seed country_code Person original = pick seed (p_persons p)"
| "synthetic_of_type p seed country_code Organization original = pick seed (p_organizations p)"
| "synthetic_of_type p seed country_code Location original = pick seed (p_locations p)"
| "synthetic_of_type p seed country_code Phone original = phone_for seed country_code"
| "synthetic_of_type p seed country_code National_id original = digit_string_for seed 18"
| "synthetic_of_type p seed country_code Tax_id original = digit_string_for seed 15"
| "synthetic_of_type p seed country_code Bank_account original = rib_for seed"
| "synthetic_of_type p seed country_code Card_number original = luhn_for seed"
| "synthetic_of_type p seed country_code Email original = email_for seed"
| "synthetic_of_type p seed country_code Date original = Inr original"
| "synthetic_of_type p seed country_code Monetary original = Inr original"
| "synthetic_of_type p seed country_code Custom original =
     Inr ([60] @ py_slice (entity_name Custom) 0 6 @ [45] @ py_slice seed 0 6 @ [62])"

definition pack_for :: "packs \<Rightarrow> ustr \<Rightarrow> pack" where
  "pack_for packs country_code = (case map_of packs country_code of Some p \<Rightarrow> p | None \<Rightarrow> dz_pack)"

definition synthetic_for ::
    "packs \<Rightarrow> ustr \<Rightarrow> entity_type \<Rightarrow> ustr \<Rightarrow> ustr \<Rightarrow> ustr option \<Rightarrow> ustr res" where
  "synthetic_for packs token et original country_code salt =
     (let p = pack_for packs country_code;
          seed = synthetic_seed token et original country_code salt
      in synthetic_of_type p seed country_code et original)"

section \<open>Digit strings\<close>

abbreviation ascii_digits :: "ustr \<Rightarrow> bool" where
  "ascii_digits s \<equiv> (\<forall>c \<in> set s. 48 \<le> c \<and> c < 58)"

lemma digest_digits_ascii: "ascii_digits (digest_digits bs)"
  by (auto simp: digest_digits_def show_nat_small)

lemma digits_loop_result:
  "n \<le> length (digits_loop n digest digits) \<and>
   (ascii_digits digits \<longrightarrow> ascii_digits (digits_loop n digest digits))"
proof (induction n digest digits rule: digits_loop.induct)
  case (1 n digest digits)
  show ?case
  proof (cases "length digits < n")
    case True
    then have e: "digits_loop n digest digits =
        digits_loop n (sha256 digest) (digits @ digest_digits (sha256 digest))"
      by (subst digits_loop.simps) simp
    have "ascii_digits digits \<longrightarrow> ascii_digits (digits @ digest_digits (sha256 digest))"
      using digest_digits_ascii [of "sha256 digest"] unfolding set_append by blast
    with 1 [OF True] show ?thesis unfolding e by blast
  next
    case False
    then show ?thesis by (simp add: digits_loop.simps)
  qed
qed

text \<open>The digest has 32 bytes, so for every length the gateway asks for the loop ends at once.\<close>

lemma digits_loop_once: "n \<le> 32 \<Longrightarrow> digits_loop n (sha256 b) (digest_digits (sha256 b)) = digest_digits (sha256 b)"
  by (simp add: digits_loop.simps length_digest_digits)

lemma digit_string_for_shape:
  assumes "digit_string_for seed n = Inr r"
  shows "length r = n" "ascii_digits r"
proof -
  from assms obtain b where r: "r = py_slice (digits_loop n (sha256 b) (digest_digits (sha256 b))) 0 (int n)"
    by (auto simp: digit_string_for_def bindE_eq_Inr Let_def)
  let ?l = "digits_loop n (sha256 b) (digest_digits (sha256 b))"
  have l: "n \<le> length ?l" "ascii_digits ?l"
    using digits_loop_result [of n "sha256 b" "digest_digits (sha256 b)"] digest_digits_ascii by blast+
  then have "r = take n ?l" by (simp add: r py_slice_in_bounds)
  with l show "length r = n" "ascii_digits r" by (auto dest: in_set_takeD)
qed

lemma digit_string_for_total:
  assumes "\<forall>c \<in> set seed. scalar c"
  shows "\<exists>r. digit_string_for seed n = Inr r"
  using assms utf8_encode_scalar [of seed] by (auto simp: digit_string_for_def Let_def)

lemma digits_py_int:
  "ascii_digits s \<Longrightarrow> s \<noteq> [] \<Longrightarrow> length s \<le> 4300 \<Longrightarrow> py_int s = Inr (int (digits_val 0 s))"
  by (rule py_int_decimal) (auto simp: is_decimal_ascii)

section \<open>The check digits\<close>

lemma rib_for_eq:
  assumes "digit_string_for seed 18 = Inr body"
  shows "rib_for seed = Inr (body @ show_02d (97 - digits_val 0 body * 100 mod 97))"
proof -
  note b = digit_string_for_shape [OF assms]
  have "py_int (body @ lit ''00'') = Inr (int (digits_val 0 (body @ lit ''00'')))"
    using b by (intro digits_py_int) auto
  moreover have "digits_val 0 (body @ lit ''00'') = digits_val 0 body * 100"
    by (simp add: digits_val_app digit_of_ascii)
  moreover have "nat (97 - int (digits_val 0 body * 100) mod 97) = 97 - digits_val 0 body * 100 mod 97"
  proof -
    define x where "x = digits_val 0 body * 100"
    have "x mod 97 \<le> 97" by (simp add: less_imp_le)
    then have "97 - int x mod 97 = int (97 - x mod 97)" by (simp add: of_nat_diff zmod_int)
    then show ?thesis by (simp only: nat_int x_def)
  qed
  ultimately show ?thesis
    by (simp only: rib_for_def assms bindE_simps)
qed

lemma rib_for_valid:
  assumes "rib_for seed = Inr r"
  shows "length r = 20" "ascii_digits r" "rib_key_valid r = Inr True"
proof -
  obtain body where body: "digit_string_for seed 18 = Inr body"
    using assms by (auto simp: rib_for_def bindE_eq_Inr)
  note b = digit_string_for_shape [OF body]
  let ?k = "97 - digits_val 0 body * 100 mod 97"
  have k: "show_02d ?k = [48 + ?k div 10, 48 + ?k mod 10]"
    by (rule show_02d_two) simp
  have "?k div 10 < 10" by (simp add: less_mult_imp_div_less)
  with k have ka: "ascii_digits (show_02d ?k)" "length (show_02d ?k) = 2" by auto
  have r: "r = body @ show_02d ?k" using rib_for_eq [OF body] assms by simp
  show len: "length r = 20" and asc: "ascii_digits r" using r b ka by auto
  show "rib_key_valid r = Inr True"
    using rib_key_valid_decimal [OF len rib_decimal_ascii [OF asc]] r b by simp
qed

text \<open>
  The Luhn rule: from the right, every second digit counts the digit sum of its double; the
  total of a valid number is a multiple of ten.
\<close>

fun luhn_sum :: "bool \<Rightarrow> nat list \<Rightarrow> nat" where
  "luhn_sum dbl [] = 0"
| "luhn_sum dbl (d # ds) =
     (if dbl then 2 * d div 10 + 2 * d mod 10 else d) + luhn_sum (\<not> dbl) ds"

definition luhn_valid :: "ustr \<Rightarrow> bool" where
  "luhn_valid s = (10 dvd luhn_sum False (rev (map digit_of s)))"

lemma luhn_term_double:
  "d < 10 \<Longrightarrow> luhn_term i (int d) = int (if even i then 2 * d div 10 + 2 * d mod 10 else d)"
proof -
  assume d: "d < 10"
  then have "9 < 2 * d \<Longrightarrow> 2 * d div 10 = 1" by simp
  then show ?thesis
    using d div_mult_mod_eq [of "2 * d" 10] by (auto simp: luhn_term_def Let_def)
qed

lemma luhn_loop_sum:
  "\<forall>d \<in> set ds. d < 10 \<Longrightarrow>
   sum_list (map (\<lambda>(i, d). luhn_term i d) (enumerate n (map int ds))) = int (luhn_sum (even n) ds)"
proof (induction ds arbitrary: n)
  case (Cons d ds)
  then show ?case using luhn_term_double [of d n] by (cases "even n") auto
qed simp

lemma int_digits:
  assumes "ascii_digits s"
  shows "mapE (\<lambda>c. py_int [c]) s = Inr (map int (map digit_of s))"
  using assms digits_py_int [of "[_]"] mapE_total [of s "\<lambda>c. py_int [c]" "\<lambda>c. int (digit_of c)"]
  by (simp add: comp_def)

lemma check_digit: "10 dvd (10 - s mod 10) mod 10 + (s :: nat)"
proof -
  define q t where "q = s div 10" and "t = s mod 10"
  then have s: "s = 10 * q + t" "t < 10" by simp_all
  then show ?thesis by (cases "t = 0") (simp_all add: s(1))
qed

lemma luhn_for_valid:
  assumes "luhn_for seed = Inr r"
  shows "length r = 16" "ascii_digits r" "luhn_valid r"
proof -
  obtain base where base: "digit_string_for seed 15 = Inr base"
    using assms by (auto simp: luhn_for_def bindE_eq_Inr)
  note b = digit_string_for_shape [OF base]
  let ?s = "luhn_sum True (rev (map digit_of base))"
  let ?c = "(10 - ?s mod 10) mod 10"
  have "sum_list (map (\<lambda>(i, d). luhn_term i d) (enumerate 0 (rev (map int (map digit_of base))))) = int ?s"
    using luhn_loop_sum [of "rev (map digit_of base)" 0] by (simp add: rev_map)
  moreover have "(10 - int ?s mod 10) mod 10 = int ?c"
  proof -
    have "int ?c = (int (10 - ?s mod 10)) mod 10" by (simp only: zmod_int) simp
    also have "int (10 - ?s mod 10) = 10 - int (?s mod 10)" by simp
    finally show ?thesis by (simp add: zmod_int)
  qed
  ultimately have r: "r = base @ show_int (int ?c)"
    using assms base int_digits [OF b(2)] by (simp add: luhn_for_def Let_def)
  have c: "?c < 10" by simp
  then have sc: "show_int (int ?c) = [48 + ?c]" by (simp only: show_int_def) (simp add: show_nat_small)
  show "length r = 16" "ascii_digits r" using b c by (auto simp: r sc)
  have "luhn_sum False (rev (map digit_of r)) = ?c + ?s"
    using c by (simp add: r sc digit_of_ascii)
  also have "10 dvd \<dots>"
    by (rule check_digit)
  finally show "luhn_valid r" by (simp add: luhn_valid_def)
qed

section \<open>A synthetic identifier is one the gateway recognises\<close>

lemma whole_run: "ascii_digits r \<Longrightarrow> isolated_run r (length r) 0"
  by (auto simp: isolated_run_def is_decimal_ascii)

text \<open>A detector that reports the whole of its input as an entity of the type.\<close>

definition recognised :: "(ustr \<Rightarrow> detection list res) \<Rightarrow> entity_type \<Rightarrow> ustr \<Rightarrow> bool" where
  "recognised detect et r =
     (case detect r of Inl _ \<Rightarrow> False
      | Inr ds \<Rightarrow> list_ex (\<lambda>d. d_entity_type d = et \<and> d_start d = 0 \<and> d_end d = int (length r)) ds)"

lemma whole_found: "ascii_digits r \<Longrightarrow> length r = n \<Longrightarrow> 0 < n \<Longrightarrow> (0, n) \<in> set (find_all r (digit_run_rx n))"
  using find_digit_runs [of n 0 n r] whole_run [of r] by simp

lemma recognised_nin: "ascii_digits r \<Longrightarrow> length r = 18 \<Longrightarrow> recognised detect_nin National_id r"
  using whole_found [of r 18]
  by (auto simp: recognised_def detect_nin_eq list_ex_iff run_detection_def simp del: list.map
      intro: rev_bexI)

lemma recognised_nif: "ascii_digits r \<Longrightarrow> length r = 15 \<Longrightarrow> recognised detect_nif Tax_id r"
  using whole_found [of r 15]
  by (auto simp: recognised_def detect_nif_eq list_ex_iff run_detection_def simp del: list.map
      intro: rev_bexI)

lemma recognised_rib:
  "ascii_digits r \<Longrightarrow> length r = 20 \<Longrightarrow> rib_key_valid r = Inr True \<Longrightarrow> recognised detect_rib Bank_account r"
  using whole_found [of r 20]
  by (auto simp: recognised_def detect_rib_eq list_ex_iff run_detection_def group_def simp del: list.map
      intro!: rev_bexI [of "(0, 20)"])

lemma pick_in_pool: "pick seed pool = Inr r \<Longrightarrow> pool \<noteq> [] \<Longrightarrow> r \<in> set pool"
  by (auto simp: pick_def bindE_eq_Inr Let_def)

lemma pool_pick_total: "\<forall>c \<in> set seed. scalar c \<Longrightarrow> \<exists>r. pick seed pool = Inr r"
  using utf8_encode_scalar [of seed] by (auto simp: pick_def Let_def)

lemma digit_value_forms:
  assumes "\<forall>c \<in> set seed. scalar c"
  shows "\<exists>r. phone_for seed cc = Inr r" "\<exists>r. rib_for seed = Inr r" "\<exists>r. luhn_for seed = Inr r"
    "\<exists>r. email_for seed = Inr r"
proof -
  show "\<exists>r. phone_for seed cc = Inr r"
    using digit_string_for_total [OF assms, of 9] by (auto simp: phone_for_def)
  show "\<exists>r. rib_for seed = Inr r"
    using digit_string_for_total [OF assms, of 18] rib_for_eq by blast
  obtain base where base: "digit_string_for seed 15 = Inr base"
    using digit_string_for_total [OF assms] by blast
  then show "\<exists>r. luhn_for seed = Inr r"
    using int_digits [OF digit_string_for_shape(2) [OF base]] by (simp add: luhn_for_def Let_def)
  show "\<exists>r. email_for seed = Inr r"
    using utf8_encode_scalar [of seed] assms by (auto simp: email_for_def)
qed

lemma synthetic_of_type_total:
  assumes "\<forall>c \<in> set seed. scalar c"
  shows "\<exists>r. synthetic_of_type p seed cc et original = Inr r"
  using digit_value_forms [OF assms] pool_pick_total [OF assms] digit_string_for_total [OF assms]
  by (cases et) auto

lemma synthetic_seed_scalar:
  assumes "\<forall>c \<in> set original. scalar c" "\<forall>c \<in> set cc. scalar c" "\<forall>c \<in> set token. scalar c"
    and "\<And>s. salt = Some s \<Longrightarrow> \<forall>c \<in> set s. scalar c"
  shows "\<forall>c \<in> set (synthetic_seed token et original cc salt). scalar c"
proof -
  have "\<forall>c \<in> set (entity_name et). scalar c"
    using entity_name_ascii [of _ et] by (fastforce intro: scalar_ascii)
  with assms show ?thesis
    by (cases salt) (auto simp: synthetic_seed_def truthy_str_def scalar_ascii)
qed

text \<open>
  A customer-defined entity gets a value that depends on the salt alone.
\<close>

lemma custom_value:
  assumes "6 \<le> length salt"
  shows "synthetic_for packs token Custom original cc (Some salt) =
    Inr (lit ''<custom-'' @ take 6 salt @ lit ''>'')"
proof -
  have "py_slice (salt @ t) 0 6 = take 6 salt" for t
    using assms by (simp add: py_slice_in_bounds)
  moreover have "py_slice (entity_name Custom) 0 6 = lit ''custom''"
    by (simp add: py_slice_in_bounds)
  moreover have "salt \<noteq> []" using assms by auto
  ultimately show ?thesis
    by (simp add: synthetic_for_def Let_def synthetic_seed_def truthy_str_def)
qed

section \<open>Properties\<close>

text \<open>
  A synthetic identity, tax or bank number has the form of the real one: the gateway's own
  validators, the RIB key included, report the whole of it as an entity of the same type.
\<close>

theorem synthetic_number_recognised:
  assumes "synthetic_for packs token et original cc salt = Inr r"
  shows "(et = National_id \<longrightarrow> recognised detect_nin National_id r) \<and>
    (et = Tax_id \<longrightarrow> recognised detect_nif Tax_id r) \<and>
    (et = Bank_account \<longrightarrow> recognised detect_rib Bank_account r)"
  using assms digit_string_for_shape recognised_nin recognised_nif
    rib_for_valid recognised_rib
  by (auto simp: synthetic_for_def Let_def)

text \<open>A synthetic card number has sixteen digits and passes the Luhn check.\<close>

theorem synthetic_card_luhn:
  assumes "synthetic_for packs token Card_number original cc salt = Inr r"
  shows "length r = 16 \<and> ascii_digits r \<and> luhn_valid r"
  using assms luhn_for_valid by (auto simp: synthetic_for_def Let_def)

text \<open>
  Generation is total: it raises only if a character of the seed has no UTF-8 form, and
  the digest loop always ends.
\<close>

theorem synthetic_total:
  assumes "\<forall>c \<in> set original. scalar c" and "\<forall>c \<in> set cc. scalar c" and "\<forall>c \<in> set salt. scalar c"
    and "salt \<noteq> []"
  shows "\<exists>r. synthetic_for packs token et original cc (Some salt) = Inr r"
proof -
  have "synthetic_seed token et original cc (Some salt) = synthetic_seed salt et original cc (Some salt)"
    using assms(4) by (simp add: synthetic_seed_def truthy_str_def)
  moreover have "\<forall>c \<in> set (synthetic_seed salt et original cc (Some salt)). scalar c"
    using assms(1-3) by (intro synthetic_seed_scalar) auto
  ultimately show ?thesis
    using synthetic_of_type_total by (simp add: synthetic_for_def Let_def)
qed

text \<open>
  A person's synthetic name comes from the pool of the pack, so a request with more
  distinct names than the pool has gives two of them the same synthetic name, for any salt.
\<close>

theorem person_pool_collision:
  assumes "p_persons (pack_for packs cc) \<noteq> []"
    and "length (p_persons (pack_for packs cc)) < length names"
    and "distinct names"
    and "\<forall>n \<in> set names. isOk (synthetic_for packs token Person n cc salt)"
  shows "\<exists>a \<in> set names. \<exists>b \<in> set names. a \<noteq> b \<and>
    synthetic_for packs token Person a cc salt = synthetic_for packs token Person b cc salt"
proof -
  let ?pool = "p_persons (pack_for packs cc)"
  let ?f = "\<lambda>n. synthetic_for packs token Person n cc salt"
  have "?f ` set names \<subseteq> Inr ` set ?pool"
    using assms(4) pick_in_pool [OF _ assms(1)] by (fastforce simp: isOk_iff synthetic_for_def Let_def)
  then have "card (?f ` set names) \<le> card (Inr ` set ?pool :: ustr res set)"
    by (intro card_mono) auto
  also have "\<dots> = card (set ?pool)"
    by (intro card_image) (simp add: inj_on_def)
  also have "\<dots> \<le> length ?pool"
    by (rule card_length)
  also have "\<dots> < card (set names)"
    using assms(2) distinct_card [OF assms(3)] by simp
  finally have "\<not> inj_on ?f (set names)" using pigeonhole by blast
  then show ?thesis by (auto simp: inj_on_def)
qed

section \<open>Witnesses\<close>

definition sample_salt :: ustr where
  "sample_salt = lit ''0123456789abcdef''"

lemma sample_total:
  "\<forall>c \<in> set original. c < 128 \<Longrightarrow>
   \<exists>r. synthetic_for initial_packs [] et original (lit ''DZ'') (Some sample_salt) = Inr r"
proof -
  assume "\<forall>c \<in> set original. c < 128"
  then have "\<forall>c \<in> set (synthetic_seed [] et original (lit ''DZ'') (Some sample_salt)). scalar c"
    by (intro synthetic_seed_scalar) (auto simp: sample_salt_def scalar_ascii)
  then show ?thesis using synthetic_of_type_total by (simp add: synthetic_for_def Let_def)
qed

lemma synthetic_number_recognised_witness:
  "\<exists>r. synthetic_for initial_packs [] Bank_account (lit ''1234'') (lit ''DZ'') (Some sample_salt) = Inr r \<and>
    recognised detect_rib Bank_account r"
proof -
  obtain r where "synthetic_for initial_packs [] Bank_account (lit ''1234'') (lit ''DZ'')
      (Some sample_salt) = Inr r"
    using sample_total [of "lit ''1234''" Bank_account] by auto
  with synthetic_number_recognised [OF this] show ?thesis by blast
qed

lemma synthetic_card_luhn_witness:
  "\<exists>r. synthetic_for initial_packs [] Card_number (lit ''1234'') (lit ''DZ'') (Some sample_salt) = Inr r \<and>
    length r = 16 \<and> luhn_valid r"
proof -
  obtain r where "synthetic_for initial_packs [] Card_number (lit ''1234'') (lit ''DZ'')
      (Some sample_salt) = Inr r"
    using sample_total [of "lit ''1234''" Card_number] by auto
  with synthetic_card_luhn [OF this] show ?thesis by blast
qed

lemma synthetic_total_witness:
  "\<exists>r. synthetic_for initial_packs [] Person (lit ''Ali'') (lit ''DZ'') (Some sample_salt) = Inr r"
  by (rule synthetic_total) (auto simp: sample_salt_def scalar_ascii)

definition nine_names :: "ustr list" where
  "nine_names = map (\<lambda>i. [65 + i]) [0..<9]"

lemma person_pool_collision_witness:
  "\<exists>a \<in> set nine_names. \<exists>b \<in> set nine_names. a \<noteq> b \<and>
    synthetic_for initial_packs [] Person a (lit ''DZ'') (Some sample_salt) =
    synthetic_for initial_packs [] Person b (lit ''DZ'') (Some sample_salt)"
proof (rule person_pool_collision)
  show "distinct nine_names"
    by (simp add: nine_names_def distinct_map inj_on_def)
  show "\<forall>n \<in> set nine_names. isOk (synthetic_for initial_packs [] Person n (lit ''DZ'') (Some sample_salt))"
  proof
    fix n assume "n \<in> set nine_names"
    then have "\<forall>c \<in> set n. c < 128" by (auto simp: nine_names_def)
    from sample_total [OF this, of Person]
    show "isOk (synthetic_for initial_packs [] Person n (lit ''DZ'') (Some sample_salt))"
      by (simp add: isOk_iff)
  qed
qed (simp_all add: pack_for_def initial_packs_def dz_pack_def nine_names_def)

end
