(* ===== verification/SessionMap.thy ===== *)
theory SessionMap
  imports Tenancy PyFloat PyText
begin

text \<open>
  \<open>src/substitution/session_map.py\<close>: the encrypted map of one request and the registry of live
  maps. AES-GCM of the \<open>cryptography\<close> package, the nonces of \<open>os.urandom\<close> and the readings of
  \<open>time.monotonic\<close> are arguments. The registry and the request share map objects, so the maps
  live in a heap and the registry holds references. The contract substitution relies on is the
  locale \<open>mapping_store\<close>.
\<close>

section \<open>The cipher\<close>

text \<open>\<open>AESGCM(key).encrypt(nonce, data, aad)\<close> and \<open>.decrypt(nonce, data, aad)\<close>.\<close>

record aead =
  ae_encrypt :: "bytes \<Rightarrow> bytes \<Rightarrow> bytes \<Rightarrow> bytes \<Rightarrow> bytes"
  ae_decrypt :: "bytes \<Rightarrow> bytes \<Rightarrow> bytes \<Rightarrow> bytes \<Rightarrow> bytes res"

text \<open>Decryption under the same key, nonce and associated data returns the plaintext.\<close>

definition aead_ok :: "aead \<Rightarrow> bool" where
  "aead_ok A = (\<forall>key nonce data aad. length key = 32 \<longrightarrow> length nonce = 12 \<longrightarrow>
     ae_decrypt A key nonce (ae_encrypt A key nonce data aad) aad = Inr data)"

text \<open>Decryption under other associated data raises \<open>InvalidTag\<close>.\<close>

definition aead_binds :: "aead \<Rightarrow> bool" where
  "aead_binds A = (\<forall>key nonce data aad aad'. length key = 32 \<longrightarrow> length nonce = 12 \<longrightarrow> aad \<noteq> aad' \<longrightarrow>
     ae_decrypt A key nonce (ae_encrypt A key nonce data aad) aad' = Inl InvalidTag)"

section \<open>The map of a request\<close>

definition nonce_bytes :: nat where
  "nonce_bytes = 12"

record session_map_entry =
  e_original :: ustr
  e_synthetic :: ustr
  e_entity_type :: ustr

record session_map =
  sm_key :: bytes
  sm_customer_id :: ustr
  sm_request_id :: ustr
  sm_created_at :: rat
  sm_last_access :: rat
  sm_encrypted :: "(ustr, bytes \<times> bytes) dict"
  sm_purged :: bool
  sm_bound_customer :: ustr

definition new_session_map :: "scope \<Rightarrow> rat \<Rightarrow> bytes \<Rightarrow> ustr \<Rightarrow> ustr \<Rightarrow> session_map res" where
  "new_session_map cur now key customer_id request_id =
     (if length key \<noteq> 32 then Inl ValueError
      else bindE (require_customer cur) (\<lambda>_.
        Inr \<lparr>sm_key = key, sm_customer_id = customer_id, sm_request_id = request_id,
          sm_created_at = now, sm_last_access = now, sm_encrypted = [], sm_purged = False,
          sm_bound_customer = customer_id\<rparr>))"

definition check_alive :: "session_map \<Rightarrow> unit res" where
  "check_alive sm = raise_if (sm_purged sm) SessionPurgedError"

definition sm_aad :: "session_map \<Rightarrow> bytes res" where
  "sm_aad sm = utf8_encode (sm_bound_customer sm @ [124] @ sm_request_id sm)"

text \<open>
  \<open>add\<close>: an exception leaves the map as it was. \<open>reverse\<close> stamps the access before it decrypts,
  so it returns the map whatever happens.
\<close>

definition sm_add :: "aead \<Rightarrow> bytes \<Rightarrow> rat \<Rightarrow> session_map_entry \<Rightarrow> session_map \<Rightarrow> session_map res" where
  "sm_add A nonce now entry sm =
     bindE (check_alive sm) (\<lambda>_.
     bindE (utf8_encode (e_entity_type entry @ [31] @ e_original entry)) (\<lambda>payload.
     bindE (sm_aad sm) (\<lambda>aad.
       let ct = ae_encrypt A (sm_key sm) nonce payload aad
       in Inr (sm\<lparr>sm_encrypted := dict_set (e_synthetic entry) (nonce, ct) (sm_encrypted sm),
                 sm_last_access := now\<rparr>))))"

definition sm_open_slot :: "aead \<Rightarrow> session_map \<Rightarrow> ustr \<Rightarrow> bytes \<times> bytes \<Rightarrow> session_map_entry option res" where
  "sm_open_slot A sm synthetic slot =
     bindE (sm_aad sm) (\<lambda>aad.
     bindE (ae_decrypt A (sm_key sm) (fst slot) (snd slot) aad) (\<lambda>pt.
     bindE (utf8_decode pt) (\<lambda>s.
       case split_once 31 s of
         [entity_type, original] \<Rightarrow>
           Inr (Some \<lparr>e_original = original, e_synthetic = synthetic, e_entity_type = entity_type\<rparr>)
       | _ \<Rightarrow> Inl ValueError)))"

definition sm_reverse ::
    "aead \<Rightarrow> rat \<Rightarrow> ustr \<Rightarrow> session_map \<Rightarrow> session_map_entry option res \<times> session_map" where
  "sm_reverse A now synthetic sm =
     (case check_alive sm of Inl e \<Rightarrow> (Inl e, sm)
      | Inr _ \<Rightarrow>
          let sm' = sm\<lparr>sm_last_access := now\<rparr>
          in case map_of (sm_encrypted sm) synthetic of
               None \<Rightarrow> (Inr None, sm')
             | Some slot \<Rightarrow> (sm_open_slot A sm' synthetic slot, sm'))"

definition sm_len :: "session_map \<Rightarrow> nat" where
  "sm_len sm = (if sm_purged sm then 0 else length (sm_encrypted sm))"

definition sm_is_idle :: "rat option \<Rightarrow> rat \<Rightarrow> int \<Rightarrow> session_map \<Rightarrow> bool" where
  "sm_is_idle now clock timeout_s sm =
     (if sm_purged sm then True
      else let current = (case now of None \<Rightarrow> clock | Some n \<Rightarrow> n)
           in of_int timeout_s \<le> float_sub current (sm_last_access sm))"

definition sm_purge :: "session_map \<Rightarrow> session_map" where
  "sm_purge sm = sm\<lparr>sm_encrypted := [], sm_purged := True\<rparr>"

section \<open>The registry\<close>

record session_store =
  ss_key :: bytes
  ss_idle_timeout_s :: int
  ss_maps :: "(ustr, nat) dict"
  ss_heap :: "session_map list"

definition store_open :: "scope \<Rightarrow> rat \<Rightarrow> ustr \<Rightarrow> session_store \<Rightarrow> (nat \<times> session_store) res" where
  "store_open cur now request_id st =
     bindE (require_customer cur) (\<lambda>ctx.
     bindE (new_session_map cur now (ss_key st) (cc_customer_id ctx) request_id) (\<lambda>sm.
       let r = length (ss_heap st)
       in Inr (r, st\<lparr>ss_maps := dict_set request_id r (ss_maps st), ss_heap := ss_heap st @ [sm]\<rparr>)))"

definition store_purge :: "nat \<Rightarrow> session_store \<Rightarrow> session_store" where
  "store_purge r st = st\<lparr>ss_heap := (ss_heap st)[r := sm_purge (ss_heap st ! r)]\<rparr>"

definition store_close :: "ustr \<Rightarrow> session_store \<Rightarrow> session_store" where
  "store_close request_id st =
     (case map_of (ss_maps st) request_id of None \<Rightarrow> st
      | Some r \<Rightarrow> store_purge r (st\<lparr>ss_maps := dict_pop request_id (ss_maps st)\<rparr>))"

definition stale_ids :: "rat \<Rightarrow> session_store \<Rightarrow> ustr list" where
  "stale_ids now st =
     map fst (filter (\<lambda>(rid, r). sm_is_idle (Some now) now (ss_idle_timeout_s st) (ss_heap st ! r))
       (ss_maps st))"

definition sweep_idle :: "rat \<Rightarrow> session_store \<Rightarrow> nat \<times> session_store" where
  "sweep_idle now st = (length (stale_ids now st), fold store_close (stale_ids now st) st)"

section \<open>The interface\<close>

text \<open>
  A store of substitutions: what was added under a synthetic value is what \<open>reverse\<close> returns for
  it until the value is added again, and a purged store answers nothing. \<open>c\<close> is the cipher.
\<close>

locale mapping_store =
  fixes scheme_ok :: "'c \<Rightarrow> bool"
    and inv :: "'m \<Rightarrow> bool"
    and entry_ok :: "'e \<Rightarrow> bool"
    and key_of :: "'e \<Rightarrow> ustr"
    and add :: "'c \<Rightarrow> bytes \<Rightarrow> rat \<Rightarrow> 'e \<Rightarrow> 'm \<Rightarrow> 'm res"
    and reverse :: "'c \<Rightarrow> rat \<Rightarrow> ustr \<Rightarrow> 'm \<Rightarrow> 'e option res \<times> 'm"
    and purge :: "'m \<Rightarrow> 'm"
  assumes add_inv: "inv m \<Longrightarrow> add c n t e m = Inr m' \<Longrightarrow> inv m'"
    and add_reverse: "scheme_ok c \<Longrightarrow> inv m \<Longrightarrow> entry_ok e \<Longrightarrow> length n = 12 \<Longrightarrow>
      add c n t e m = Inr m' \<Longrightarrow> fst (reverse c t' (key_of e) m') = Inr (Some e)"
    and add_other: "add c n t e m = Inr m' \<Longrightarrow> s \<noteq> key_of e \<Longrightarrow>
      fst (reverse c t' s m') = fst (reverse c t'' s m)"
    and purge_reverse: "fst (reverse c t s (purge m)) = Inl SessionPurgedError"
    and purge_add: "add c n t e (purge m) = Inl SessionPurgedError"
begin

abbreviation adds :: "'c \<Rightarrow> (bytes \<times> rat \<times> 'e) list \<Rightarrow> 'm \<Rightarrow> 'm res" where
  "adds c xs \<equiv> foldE (\<lambda>(n, t, e). add c n t e) xs"

lemma adds_inv: "adds c xs m = Inr m' \<Longrightarrow> inv m \<Longrightarrow> inv m'"
  by (erule foldE_invariant) (auto intro: add_inv)

text \<open>The last write under a synthetic value wins.\<close>

lemma last_write_wins:
  assumes "scheme_ok c" "adds c xs m = Inr m'" "inv m"
    and "\<forall>(n, t, e) \<in> set xs. length n = 12 \<and> entry_ok e"
  shows "fst (reverse c t' s m') =
    (case find (\<lambda>(n, t, e). key_of e = s) (rev xs) of
       Some (n, t, e) \<Rightarrow> Inr (Some e) | None \<Rightarrow> fst (reverse c t' s m))"
  using assms(2,4)
proof (induction xs arbitrary: m' rule: rev_induct)
  case (snoc x xs)
  obtain n t e where x: "x = (n, t, e)" by (cases x) auto
  from snoc.prems obtain m1 where m1: "adds c xs m = Inr m1" "add c n t e m1 = Inr m'"
    by (auto simp: foldE_append bindE_eq_Inr x)
  show ?case
  proof (cases "key_of e = s")
    case True
    then show ?thesis
      using add_reverse [OF assms(1) adds_inv [OF m1(1) assms(3)] _ _ m1(2)] snoc.prems(2)
      by (auto simp: x)
  next
    case False
    then show ?thesis
      using add_other [OF m1(2), of s t' t'] snoc.IH [OF m1(1)] snoc.prems(2) by (auto simp: x)
  qed
qed simp

end

definition sm_ok :: "session_map \<Rightarrow> bool" where
  "sm_ok sm = (length (sm_key sm) = 32 \<and> dict_ok (sm_encrypted sm))"

definition entry_ok :: "session_map_entry \<Rightarrow> bool" where
  "entry_ok e = (31 \<notin> set (e_entity_type e))"

lemma sm_add_Inr:
  "sm_add A n t e sm = Inr sm' \<longleftrightarrow> \<not> sm_purged sm \<and>
     (\<exists>p a. utf8_encode (e_entity_type e @ [31] @ e_original e) = Inr p \<and> sm_aad sm = Inr a \<and>
       sm' = sm\<lparr>sm_encrypted := dict_set (e_synthetic e) (n, ae_encrypt A (sm_key sm) n p a) (sm_encrypted sm),
               sm_last_access := t\<rparr>)"
  by (auto simp: sm_add_def check_alive_def res_simps Let_def)

lemma sm_aad_cong [simp]:
  "sm_aad (sm\<lparr>sm_last_access := t\<rparr>) = sm_aad sm"
  "sm_aad (sm\<lparr>sm_encrypted := d\<rparr>) = sm_aad sm"
  by (simp_all add: sm_aad_def)

lemma sm_open_slot_cong:
  "sm_key sm = sm_key sm' \<Longrightarrow> sm_aad sm = sm_aad sm' \<Longrightarrow> sm_open_slot A sm s x = sm_open_slot A sm' s x"
  by (simp add: sm_open_slot_def)

lemma sm_open_own_slot:
  assumes "aead_ok A" "length (sm_key sm) = 32" "length n = 12" "entry_ok e" "sm_aad sm = Inr a"
    and "utf8_encode (e_entity_type e @ [31] @ e_original e) = Inr p"
  shows "sm_open_slot A sm (e_synthetic e) (n, ae_encrypt A (sm_key sm) n p a) = Inr (Some e)"
proof -
  have "ae_decrypt A (sm_key sm) n (ae_encrypt A (sm_key sm) n p a) a = Inr p"
    using assms(1-3) unfolding aead_ok_def by blast
  moreover have "split_once 31 (e_entity_type e @ 31 # e_original e) = [e_entity_type e, e_original e]"
    using assms(4) by (intro split_once_first) (simp add: entry_ok_def)
  ultimately show ?thesis
    using utf8_roundtrip [OF assms(6)] assms(5) by (simp add: sm_open_slot_def)
qed

interpretation session_store: mapping_store aead_ok sm_ok entry_ok e_synthetic sm_add sm_reverse sm_purge
proof
  fix m m' c n t e
  assume "sm_ok m" "sm_add c n t e m = Inr m'"
  then show "sm_ok m'" by (auto simp: sm_add_Inr sm_ok_def)
next
  fix c m e and n :: bytes and t m' t'
  assume "aead_ok c" "sm_ok m" "entry_ok e" "length n = 12" "sm_add c n t e m = Inr m'"
  then show "fst (sm_reverse c t' (e_synthetic e) m') = Inr (Some e)"
    using sm_open_own_slot [of c m n e]
    by (auto simp: sm_add_Inr sm_reverse_def check_alive_def Let_def sm_ok_def sm_open_slot_def)
next
  fix c n t e m m' s t' t''
  assume "sm_add c n t e m = Inr m'" "s \<noteq> e_synthetic e"
  then show "fst (sm_reverse c t' s m') = fst (sm_reverse c t'' s m)"
    by (auto simp: sm_add_Inr sm_reverse_def check_alive_def Let_def sm_open_slot_def
        split: option.splits)
qed (simp_all add: sm_reverse_def sm_add_def sm_purge_def check_alive_def)

section \<open>The registry as a transition system\<close>

text \<open>
  The steps on the registry: opening a map under an identifier not in use (the pipeline draws
  a fresh UUID per request), using a map through its reference, closing, sweeping.
\<close>

inductive store_step :: "aead \<Rightarrow> session_store \<Rightarrow> session_store \<Rightarrow> bool" for A where
  opens: "rid \<notin> fst ` set (ss_maps st) \<Longrightarrow> store_open cur now rid st = Inr (r, st') \<Longrightarrow> store_step A st st'"
| adds: "r < length (ss_heap st) \<Longrightarrow> sm_add A n t e (ss_heap st ! r) = Inr sm \<Longrightarrow>
     store_step A st (st\<lparr>ss_heap := (ss_heap st)[r := sm]\<rparr>)"
| reverses: "r < length (ss_heap st) \<Longrightarrow> sm_reverse A t s (ss_heap st ! r) = (res, sm) \<Longrightarrow>
     store_step A st (st\<lparr>ss_heap := (ss_heap st)[r := sm]\<rparr>)"
| closes: "store_step A st (store_close rid st)"
| sweeps: "sweep_idle now st = (k, st') \<Longrightarrow> store_step A st st'"

inductive store_reachable :: "aead \<Rightarrow> session_store \<Rightarrow> session_store \<Rightarrow> bool" for A st0 where
  start: "store_reachable A st0 st0"
| step: "store_reachable A st0 st \<Longrightarrow> store_step A st st' \<Longrightarrow> store_reachable A st0 st'"

inductive_cases store_stepE: "store_step A st st'"

definition empty_store :: "bytes \<Rightarrow> int \<Rightarrow> session_store" where
  "empty_store key timeout = \<lparr>ss_key = key, ss_idle_timeout_s = timeout, ss_maps = [], ss_heap = []\<rparr>"

text \<open>
  The registry refers to distinct maps of the heap, every map it has forgotten is purged, and
  a purged map holds nothing.
\<close>

definition store_ok :: "session_store \<Rightarrow> bool" where
  "store_ok st =
     (dict_ok (ss_maps st) \<and> distinct (map snd (ss_maps st)) \<and>
      (\<forall>r \<in> snd ` set (ss_maps st). r < length (ss_heap st)) \<and>
      (\<forall>r < length (ss_heap st). r \<notin> snd ` set (ss_maps st) \<longrightarrow> sm_purged (ss_heap st ! r)) \<and>
      (\<forall>sm \<in> set (ss_heap st). sm_purged sm \<longrightarrow> sm_encrypted sm = []))"

lemma sm_purge_facts [simp]: "sm_purged (sm_purge sm)" "sm_encrypted (sm_purge sm) = []"
  by (simp_all add: sm_purge_def)

lemma sm_purge_again: "sm_purged sm \<Longrightarrow> sm_encrypted sm = [] \<Longrightarrow> sm_purge sm = sm"
  by (simp add: sm_purge_def)

lemma sm_reverse_map:
  "sm_reverse A t s sm = (res, sm') \<Longrightarrow> sm_purged sm' = sm_purged sm \<and> sm_encrypted sm' = sm_encrypted sm"
  by (auto simp: sm_reverse_def Let_def split: sum.splits option.splits)

lemma dict_pop_snd:
  assumes "distinct (map snd d)"
  shows "distinct (map snd (dict_pop k d))" "snd ` set (dict_pop k d) \<subseteq> snd ` set d"
  using assms by (auto simp: AList.delete_eq distinct_map_filter)

lemma dict_pop_range:
  assumes "dict_ok d" "map_of d k = Some r" "r' \<in> snd ` set d" "r' \<noteq> r"
  shows "r' \<in> snd ` set (dict_pop k d)"
proof -
  obtain k' where k': "(k', r') \<in> set d" using assms(3) by auto
  with assms(1,2,4) have "k' \<noteq> k" by (metis map_of_is_SomeI option.inject)
  with k' have "(k', r') \<in> set (dict_pop k d)" by (simp add: AList.delete_eq)
  then show ?thesis by force
qed

lemma dict_pop_value:
  assumes "distinct (map snd d)" "dict_ok d" "map_of d k = Some r"
  shows "r \<notin> snd ` set (dict_pop k d)"
proof
  assume "r \<in> snd ` set (dict_pop k d)"
  then obtain k' where "(k', r) \<in> set d" "k' \<noteq> k" by (auto simp: AList.delete_eq)
  moreover have "(k, r) \<in> set d" using assms(3) by (rule map_of_SomeD)
  ultimately show False
    using assms(1) by (metis distinct_map inj_onD prod.inject snd_conv)
qed

lemma store_close_ok:
  assumes "store_ok st"
  shows "store_ok (store_close rid st)"
proof (cases "map_of (ss_maps st) rid")
  case None
  then show ?thesis using assms by (simp add: store_close_def)
next
  case (Some r)
  let ?st = "store_close rid st"
  have st: "ss_maps ?st = dict_pop rid (ss_maps st)"
      "ss_heap ?st = (ss_heap st)[r := sm_purge (ss_heap st ! r)]"
    using Some by (simp_all add: store_close_def store_purge_def)
  have a: "dict_ok (ss_maps st)" "distinct (map snd (ss_maps st))"
      "\<forall>r \<in> snd ` set (ss_maps st). r < length (ss_heap st)"
      "\<forall>r < length (ss_heap st). r \<notin> snd ` set (ss_maps st) \<longrightarrow> sm_purged (ss_heap st ! r)"
      "\<forall>sm \<in> set (ss_heap st). sm_purged sm \<longrightarrow> sm_encrypted sm = []"
    using assms unfolding store_ok_def by blast+
  have "sm_purged (ss_heap ?st ! r')" if "r' < length (ss_heap st)" "r' \<notin> snd ` set (ss_maps ?st)" for r'
    using that a(4) dict_pop_range [OF a(1) Some, of r'] by (cases "r' = r") (auto simp: st)
  moreover have "sm_encrypted sm = []" if "sm \<in> set (ss_heap ?st)" "sm_purged sm" for sm
    using that a(5) set_update_subset_insert [of "ss_heap st" r "sm_purge (ss_heap st ! r)"]
    by (auto simp: st)
  ultimately show ?thesis
    unfolding store_ok_def st
    using dict_ok_pop [OF a(1)] dict_pop_snd [OF a(2)] a(3) unfolding st length_list_update by blast
qed

lemma store_ok_use:
  assumes "store_ok st" "r < length (ss_heap st)"
    and "sm_purged sm = sm_purged (ss_heap st ! r)" "sm_purged sm \<Longrightarrow> sm_encrypted sm = []"
  shows "store_ok (st\<lparr>ss_heap := (ss_heap st)[r := sm]\<rparr>)"
  using assms set_update_subset_insert [of "ss_heap st" r sm]
  unfolding store_ok_def by (auto simp: nth_list_update)

lemma store_open_ok:
  assumes "store_ok st" "rid \<notin> fst ` set (ss_maps st)" "store_open cur now rid st = Inr (r, st')"
  shows "store_ok st'"
proof -
  obtain sm where sm: "sm_purged sm = False"
      "st' = st\<lparr>ss_maps := ss_maps st @ [(rid, length (ss_heap st))], ss_heap := ss_heap st @ [sm]\<rparr>"
    using assms(3) dict_set_new [OF assms(2)]
    by (simp add: store_open_def new_session_map_def bindE_eq_Inr Let_def split: if_splits) force
  then show ?thesis
    using assms(1,2) unfolding store_ok_def by (auto simp: nth_append image_iff)
qed

lemma sweep_ok: "store_ok st \<Longrightarrow> store_ok (snd (sweep_idle now st))"
  unfolding sweep_idle_def snd_conv
  by (rule fold_invariant [where Q = "\<lambda>_. True"]) (auto intro: store_close_ok)

lemma store_step_ok: "store_step A st st' \<Longrightarrow> store_ok st \<Longrightarrow> store_ok st'"
proof (elim store_stepE)
  fix r n t e sm
  assume ok: "store_ok st" and r: "r < length (ss_heap st)" and "sm_add A n t e (ss_heap st ! r) = Inr sm"
    and st': "st' = st\<lparr>ss_heap := (ss_heap st)[r := sm]\<rparr>"
  then show "store_ok st'" by (auto intro!: store_ok_use simp: sm_add_Inr)
next
  fix r t s res sm
  assume ok: "store_ok st" and r: "r < length (ss_heap st)"
    and rev: "sm_reverse A t s (ss_heap st ! r) = (res, sm)"
    and st': "st' = st\<lparr>ss_heap := (ss_heap st)[r := sm]\<rparr>"
  from sm_reverse_map [OF rev] ok r show "store_ok st'"
    unfolding st' by (intro store_ok_use) (auto simp: store_ok_def)
next
  fix now k
  assume "store_ok st" "sweep_idle now st = (k, st')"
  then show "store_ok st'" using sweep_ok [of st now] by simp
qed (auto simp: store_open_ok store_close_ok)

section \<open>Closing and sweeping\<close>

lemma store_close_fields:
  "ss_maps (store_close rid st) = dict_pop rid (ss_maps st)"
  "length (ss_heap (store_close rid st)) = length (ss_heap st)"
  "ss_key (store_close rid st) = ss_key st"
  by (auto simp: store_close_def store_purge_def map_of_eq_None_iff split: option.splits)

lemma store_close_nth:
  "r < length (ss_heap st) \<Longrightarrow> ss_heap (store_close rid st) ! r =
     (if map_of (ss_maps st) rid = Some r then sm_purge (ss_heap st ! r) else ss_heap st ! r)"
  by (auto simp: store_close_def store_purge_def split: option.splits)

lemma fold_close_fields:
  "ss_maps (fold store_close rids st) = filter (\<lambda>(k, _). k \<notin> set rids) (ss_maps st) \<and>
   length (ss_heap (fold store_close rids st)) = length (ss_heap st)"
proof (induction rids arbitrary: st)
  case (Cons rid rids)
  then show ?case
    by (simp add: store_close_fields AList.delete_eq) (rule filter_cong, auto)
qed simp

lemma fold_close_nth:
  assumes "r < length (ss_heap st)" "distinct rids"
  shows "ss_heap (fold store_close rids st) ! r =
    (if \<exists>rid \<in> set rids. map_of (ss_maps st) rid = Some r then sm_purge (ss_heap st ! r)
     else ss_heap st ! r)"
  using assms
proof (induction rids arbitrary: st)
  case (Cons rid rids)
  have idem: "sm_purge (sm_purge sm) = sm_purge sm" for sm by (simp add: sm_purge_def)
  have "map_of (ss_maps (store_close rid st)) k = map_of (ss_maps st) k" if "k \<in> set rids" for k
    using that Cons.prems(2) by (auto simp: store_close_fields)
  then show ?case
    using Cons.IH [of "store_close rid st"] Cons.prems
    by (auto simp: store_close_fields(2) store_close_nth idem)
qed simp

lemma stale_distinct: "dict_ok (ss_maps st) \<Longrightarrow> distinct (stale_ids now st)"
  unfolding stale_ids_def by (rule distinct_map_filter)

lemma stale_iff:
  assumes "dict_ok (ss_maps st)" "(rid, r) \<in> set (ss_maps st)"
  shows "rid \<in> set (stale_ids now st) \<longleftrightarrow> sm_is_idle (Some now) now (ss_idle_timeout_s st) (ss_heap st ! r)"
proof -
  have "rid \<in> set (stale_ids now st) \<longleftrightarrow>
      (\<exists>r'. (rid, r') \<in> set (ss_maps st) \<and> sm_is_idle (Some now) now (ss_idle_timeout_s st) (ss_heap st ! r'))"
    by (force simp: stale_ids_def)
  with assms show ?thesis by (metis eq_key_imp_eq_value)
qed

text \<open>Purging a map is for good.\<close>

definition purged_at :: "nat \<Rightarrow> session_store \<Rightarrow> bool" where
  "purged_at r st = (r < length (ss_heap st) \<and> sm_purged (ss_heap st ! r))"

lemma purged_at_sweep: "purged_at r st \<Longrightarrow> purged_at r (fold store_close rids st)"
proof (induction rids arbitrary: st)
  case (Cons rid rids)
  then show ?case
    using store_close_nth [of r st rid] by (simp add: purged_at_def store_close_fields)
qed simp

lemma purged_at_step:
  assumes "store_step A st st'" "purged_at r st"
  shows "purged_at r st'"
  using assms(1)
proof (cases rule: store_step.cases)
  case (opens rid cur now r')
  then show ?thesis
    using assms(2)
    by (auto simp: purged_at_def store_open_def bindE_eq_Inr Let_def nth_append)
next
  case (adds r' n t e sm)
  then show ?thesis
    using assms(2) by (auto simp: purged_at_def nth_list_update sm_add_Inr)
next
  case (reverses r' t s res sm)
  then show ?thesis
    using assms(2) sm_reverse_map by (fastforce simp: purged_at_def nth_list_update)
next
  case (closes rid)
  then show ?thesis using assms(2) purged_at_sweep [of r st "[rid]"] by simp
next
  case (sweeps now k)
  then show ?thesis using assms(2) purged_at_sweep by (auto simp: sweep_idle_def)
qed

lemma store_reachable_trans: "store_reachable A st1 st2 \<Longrightarrow> store_reachable A st st1 \<Longrightarrow> store_reachable A st st2"
  by (induction rule: store_reachable.induct) (auto intro: store_reachable.step)

lemma purged_at_reachable: "store_reachable A st st' \<Longrightarrow> purged_at r st \<Longrightarrow> purged_at r st'"
  by (induction rule: store_reachable.induct) (auto intro: purged_at_step)

lemma reachable_ok: "store_reachable A st st' \<Longrightarrow> store_ok st \<Longrightarrow> store_ok st'"
  by (induction rule: store_reachable.induct) (auto intro: store_step_ok)

lemma empty_store_ok: "store_ok (empty_store key timeout)"
  by (simp add: store_ok_def empty_store_def)

lemma aad_inj:
  fixes c c' r r' :: ustr
  assumes "124 \<notin> set r" "124 \<notin> set r'" "c @ 124 # r = c' @ 124 # r'"
  shows "c = c' \<and> r = r'"
proof -
  have "rev r @ 124 # rev c = rev r' @ 124 # rev c'"
    using arg_cong [OF assms(3), of rev] by simp
  moreover have "split_once 124 (rev r @ 124 # rev c) = [rev r, rev c]"
    "split_once 124 (rev r' @ 124 # rev c') = [rev r', rev c']"
    using assms(1,2) by (simp_all add: split_once_first)
  ultimately have "[rev r, rev c] = [rev r', rev c']" by metis
  then show ?thesis by simp
qed

section \<open>Properties\<close>

text \<open>
  A session map is a dictionary: after any sequence of additions to a fresh map, looking
  up a synthetic value decrypts to the entry added last under it, or to nothing, whatever
  separator characters the original text contains.
\<close>

theorem session_lookup:
  assumes "aead_ok A" and "new_session_map cur t0 key cid rid = Inr m"
    and "foldE (\<lambda>(n, t, e). sm_add A n t e) xs m = Inr m'"
    and "\<forall>(n, t, e) \<in> set xs. length n = nonce_bytes \<and> entry_ok e"
  shows "fst (sm_reverse A t' s m') =
    Inr (map_option (\<lambda>(n, t, e). e) (find (\<lambda>(n, t, e). e_synthetic e = s) (rev xs)))"
proof -
  have m: "sm_ok m" "fst (sm_reverse A t' s m) = Inr None"
    using assms(2) by (auto simp: new_session_map_def bindE_eq_Inr sm_ok_def sm_reverse_def
        check_alive_def Let_def split: if_splits)
  then show ?thesis
    using session_store.last_write_wins [OF assms(1,3) m(1)] assms(4)
    by (auto simp: nonce_bytes_def split: option.splits)
qed

text \<open>
  In every state of the registry, a map it no longer lists is purged and holds nothing,
  so no mapping outlives its registration.
\<close>

theorem registry_forgets_nothing_live:
  assumes "store_reachable A (empty_store key timeout) st" and "r < length (ss_heap st)"
  shows "(\<exists>rid. map_of (ss_maps st) rid = Some r) \<or>
    sm_purged (ss_heap st ! r) \<and> sm_encrypted (ss_heap st ! r) = []"
proof -
  have ok: "store_ok st" using reachable_ok [OF assms(1) empty_store_ok] .
  show ?thesis
  proof (cases "r \<in> snd ` set (ss_maps st)")
    case True
    then obtain rid where "(rid, r) \<in> set (ss_maps st)" by auto
    with ok have "map_of (ss_maps st) rid = Some r" by (simp add: store_ok_def)
    then show ?thesis by blast
  qed (use ok assms(2) in \<open>auto simp: store_ok_def\<close>)
qed


text \<open>
  The idle sweep removes and purges exactly the maps whose last access is at least the
  timeout ago, leaves the others as they were, and returns how many it removed.
\<close>

theorem sweep_exact:
  assumes "store_ok st" and "sweep_idle now st = (k, st')"
  shows "ss_maps st' = filter (\<lambda>(rid, r).
      \<not> sm_is_idle (Some now) now (ss_idle_timeout_s st) (ss_heap st ! r)) (ss_maps st) \<and>
    k + length (ss_maps st') = length (ss_maps st) \<and>
    (\<forall>(rid, r) \<in> set (ss_maps st). ss_heap st' ! r =
      (if sm_is_idle (Some now) now (ss_idle_timeout_s st) (ss_heap st ! r) then sm_purge (ss_heap st ! r)
       else ss_heap st ! r))"
proof -
  let ?idle = "\<lambda>(rid, r). sm_is_idle (Some now) now (ss_idle_timeout_s st) (ss_heap st ! r)"
  have ok: "dict_ok (ss_maps st)" "distinct (map snd (ss_maps st))"
      "\<And>rid r. (rid, r) \<in> set (ss_maps st) \<Longrightarrow> r < length (ss_heap st)"
    using assms(1) by (force simp: store_ok_def)+
  have st': "st' = fold store_close (stale_ids now st) st" and k: "k = length (stale_ids now st)"
    using assms(2) by (auto simp: sweep_idle_def)
  have maps: "ss_maps st' = filter (\<lambda>x. \<not> ?idle x) (ss_maps st)"
    unfolding st' using stale_iff [OF ok(1)] by (subst conjunct1 [OF fold_close_fields]) (auto intro!: filter_cong)
  moreover have "k + length (ss_maps st') = length (ss_maps st)"
    unfolding maps k stale_ids_def length_map
    using sum_length_filter_compl [of ?idle "ss_maps st"] by (simp add: case_prod_unfold)
  moreover have "ss_heap st' ! r = (if ?idle (rid, r) then sm_purge (ss_heap st ! r) else ss_heap st ! r)"
    if "(rid, r) \<in> set (ss_maps st)" for rid r
  proof -
    have "(\<exists>k \<in> set (stale_ids now st). map_of (ss_maps st) k = Some r) \<longleftrightarrow> rid \<in> set (stale_ids now st)"
      using that ok(1,2) by (metis distinct_map inj_onD map_of_SomeD map_of_is_SomeI prod.inject snd_conv)
    then show ?thesis
      unfolding st' using fold_close_nth [OF ok(3) [OF that] stale_distinct [OF ok(1)]]
        stale_iff [OF ok(1) that] by simp
  qed
  ultimately show ?thesis by (auto simp: case_prod_unfold)
qed

text \<open>
  A ciphertext is bound to its customer and request: moved into the map of another
  customer or request under the same key it does not decrypt, since two different pairs never
  give the same associated data when request identifiers contain no bar.
\<close>

theorem replayed_slot_rejected:
  assumes "aead_binds A" and "length (sm_key sm) = 32" and "sm_key sm2 = sm_key sm"
    and "length n = nonce_bytes" and "sm_add A n t e sm = Inr sm'"
    and "124 \<notin> set (sm_request_id sm)" and "124 \<notin> set (sm_request_id sm2)"
    and "(sm_bound_customer sm, sm_request_id sm) \<noteq> (sm_bound_customer sm2, sm_request_id sm2)"
    and "sm_aad sm2 = Inr a2"
  shows "sm_open_slot A sm2 s (the (map_of (sm_encrypted sm') (e_synthetic e))) = Inl InvalidTag"
proof -
  from assms(5) obtain p a where pa: "sm_aad sm = Inr a"
      "map_of (sm_encrypted sm') (e_synthetic e) = Some (n, ae_encrypt A (sm_key sm) n p a)"
    by (auto simp: sm_add_Inr)
  have "a \<noteq> a2"
    using assms(6-9) aad_inj [of "sm_request_id sm" "sm_request_id sm2"] pa(1)
    by (auto simp: sm_aad_def dest: utf8_inj)
  then have "ae_decrypt A (sm_key sm) n (ae_encrypt A (sm_key sm) n p a) a2 = Inl InvalidTag"
    using assms(1,2,4) unfolding aead_binds_def nonce_bytes_def by blast
  with pa(2) assms(3,9) show ?thesis by (simp add: sm_open_slot_def)
qed

section \<open>Witnesses\<close>

text \<open>
  A cipher that meets both laws of the package (it authenticates the associated data by
  carrying it, and hides nothing), a customer, and a registry with one open map.
\<close>

definition sample_aead :: aead where
  "sample_aead = \<lparr>ae_encrypt = (\<lambda>key nonce data aad. length aad # aad @ data),
     ae_decrypt = (\<lambda>key nonce ct aad.
       if prefix (length aad # aad) ct then Inr (drop (Suc (length aad)) ct) else Inl InvalidTag)\<rparr>"

lemma sample_aead_laws: "aead_ok sample_aead" "aead_binds sample_aead"
  by (auto simp: aead_ok_def aead_binds_def sample_aead_def append_eq_append_conv elim!: prefixE)

definition sample_customer :: customer_context where
  "sample_customer = \<lparr>cc_customer_id = lit ''acme'', cc_country_code = lit ''DZ'', cc_plan = Starter\<rparr>"

definition sample_map :: session_map where
  "sample_map = \<lparr>sm_key = replicate 32 7, sm_customer_id = lit ''acme'', sm_request_id = lit ''r1'',
     sm_created_at = 0, sm_last_access = 0, sm_encrypted = [], sm_purged = False,
     sm_bound_customer = lit ''acme''\<rparr>"

lemma sample_map_new:
  "new_session_map (Some sample_customer) 0 (replicate 32 7) (lit ''acme'') (lit ''r1'') = Inr sample_map"
  by (simp add: new_session_map_def require_customer_def sample_map_def)

definition sample_entry :: session_map_entry where
  "sample_entry = \<lparr>e_original = [65, 31, 66], e_synthetic = lit ''X'', e_entity_type = lit ''person''\<rparr>"

lemma sample_add: "\<exists>m'. sm_add sample_aead (replicate 12 1) 5 sample_entry sample_map = Inr m'"
  by (simp add: sm_add_Inr sample_map_def sample_entry_def sm_aad_def utf8_encode_def scalar_ascii)

lemma session_lookup_witness:
  "\<exists>m'. foldE (\<lambda>(n, t, e). sm_add sample_aead n t e) [(replicate 12 1, 5, sample_entry)] sample_map = Inr m' \<and>
    fst (sm_reverse sample_aead 9 (lit ''X'') m') = Inr (Some sample_entry)"
proof -
  obtain m' where m': "foldE (\<lambda>(n, t, e). sm_add sample_aead n t e)
      [(replicate 12 1, 5, sample_entry)] sample_map = Inr m'"
    using sample_add by auto
  from session_lookup [OF sample_aead_laws(1) sample_map_new m', of 9 "lit ''X''"] m'
  show ?thesis by (auto simp: nonce_bytes_def entry_ok_def sample_entry_def)
qed

definition sample_store :: session_store where
  "sample_store = \<lparr>ss_key = replicate 32 7, ss_idle_timeout_s = 1800, ss_maps = [(lit ''r1'', 0)],
     ss_heap = [sample_map]\<rparr>"

lemma sample_store_reachable:
  "store_reachable sample_aead (empty_store (replicate 32 7) 1800) sample_store"
proof (rule store_reachable.step [OF store_reachable.start])
  have "store_open (Some sample_customer) 0 (lit ''r1'') (empty_store (replicate 32 7) 1800) =
      Inr (0, sample_store)"
    using sample_map_new
    by (simp add: store_open_def empty_store_def require_customer_def sample_store_def)
      (simp add: sample_customer_def)
  then show "store_step sample_aead (empty_store (replicate 32 7) 1800) sample_store"
    by (rule store_step.opens [rotated]) (simp add: empty_store_def)
qed

lemma registry_forgets_nothing_live_witness:
  "(\<exists>rid. map_of (ss_maps sample_store) rid = Some 0) \<or>
    sm_purged (ss_heap sample_store ! 0) \<and> sm_encrypted (ss_heap sample_store ! 0) = []"
  by (rule registry_forgets_nothing_live [OF sample_store_reachable]) (simp add: sample_store_def)


lemma sweep_exact_witness:
  "ss_maps (snd (sweep_idle 1800 sample_store)) = [] \<and> fst (sweep_idle 1800 sample_store) = 1"
proof -
  have f: "float_sub 1800 0 = 1800"
    using to_double_eq [of 1800 10 7916483719987200]
    by (simp add: float_sub_def power_int_def field_simps)
  have "store_ok sample_store" using reachable_ok [OF sample_store_reachable empty_store_ok] .
  from sweep_exact [OF this, of 1800 "fst (sweep_idle 1800 sample_store)" "snd (sweep_idle 1800 sample_store)"]
  show ?thesis by (auto simp: sample_store_def sm_is_idle_def sample_map_def f)
qed

lemma replayed_slot_rejected_witness:
  "\<exists>m'. sm_add sample_aead (replicate 12 1) 5 sample_entry sample_map = Inr m' \<and>
    sm_open_slot sample_aead (sample_map\<lparr>sm_bound_customer := lit ''evil''\<rparr>) (lit ''X'')
      (the (map_of (sm_encrypted m') (lit ''X''))) = Inl InvalidTag"
proof -
  obtain m' where m': "sm_add sample_aead (replicate 12 1) 5 sample_entry sample_map = Inr m'"
    using sample_add by blast
  obtain a where "sm_aad (sample_map\<lparr>sm_bound_customer := lit ''evil''\<rparr>) = Inr a"
    by (simp add: sm_aad_def sample_map_def utf8_encode_def scalar_ascii)
  with replayed_slot_rejected [OF sample_aead_laws(2) _ _ _ m', of "sample_map\<lparr>sm_bound_customer := lit ''evil''\<rparr>" a
      "lit ''X''"] m'
  show ?thesis by (simp add: sample_map_def nonce_bytes_def sample_entry_def)
qed

end
