(* ===== verification/Substitution.thy ===== *)
theory Substitution
  imports Merge Synthetic SessionMap
begin

text \<open>
  \<open>src/substitution/engine.py\<close>: forward substitution, which replaces the accepted spans by
  synthetic values and records them, and reverse substitution, which rewrites a response. The
  random nonces, clock readings and tokens drawn while a text is processed are the streams of
  \<open>draws\<close>. A raised exception leaves the session map with the entries added so far, so the
  operations return it in every case.
\<close>

record draws =
  dr_nonce :: "nat \<Rightarrow> bytes"
  dr_clock :: "nat \<Rightarrow> rat"
  dr_token :: "nat \<Rightarrow> ustr"

record forward_result =
  fr_sanitised_text :: ustr
  fr_components_by_synthetic :: "(ustr, component list) dict"
  fr_detection_count :: nat

section \<open>Forward\<close>

fun apply_loop ::
    "aead \<Rightarrow> packs \<Rightarrow> draws \<Rightarrow> ustr \<Rightarrow> ustr \<Rightarrow> ustr \<Rightarrow> detection list \<Rightarrow> nat \<Rightarrow> int \<Rightarrow> ustr list \<Rightarrow>
      (ustr, component list) dict \<Rightarrow> session_map \<Rightarrow>
      (int \<times> ustr list \<times> (ustr, component list) dict) res \<times> session_map" where
  "apply_loop A packs g text cc salt [] i cursor parts comps sm = (Inr (cursor, parts, comps), sm)"
| "apply_loop A packs g text cc salt (d # ds) i cursor parts comps sm =
     (if d_start d < cursor then apply_loop A packs g text cc salt ds i cursor parts comps sm
      else case synthetic_for packs (dr_token g i) (d_entity_type d) (d_text d) cc (Some salt) of
             Inl e \<Rightarrow> (Inl e, sm)
           | Inr synthetic \<Rightarrow>
               (case sm_add A (dr_nonce g i) (dr_clock g i)
                       \<lparr>e_original = d_text d, e_synthetic = synthetic,
                        e_entity_type = entity_name (d_entity_type d)\<rparr> sm of
                  Inl e \<Rightarrow> (Inl e, sm)
                | Inr sm' \<Rightarrow>
                    apply_loop A packs g text cc salt ds (Suc i) (d_end d)
                      (parts @ [py_slice text cursor (d_start d), synthetic])
                      (dict_set synthetic (decompose (d_entity_type d) (d_text d) synthetic) comps) sm'))"

definition apply_substitution ::
    "aead \<Rightarrow> packs \<Rightarrow> draws \<Rightarrow> ustr \<Rightarrow> detection list \<Rightarrow> session_map \<Rightarrow> ustr \<Rightarrow> ustr \<Rightarrow>
      forward_result res \<times> session_map" where
  "apply_substitution A packs g original_text detections sm country_code salt =
     (case apply_loop A packs g original_text country_code salt (sort_key d_start detections) 0 0 [] [] sm of
        (Inl e, sm') \<Rightarrow> (Inl e, sm')
      | (Inr (cursor, parts, comps), sm') \<Rightarrow>
          (Inr \<lparr>fr_sanitised_text = concat (parts @ [slice_from original_text cursor]),
             fr_components_by_synthetic = comps, fr_detection_count = length detections\<rparr>, sm'))"

section \<open>Reverse\<close>

record reverse_result =
  rr_text :: ustr
  rr_direct_reversed :: nat
  rr_component_reversed :: nat
  rr_novel_entities :: "ustr list"

type_synonym candidate = "ustr \<times> ustr \<times> bool"

definition component_candidate :: "component \<Rightarrow> candidate" where
  "component_candidate c = (c_surface c, c_original_surface c, c_kind c = lit ''full'')"

fun candidates_loop ::
    "aead \<Rightarrow> (nat \<Rightarrow> rat) \<Rightarrow> nat \<Rightarrow> (ustr, component list) dict \<Rightarrow> session_map \<Rightarrow>
      candidate list res \<times> session_map" where
  "candidates_loop A clock i [] sm = (Inr [], sm)"
| "candidates_loop A clock i ((synthetic, comps) # rest) sm =
     (if comps = []
      then case sm_reverse A (clock i) synthetic sm of
             (Inl e, sm') \<Rightarrow> (Inl e, sm')
           | (Inr entry, sm') \<Rightarrow>
               (case candidates_loop A clock (Suc i) rest sm' of
                  (Inl e, sm'') \<Rightarrow> (Inl e, sm'')
                | (Inr cs, sm'') \<Rightarrow>
                    (Inr ((case entry of None \<Rightarrow> [] | Some en \<Rightarrow> [(synthetic, e_original en, True)]) @ cs), sm''))
      else case candidates_loop A clock i rest sm of
             (Inl e, sm') \<Rightarrow> (Inl e, sm')
           | (Inr cs, sm') \<Rightarrow> (Inr (map component_candidate comps @ cs), sm'))"

definition longest_first :: "candidate list \<Rightarrow> candidate list" where
  "longest_first cs = sort_key (\<lambda>c. - int (length (fst c))) cs"

text \<open>The replacement loop, with its two counters.\<close>

fun replace_loop :: "candidate list \<Rightarrow> ustr \<Rightarrow> nat \<Rightarrow> nat \<Rightarrow> ustr \<times> nat \<times> nat" where
  "replace_loop [] text direct partial_count = (text, direct, partial_count)"
| "replace_loop ((surface, original, is_full) # cs) text direct partial_count =
     (if surface \<noteq> [] \<and> contained surface text
      then replace_loop cs (py_replace text surface original)
             (if is_full then Suc direct else direct) (if is_full then partial_count else Suc partial_count)
      else replace_loop cs text direct partial_count)"

fun novel_loop :: "ustr list \<Rightarrow> ustr \<Rightarrow> ustr \<Rightarrow> ustr list \<Rightarrow> ustr list" where
  "novel_loop known text response [] = []"
| "novel_loop known text response (ent # ents) =
     (if ent \<noteq> [] \<and> ent \<notin> set known \<and> \<not> contained ent text then novel_loop known text response ents
      else if ent \<noteq> [] \<and> ent \<notin> set known \<and> contained ent response
      then ent # novel_loop known text response ents
      else novel_loop known text response ents)"

definition reverse_substitution ::
    "aead \<Rightarrow> (nat \<Rightarrow> rat) \<Rightarrow> ustr \<Rightarrow> session_map \<Rightarrow> (ustr, component list) dict \<Rightarrow> ustr list \<Rightarrow>
      reverse_result res \<times> session_map" where
  "reverse_substitution A clock response_text sm comps ner_entities =
     (case candidates_loop A clock 0 comps sm of
        (Inl e, sm') \<Rightarrow> (Inl e, sm')
      | (Inr found, sm') \<Rightarrow>
          let cs = longest_first found;
              (text, direct, partial_count) = replace_loop cs response_text 0 0
          in (Inr \<lparr>rr_text = text, rr_direct_reversed = direct, rr_component_reversed = partial_count,
                rr_novel_entities = novel_loop (map fst cs) text response_text ner_entities\<rparr>, sm'))"

section \<open>What forward substitution computes\<close>

text \<open>The text with each span replaced by its value.\<close>

fun weave :: "ustr \<Rightarrow> int \<Rightarrow> (detection \<times> ustr) list \<Rightarrow> ustr" where
  "weave text cursor [] = slice_from text cursor"
| "weave text cursor ((d, v) # rest) =
     py_slice text cursor (d_start d) @ v @ weave text (d_end d) rest"

text \<open>The session map entry and the component list of a detection and its synthetic value.\<close>

definition entry_for :: "detection \<Rightarrow> ustr \<Rightarrow> session_map_entry" where
  "entry_for d s = \<lparr>e_original = d_text d, e_synthetic = s,
     e_entity_type = entity_name (d_entity_type d)\<rparr>"

definition components_for :: "(detection \<times> ustr) list \<Rightarrow> (ustr, component list) dict \<Rightarrow> (ustr, component list) dict" where
  "components_for xs comps =
     fold (\<lambda>(d, s). dict_set s (decompose (d_entity_type d) (d_text d) s)) xs comps"

definition additions :: "draws \<Rightarrow> nat \<Rightarrow> (detection \<times> ustr) list \<Rightarrow> (bytes \<times> rat \<times> session_map_entry) list" where
  "additions g i xs =
     map (\<lambda>(j, d, s). (dr_nonce g j, dr_clock g j, entry_for d s)) (enumerate i xs)"

text \<open>Spans that ascend from the cursor on and stay in the text.\<close>

fun spans_from :: "ustr \<Rightarrow> int \<Rightarrow> detection list \<Rightarrow> bool" where
  "spans_from text cursor [] = (0 \<le> cursor \<and> cursor \<le> int (length text))"
| "spans_from text cursor (d # ds) =
     (0 \<le> cursor \<and> cursor \<le> d_start d \<and> span_in text d \<and> spans_from text (d_end d) ds)"

lemma spans_from_cursor: "spans_from text c ds \<Longrightarrow> 0 \<le> c \<and> c \<le> int (length text)"
  by (cases ds) (auto simp: span_in_def)

lemma spans_from_span: "spans_from text c ds \<Longrightarrow> d \<in> set ds \<Longrightarrow> span_in text d"
  by (induction ds arbitrary: c) auto

lemma spans_fromI:
  "disjoint_spans ds \<Longrightarrow> \<forall>d \<in> set ds. span_in text d \<Longrightarrow> (\<forall>d \<in> set ds. c \<le> d_start d) \<Longrightarrow> 0 \<le> c \<Longrightarrow>
   c \<le> int (length text) \<Longrightarrow> spans_from text c ds"
  by (induction ds arbitrary: c) (auto simp: disjoint_spans_def span_in_def)

lemma disjoint_sort_start:
  assumes "disjoint_spans ds" "\<forall>d \<in> set ds. span_in text d"
  shows "sort_key d_start ds = ds"
proof (rule sort_key_id_if_sorted)
  show "sorted (map d_start ds)"
    using assms unfolding disjoint_spans_def
    by (induction ds) (fastforce simp: span_in_def)+
qed

text \<open>Weaving the originals back gives the text.\<close>

lemma weave_originals:
  "spans_from text c ds \<Longrightarrow> weave text c (zip ds (map d_text ds)) = slice_from text c"
proof (induction ds arbitrary: c)
  case (Cons d ds)
  then have d: "0 \<le> c" "c \<le> d_start d" "d_start d < d_end d" "d_end d \<le> int (length text)"
      "py_slice text (d_start d) (d_end d) = d_text d"
    by (auto simp: span_in_def)
  have "slice_from text c = py_slice text c (d_start d) @ slice_from text (d_start d)"
    using d by (simp add: py_slice_from_split)
  also have "slice_from text (d_start d) = d_text d @ slice_from text (d_end d)"
    using py_slice_from_split [of "d_start d" "d_end d" "text"] d by simp
  finally show ?case using Cons by simp
qed simp

lemma apply_loop_Inr:
  assumes "spans_from text c ds"
    and "apply_loop A packs g text cc salt ds i c parts comps sm = (Inr (cur, parts', comps'), sm')"
  shows "\<exists>syns. list_all2 (\<lambda>(j, d) s. synthetic_for packs (dr_token g j) (d_entity_type d) (d_text d) cc
        (Some salt) = Inr s) (enumerate i ds) syns \<and>
      concat (parts' @ [slice_from text cur]) = concat parts @ weave text c (zip ds syns) \<and>
      comps' = components_for (zip ds syns) comps \<and>
      foldE (\<lambda>(n, t, e). sm_add A n t e) (additions g i (zip ds syns)) sm = Inr sm'"
  using assms
proof (induction ds arbitrary: i c parts comps sm)
  case Nil
  then show ?case by (auto simp: components_for_def additions_def)
next
  case (Cons d ds)
  from Cons.prems(1) have c: "\<not> d_start d < c" "spans_from text (d_end d) ds" by auto
  from Cons.prems(2) c(1) obtain s where
    s: "synthetic_for packs (dr_token g i) (d_entity_type d) (d_text d) cc (Some salt) = Inr s"
    by (auto split: sum.splits)
  from Cons.prems(2) c(1) s obtain sm1 where
    sm1: "sm_add A (dr_nonce g i) (dr_clock g i) (entry_for d s) sm = Inr sm1"
    by (auto simp: entry_for_def split: sum.splits)
  have "apply_loop A packs g text cc salt ds (Suc i) (d_end d)
      (parts @ [py_slice text c (d_start d), s])
      (dict_set s (decompose (d_entity_type d) (d_text d) s) comps) sm1 = (Inr (cur, parts', comps'), sm')"
    using Cons.prems(2) c(1) s sm1 by (simp add: entry_for_def)
  from Cons.IH [OF c(2) this] obtain syns where syns:
    "list_all2 (\<lambda>(j, d) s. synthetic_for packs (dr_token g j) (d_entity_type d) (d_text d) cc
        (Some salt) = Inr s) (enumerate (Suc i) ds) syns"
    "concat (parts' @ [slice_from text cur]) =
       concat (parts @ [py_slice text c (d_start d), s]) @ weave text (d_end d) (zip ds syns)"
    "comps' = components_for (zip ds syns) (dict_set s (decompose (d_entity_type d) (d_text d) s) comps)"
    "foldE (\<lambda>(n, t, e). sm_add A n t e) (additions g (Suc i) (zip ds syns)) sm1 = Inr sm'"
    by blast
  show ?case
    by (rule exI [of _ "s # syns"])
      (use s sm1 syns in \<open>auto simp: components_for_def additions_def\<close>)
qed

text \<open>The synthetic values of the detections of a request, in their order.\<close>

abbreviation synthetic_values :: "packs \<Rightarrow> draws \<Rightarrow> ustr \<Rightarrow> ustr \<Rightarrow> detection list \<Rightarrow> ustr list \<Rightarrow> bool" where
  "synthetic_values packs g cc salt ds syns \<equiv>
     list_all2 (\<lambda>(j, d) s. synthetic_for packs (dr_token g j) (d_entity_type d) (d_text d) cc (Some salt) = Inr s)
       (enumerate 0 ds) syns"

lemma apply_substitution_Inr:
  assumes "spans_from text 0 ds" "disjoint_spans ds"
    and "apply_substitution A packs g text ds sm cc salt = (Inr fr, sm')"
  shows "\<exists>syns. list_all2 (\<lambda>(j, d) s. synthetic_for packs (dr_token g j) (d_entity_type d) (d_text d) cc
        (Some salt) = Inr s) (enumerate 0 ds) syns \<and>
      fr_sanitised_text fr = weave text 0 (zip ds syns) \<and>
      fr_components_by_synthetic fr = components_for (zip ds syns) [] \<and>
      fr_detection_count fr = length ds \<and>
      foldE (\<lambda>(n, t, e). sm_add A n t e) (additions g 0 (zip ds syns)) sm = Inr sm'"
proof -
  have span: "\<forall>d \<in> set ds. span_in text d"
    using spans_from_span [OF assms(1)] by blast
  from assms(3) obtain cur parts comps where
    l: "apply_loop A packs g text cc salt ds 0 0 [] [] sm = (Inr (cur, parts, comps), sm')"
    and fr: "fr = \<lparr>fr_sanitised_text = concat (parts @ [slice_from text cur]),
      fr_components_by_synthetic = comps, fr_detection_count = length ds\<rparr>"
    by (auto simp: apply_substitution_def disjoint_sort_start [OF assms(2) span]
        split: prod.splits sum.splits)
  from apply_loop_Inr [OF assms(1) l] show ?thesis by (auto simp: fr)
qed

lemma apply_loop_total:
  assumes "spans_from text c ds" "\<not> sm_purged sm" "sm_aad sm = Inr a"
    and "\<forall>d \<in> set ds. \<forall>x \<in> set (d_text d). scalar x" "\<forall>x \<in> set cc. scalar x" "\<forall>x \<in> set salt. scalar x"
    and "salt \<noteq> []"
  shows "\<exists>r sm'. apply_loop A packs g text cc salt ds i c parts comps sm = (Inr r, sm')"
  using assms(1-4)
proof (induction ds arbitrary: i c parts comps sm)
  case (Cons d ds)
  from Cons.prems(1) have c: "\<not> d_start d < c" "spans_from text (d_end d) ds" by auto
  have sc: "\<forall>x \<in> set (synthetic_seed (dr_token g i) et (d_text d) cc (Some salt)). scalar x" for et
  proof -
    have "synthetic_seed (dr_token g i) et (d_text d) cc (Some salt) = synthetic_seed [] et (d_text d) cc (Some salt)"
      using assms(7) by (simp add: synthetic_seed_def truthy_str_def)
    then show ?thesis using Cons.prems(4) assms(5,6)
      by (simp only:) (rule synthetic_seed_scalar, auto)
  qed
  obtain s where
    s: "synthetic_for packs (dr_token g i) (d_entity_type d) (d_text d) cc (Some salt) = Inr s"
    using synthetic_of_type_total [OF sc, of "pack_for packs cc" "d_entity_type d" cc "d_entity_type d" "d_text d"]
    by (auto simp: synthetic_for_def Let_def)
  have "\<forall>x \<in> set (entity_name (d_entity_type d) @ [31] @ d_text d). scalar x"
    using Cons.prems(4) entity_name_ascii [of _ "d_entity_type d"] by (fastforce intro: scalar_ascii)
  then obtain p where "utf8_encode (e_entity_type (entry_for d s) @ [31] @ e_original (entry_for d s)) = Inr p"
    unfolding entry_for_def using utf8_encode_scalar by fastforce
  then obtain sm1 where sm1: "sm_add A (dr_nonce g i) (dr_clock g i) (entry_for d s) sm = Inr sm1"
      "\<not> sm_purged sm1" "sm_aad sm1 = Inr a"
    using Cons.prems(2,3) by (simp add: sm_add_Inr)
  from Cons.IH [OF c(2) sm1(2,3)] Cons.prems(4) c(1) s sm1(1) show ?case
    by (simp add: entry_for_def)
qed simp

section \<open>What reverse substitution computes\<close>

definition all_candidates :: "(ustr, component list) dict \<Rightarrow> candidate list" where
  "all_candidates comps = concat (map (\<lambda>(s, cs). map component_candidate cs) comps)"

lemma candidates_loop_components:
  "\<forall>(s, cs) \<in> set comps. cs \<noteq> [] \<Longrightarrow> candidates_loop A clock i comps sm = (Inr (all_candidates comps), sm)"
  by (induction comps arbitrary: i) (auto simp: all_candidates_def)

lemma components_for_nonempty:
  "\<forall>(s, cs) \<in> set comps. cs \<noteq> [] \<Longrightarrow> \<forall>(s, cs) \<in> set (components_for xs comps). cs \<noteq> []"
proof (induction xs arbitrary: comps)
  case (Cons x xs)
  obtain d s where x: "x = (d, s)" by (cases x) auto
  have "cs \<noteq> []" if "(k, cs) \<in> set (dict_set s (decompose (d_entity_type d) (d_text d) s) comps)" for k cs
    using in_set_dict_set [OF that] Cons.prems decompose_nonempty [of "d_entity_type d" "d_text d" s]
    by auto
  then have "\<forall>(k, cs) \<in> set (dict_set s (decompose (d_entity_type d) (d_text d) s) comps). cs \<noteq> []"
    by blast
  from Cons.IH [OF this] show ?case by (simp add: components_for_def x)
qed (simp add: components_for_def)

lemma set_longest_first [simp]: "set (longest_first cs) = set cs"
  by (simp add: longest_first_def)

text \<open>
  A response as a sequence of literal pieces and occurrences of candidate surfaces. At stage
  \<open>k\<close> the first \<open>k\<close> candidates have been replaced.
\<close>

datatype piece = Lit ustr | Syn nat

fun piece_text :: "candidate list \<Rightarrow> nat \<Rightarrow> piece \<Rightarrow> ustr" where
  "piece_text cs k (Lit s) = s"
| "piece_text cs k (Syn j) = (if j < k then fst (snd (cs ! j)) else fst (cs ! j))"

definition render :: "candidate list \<Rightarrow> nat \<Rightarrow> piece list \<Rightarrow> ustr" where
  "render cs k ps = concat (map (piece_text cs k) ps)"

text \<open>At stage \<open>k\<close> the surface of candidate \<open>k\<close> begins nowhere but at its own pieces.\<close>

fun only_at :: "candidate list \<Rightarrow> nat \<Rightarrow> piece list \<Rightarrow> bool" where
  "only_at cs k [] = True"
| "only_at cs k (p # ps) =
     ((p = Syn k \<or> (\<forall>i < length (piece_text cs k p).
         \<not> prefix (fst (cs ! k)) (drop i (piece_text cs k p @ render cs k ps)))) \<and> only_at cs k ps)"

definition unambiguous :: "candidate list \<Rightarrow> piece list \<Rightarrow> bool" where
  "unambiguous cs ps = (\<forall>k < length cs. only_at cs k ps)"

lemma replace_all_skip:
  "old \<noteq> [] \<Longrightarrow> \<forall>i < length w. \<not> prefix old (drop i (w @ r)) \<Longrightarrow>
   replace_all old new (w @ r) = w @ replace_all old new r"
proof (induction w)
  case (Cons c w)
  have "\<not> prefix old (c # w @ r)" using Cons.prems(2) by fastforce
  moreover have "\<forall>i < length w. \<not> prefix old (drop i (w @ r))"
    using Cons.prems(2) by fastforce
  ultimately show ?case using Cons by (simp add: replace_all_step)
qed simp

lemma replace_stage:
  assumes "fst (cs ! k) \<noteq> []"
  shows "only_at cs k ps \<Longrightarrow> replace_all (fst (cs ! k)) (fst (snd (cs ! k))) (render cs k ps) = render cs (Suc k) ps"
proof (induction ps)
  case (Cons p ps)
  show ?case
  proof (cases "p = Syn k")
    case True
    then show ?thesis
      using Cons assms by (simp add: render_def replace_all_match)
  next
    case False
    then have "piece_text cs (Suc k) p = piece_text cs k p" by (cases p) auto
    then show ?thesis
      using Cons False assms replace_all_skip [of "fst (cs ! k)" "piece_text cs k p" "render cs k ps"]
      by (simp add: render_def)
  qed
qed (simp add: render_def)

lemma replace_loop_stages:
  assumes "\<forall>c \<in> set cs. fst c \<noteq> []" "unambiguous cs ps" "k \<le> length cs"
  shows "fst (replace_loop (drop k cs) (render cs k ps) m n) = render cs (length cs) ps"
  using assms(3)
proof (induction "length cs - k" arbitrary: k m n)
  case (Suc x)
  then have k: "k < length cs" by simp
  obtain surface original is_full where c: "cs ! k = (surface, original, is_full)" by (cases "cs ! k") auto
  have ne: "surface \<noteq> []" using assms(1) nth_mem [OF k] c by (metis fst_conv)
  have st: "replace_all surface original (render cs k ps) = render cs (Suc k) ps"
    using replace_stage [of cs k ps] assms(2) k c ne by (simp add: unambiguous_def)
  have "fst (replace_loop (drop (Suc k) cs) (render cs (Suc k) ps) m' n') = render cs (length cs) ps" for m' n'
    using Suc.hyps(1) [of "Suc k"] Suc.hyps(2) k by simp
  moreover have "drop k cs = (surface, original, is_full) # drop (Suc k) cs"
    using Cons_nth_drop_Suc [OF k] c by simp
  moreover have "render cs (Suc k) ps = render cs k ps" if "\<not> contained surface (render cs k ps)"
    using replace_all_absent [OF that, of original] st by simp
  ultimately show ?case using ne st by (auto simp: py_replace_def)
qed simp

section \<open>Substitution behind a resolver\<close>

context span_resolver begin

text \<open>What a resolver returns is what forward substitution needs.\<close>

lemma resolved_spans: "resolve s ds = Inr out \<Longrightarrow> spans_from s 0 out"
  using resolve_disjoint resolve_span by (intro spans_fromI) (auto simp: span_in_def)

lemma resolved_weave:
  assumes "resolve s ds = Inr out" and "apply_substitution A packs g s out sm cc salt = (Inr fr, sm')"
  shows "\<exists>syns. synthetic_values packs g cc salt out syns \<and> fr_sanitised_text fr = weave s 0 (zip out syns)"
  using apply_substitution_Inr [OF resolved_spans [OF assms(1)] resolve_disjoint [OF assms(1)] assms(2)]
  by blast

end

section \<open>Echoed responses\<close>

definition index_of :: "'a list \<Rightarrow> 'a \<Rightarrow> nat" where
  "index_of xs x = length (takeWhile (\<lambda>y. y \<noteq> x) xs)"

lemma index_of_nth: "x \<in> set xs \<Longrightarrow> index_of xs x < length xs \<and> xs ! index_of xs x = x"
  unfolding index_of_def by (induction xs) auto

text \<open>The sanitised text as pieces: the text between the spans, and the full forms.\<close>

fun echo_pieces :: "candidate list \<Rightarrow> ustr \<Rightarrow> int \<Rightarrow> (detection \<times> ustr) list \<Rightarrow> piece list" where
  "echo_pieces cs text cursor [] = [Lit (slice_from text cursor)]"
| "echo_pieces cs text cursor ((d, s) # rest) =
     Lit (py_slice text cursor (d_start d)) # Syn (index_of cs (s, d_text d, True)) #
     echo_pieces cs text (d_end d) rest"

lemma echo_render:
  assumes "\<forall>(d, s) \<in> set xs. (s, d_text d, True) \<in> set cs"
  shows "render cs 0 (echo_pieces cs text c xs) = weave text c xs"
    "render cs (length cs) (echo_pieces cs text c xs) = weave text c (map (\<lambda>(d, s). (d, d_text d)) xs)"
  using assms index_of_nth
  by (induction cs "text" c xs rule: echo_pieces.induct) (fastforce simp: render_def)+

lemma map_of_components_for:
  "map_of (components_for xs comps) s =
    (case find (\<lambda>(d, s'). s' = s) (rev xs) of
       Some (d, s') \<Rightarrow> Some (decompose (d_entity_type d) (d_text d) s) | None \<Rightarrow> map_of comps s)"
proof (induction xs rule: rev_induct)
  case (snoc x xs)
  then show ?case by (cases x) (auto simp: components_for_def)
qed (simp add: components_for_def)

text \<open>Without collisions the full form of every detection is a candidate.\<close>

lemma full_candidate:
  assumes "(d, s) \<in> set xs"
    and "\<forall>(d, s) \<in> set xs. \<forall>(d', s') \<in> set xs. s = s' \<longrightarrow> d_text d = d_text d'"
  shows "(s, d_text d, True) \<in> set (all_candidates (components_for xs []))"
proof -
  have "find (\<lambda>(d, s'). s' = s) (rev xs) \<noteq> None"
    using assms(1) by (auto simp: find_None_iff)
  then obtain x where x: "find (\<lambda>(d, s'). s' = s) (rev xs) = Some x" by blast
  then have "snd x = s" using find_SomeD by fastforce
  with x obtain d' where d': "find (\<lambda>(d, s'). s' = s) (rev xs) = Some (d', s)"
    by (cases x) auto
  then have "(d', s) \<in> set xs" by (metis (mono_tags, lifting) find_Some_iff nth_mem set_rev)
  with assms have t: "d_text d' = d_text d" by fastforce
  have "map_of (components_for xs []) s = Some (decompose (d_entity_type d') (d_text d) s)"
    using d' t by (simp add: map_of_components_for)
  then have "(s, decompose (d_entity_type d') (d_text d) s) \<in> set (components_for xs [])"
    by (rule map_of_SomeD)
  moreover have "(s, d_text d, True) \<in> component_candidate ` set (decompose (d_entity_type d') (d_text d) s)"
    using decompose_full [of "d_entity_type d'" "d_text d" s]
    by (auto simp: component_candidate_def intro!: image_eqI [of _ _ "mk_component s (d_text d) (lit ''full'') None"])
  ultimately show ?thesis by (force simp: all_candidates_def)
qed

lemma reverse_of_components:
  assumes "\<forall>(s, cs) \<in> set comps. cs \<noteq> []"
  shows "reverse_substitution A clock response sm comps ner =
    (let cs = longest_first (all_candidates comps);
         (text, direct, n) = replace_loop cs response 0 0
     in (Inr \<lparr>rr_text = text, rr_direct_reversed = direct, rr_component_reversed = n,
           rr_novel_entities = novel_loop (map fst cs) text response ner\<rparr>, sm))"
  by (simp add: reverse_substitution_def candidates_loop_components [OF assms])

lemma reverse_text:
  assumes "\<forall>(s, cs) \<in> set comps. cs \<noteq> []"
  shows "\<exists>r. reverse_substitution A clock response sm comps ner = (Inr r, sm) \<and>
    rr_text r = fst (replace_loop (longest_first (all_candidates comps)) response 0 0)"
  by (simp add: reverse_of_components [OF assms] Let_def split: prod.splits)

lemma apply_total:
  assumes "disjoint_spans ds" and "\<forall>d \<in> set ds. span_in text d"
    and "\<not> sm_purged sm" and "sm_aad sm = Inr a" and "salt \<noteq> []"
    and "\<forall>d \<in> set ds. \<forall>x \<in> set (d_text d). scalar x" and "\<forall>x \<in> set (cc @ salt). scalar x"
  shows "\<exists>fr sm'. apply_substitution A packs g text ds sm cc salt = (Inr fr, sm')"
proof -
  have sp: "spans_from text 0 ds" using assms(1,2) by (intro spans_fromI) (auto simp: span_in_def)
  have "\<forall>x \<in> set cc. scalar x" "\<forall>x \<in> set salt. scalar x" using assms(7) by auto
  from apply_loop_total [OF sp assms(3,4,6) this assms(5)]
  obtain r sm' where "apply_loop A packs g text cc salt ds 0 0 [] [] sm = (Inr r, sm')" by blast
  then show ?thesis
    by (cases r) (auto simp: apply_substitution_def disjoint_sort_start [OF assms(1,2)])
qed

lemma echo_reverse:
  assumes "disjoint_spans ds" and "\<forall>d \<in> set ds. span_in text d"
    and "apply_substitution A packs g text ds sm cc salt = (Inr fr, sm')"
    and "list_all2 (\<lambda>(j, d) s. synthetic_for packs (dr_token g j) (d_entity_type d) (d_text d) cc (Some salt) = Inr s)
      (enumerate 0 ds) syns"
    and "\<forall>(d, s) \<in> set (zip ds syns). \<forall>(d', s') \<in> set (zip ds syns). s = s' \<longrightarrow> d_text d = d_text d'"
    and "cs = longest_first (all_candidates (fr_components_by_synthetic fr))"
    and "\<forall>c \<in> set cs. fst c \<noteq> []" and "unambiguous cs (echo_pieces cs text 0 (zip ds syns))"
  shows "\<exists>r. reverse_substitution A clock (fr_sanitised_text fr) sm' (fr_components_by_synthetic fr) ner = (Inr r, sm') \<and>
    rr_text r = text"
proof -
  have sp: "spans_from text 0 ds" using assms(1,2) by (intro spans_fromI) (auto simp: span_in_def)
  from apply_substitution_Inr [OF sp assms(1,3)] obtain syns' where
    f: "list_all2 (\<lambda>(j, d) s. synthetic_for packs (dr_token g j) (d_entity_type d) (d_text d) cc (Some salt) = Inr s)
          (enumerate 0 ds) syns'"
       "fr_sanitised_text fr = weave text 0 (zip ds syns')"
       "fr_components_by_synthetic fr = components_for (zip ds syns') []" by blast
  have "syns' = syns"
    by (rule list_all2_functional [OF f(1) assms(4)]) auto
  note f = f [unfolded this]
  have full: "\<forall>(d, s) \<in> set (zip ds syns). (s, d_text d, True) \<in> set cs"
    using full_candidate [OF _ assms(5)] f(3) assms(6) by auto
  have len: "length syns = length ds" using list_all2_lengthD [OF assms(4)] by simp
  have "render cs (length cs) (echo_pieces cs text 0 (zip ds syns)) = weave text 0 (zip ds (map d_text ds))"
    using len unfolding echo_render(2) [OF full]
    by (intro arg_cong [of _ _ "weave text 0"] nth_equalityI) auto
  also have "\<dots> = text" using weave_originals [OF sp] by (simp add: slice_from_in_bounds)
  finally have "render cs (length cs) (echo_pieces cs text 0 (zip ds syns)) = text" .
  moreover have "\<forall>(s, l) \<in> set (fr_components_by_synthetic fr). l \<noteq> []"
    unfolding f(3) by (rule components_for_nonempty) simp
  ultimately show ?thesis
    using reverse_text [of "fr_components_by_synthetic fr" A clock "fr_sanitised_text fr" sm' ner]
      replace_loop_stages [OF assms(7,8), of 0 0 0] echo_render(1) [OF full] f(2) assms(6) by simp
qed

section \<open>Properties\<close>

text \<open>
  After a merge, forward substitution replaces exactly the accepted spans: the sanitised
  text is the original with each accepted span replaced by the synthetic value of its text
  and every other character in place, and the session map received one entry per span, in
  order.
\<close>

theorem substitution_of_merge:
  assumes "merge cfg text ds xs = Inr r"
    and "apply_substitution A packs g text (accepted r) sm cc salt = (Inr fr, sm')"
  shows "\<exists>syns.
    list_all2 (\<lambda>(j, d) s. synthetic_for packs (dr_token g j) (d_entity_type d) (d_text d) cc (Some salt) = Inr s)
      (enumerate 0 (accepted r)) syns \<and>
    fr_sanitised_text fr = weave text 0 (zip (accepted r) syns) \<and>
    text = weave text 0 (zip (accepted r) (map d_text (accepted r))) \<and>
    foldE (\<lambda>(n, t, e). sm_add A n t e) (additions g 0 (zip (accepted r) syns)) sm = Inr sm'"
proof -
  have m: "merge_accepted cfg xs text ds = Inr (accepted r)"
    using assms(1) by (simp add: merge_accepted_def)
  note sp = merge_resolver.resolved_spans [OF m]
  have "text = weave text 0 (zip (accepted r) (map d_text (accepted r)))"
    using weave_originals [OF sp] by (simp add: slice_from_in_bounds)
  with apply_substitution_Inr [OF sp merge_resolver.resolve_disjoint [OF m] assms(2)]
  show ?thesis by blast
qed

text \<open>
  C39. Forward substitution never raises on accepted detections and a live session map, when
  the texts have a UTF-8 form.
\<close>

theorem substitution_total:
  assumes "disjoint_spans ds" and "\<forall>d \<in> set ds. span_in text d"
    and "\<not> sm_purged sm" and "sm_aad sm = Inr a" and "salt \<noteq> []"
    and "\<forall>d \<in> set ds. \<forall>x \<in> set (d_text d). scalar x" and "\<forall>x \<in> set (cc @ salt). scalar x"
  shows "\<exists>fr sm'. apply_substitution A packs g text ds sm cc salt = (Inr fr, sm')"
  using assms by (rule apply_total)

text \<open>
  A response in which the candidate surfaces occur only as such, at every stage of the
  replacement, comes back with every one of them replaced by its original and nothing else
  changed.
\<close>

theorem reverse_restores:
  assumes "\<forall>(s, l) \<in> set comps. l \<noteq> []" and "cs = longest_first (all_candidates comps)"
    and "\<forall>c \<in> set cs. fst c \<noteq> []" and "unambiguous cs ps"
  shows "\<exists>r. reverse_substitution A clock (render cs 0 ps) sm comps ner = (Inr r, sm) \<and>
    rr_text r = render cs (length cs) ps"
  using reverse_text [OF assms(1), of A clock "render cs 0 ps" sm ner]
    replace_loop_stages [OF assms(3,4), of 0 0 0] assms(2) by simp

text \<open>
  C12. The round trip: a response that echoes the sanitised text comes back as the original
  text, when no two different texts got the same synthetic value and the sanitised text is
  unambiguous.
\<close>

theorem echo_restores_text:
  assumes "disjoint_spans ds" and "\<forall>d \<in> set ds. span_in text d"
    and "apply_substitution A packs g text ds sm cc salt = (Inr fr, sm')"
    and "list_all2 (\<lambda>(j, d) s. synthetic_for packs (dr_token g j) (d_entity_type d) (d_text d) cc (Some salt) = Inr s)
      (enumerate 0 ds) syns"
    and "\<forall>(d, s) \<in> set (zip ds syns). \<forall>(d', s') \<in> set (zip ds syns). s = s' \<longrightarrow> d_text d = d_text d'"
    and "cs = longest_first (all_candidates (fr_components_by_synthetic fr))"
    and "\<forall>c \<in> set cs. fst c \<noteq> []" and "unambiguous cs (echo_pieces cs text 0 (zip ds syns))"
  shows "\<exists>r. reverse_substitution A clock (fr_sanitised_text fr) sm' (fr_components_by_synthetic fr) ner = (Inr r, sm') \<and>
    rr_text r = text"
  using assms by (rule echo_reverse)

text \<open>
  Reverse substitution after forward substitution never reads the encrypted session map:
  the result is the same for every map, a purged or an empty one included, since the original
  texts travel in the component lists.
\<close>

theorem reverse_ignores_session_map:
  assumes "disjoint_spans ds" and "\<forall>d \<in> set ds. span_in text d"
    and "apply_substitution A packs g text ds sm cc salt = (Inr fr, sm')"
  shows "fst (reverse_substitution A clock response sm1 (fr_components_by_synthetic fr) ner) =
      fst (reverse_substitution A' clock' response (sm_purge sm2) (fr_components_by_synthetic fr) ner) \<and>
    isOk (fst (reverse_substitution A clock response sm1 (fr_components_by_synthetic fr) ner))"
proof -
  have sp: "spans_from text 0 ds" using assms(1,2) by (intro spans_fromI) (auto simp: span_in_def)
  from apply_substitution_Inr [OF sp assms(1,3)] obtain syns where
    "fr_components_by_synthetic fr = components_for (zip ds syns) []" by blast
  then have "\<forall>(s, l) \<in> set (fr_components_by_synthetic fr). l \<noteq> []"
    using components_for_nonempty [of "[]" "zip ds syns"] by simp
  then show ?thesis
    by (simp add: reverse_of_components Let_def split: prod.splits)
qed

lemma components_for_same:
  assumes "xs \<noteq> []" and "\<forall>(d, s) \<in> set xs. s = v \<and> d_entity_type d \<noteq> Person"
  shows "components_for xs [] = [(v, [mk_component v (d_text (fst (last xs))) (lit ''full'') None])]"
  using assms
proof (induction xs rule: rev_induct)
  case (snoc x xs)
  obtain d s where x: "x = (d, s)" by (cases x) auto
  show ?case
    using snoc by (cases "xs = []") (auto simp: components_for_def x decompose_def)
qed simp

text \<open>
  All custom entities of a request are conflated: they share one synthetic value, one
  component list and so one original, that of the last of them, and reverse substitution
  writes that text wherever any of them stood.
\<close>

theorem custom_entities_conflated:
  assumes "disjoint_spans ds" and "\<forall>d \<in> set ds. span_in text d" and "ds \<noteq> []"
    and "\<forall>d \<in> set ds. d_entity_type d = Custom" and "6 \<le> length salt"
    and "apply_substitution A packs g text ds sm cc salt = (Inr fr, sm')"
    and "v = lit ''<custom-'' @ take 6 salt @ lit ''>''"
  shows "fr_sanitised_text fr = weave text 0 (map (\<lambda>d. (d, v)) ds) \<and>
    (\<exists>r. reverse_substitution A clock response sm' (fr_components_by_synthetic fr) ner = (Inr r, sm') \<and>
      rr_text r = py_replace response v (d_text (last ds)))"
proof -
  have sp: "spans_from text 0 ds" using assms(1,2) by (intro spans_fromI) (auto simp: span_in_def)
  from apply_substitution_Inr [OF sp assms(1,6)] obtain syns where
    f: "list_all2 (\<lambda>(j, d) s. synthetic_for packs (dr_token g j) (d_entity_type d) (d_text d) cc (Some salt) = Inr s)
          (enumerate 0 ds) syns"
       "fr_sanitised_text fr = weave text 0 (zip ds syns)"
       "fr_components_by_synthetic fr = components_for (zip ds syns) []" by blast
  have "synthetic_for packs (dr_token g j) Custom original cc (Some salt) = Inr v" for j original
    using custom_value [OF assms(5)] assms(7) by simp
  then have "list_all2 (\<lambda>(j, d) s. synthetic_for packs (dr_token g j) (d_entity_type d) (d_text d) cc (Some salt) = Inr s)
      (enumerate 0 ds) (map (\<lambda>d. v) ds)"
    using assms(4) by (auto simp: list_all2_conv_all_nth nth_enumerate_eq)
  from list_all2_functional [OF f(1) this] have "syns = map (\<lambda>d. v) ds" by fastforce
  then have z: "zip ds syns = map (\<lambda>d. (d, v)) ds" by (simp add: zip_map2 zip_same_conv_map)
  have "components_for (map (\<lambda>d. (d, v)) ds) [] = [(v, [mk_component v (d_text (last ds)) (lit ''full'') None])]"
    using components_for_same [of "map (\<lambda>d. (d, v)) ds" v] assms(3,4) by (simp add: last_map)
  then have c: "fr_components_by_synthetic fr = [(v, [mk_component v (d_text (last ds)) (lit ''full'') None])]"
    using f(3) z by simp
  have "v \<noteq> []" using assms(7) by simp
  then show ?thesis
    using f(2) z
    by (auto simp: c reverse_of_components all_candidates_def longest_first_def
        component_candidate_def py_replace_absent Let_def)
qed

text \<open>
  Replacement is sequential, so a restored original is rewritten again when it is itself
  the synthetic value of another entity: the answer names the wrong one.
\<close>

theorem reverse_rewrites_restored:
  assumes "a \<noteq> []" and "b \<noteq> []" and "length b \<le> length a"
  shows "\<exists>r. reverse_substitution A clock a sm
      [(a, decompose Organization b a), (b, decompose Organization x b)] ner = (Inr r, sm) \<and> rr_text r = x"
proof -
  have "longest_first [(a, b, True), (b, x, True)] = [(a, b, True), (b, x, True)]"
    unfolding longest_first_def using assms(3) by (intro sort_key_id_if_sorted) simp
  moreover have "py_replace a a b = b" "py_replace b b x = x"
    using assms(1,2) replace_all_match [of a b "[]"] replace_all_match [of b x "[]"]
    by (simp_all add: py_replace_def)
  ultimately show ?thesis
    using assms(1,2)
    by (simp add: reverse_of_components decompose_def all_candidates_def component_candidate_def Let_def)
qed

section \<open>Witnesses\<close>

definition sample_draws :: draws where
  "sample_draws = \<lparr>dr_nonce = (\<lambda>_. replicate 12 1), dr_clock = (\<lambda>_. 3), dr_token = (\<lambda>_. [])\<rparr>"

definition two_words :: ustr where
  "two_words = lit ''x ab cd''"

definition custom_at :: "int \<Rightarrow> int \<Rightarrow> detection" where
  "custom_at a b = \<lparr>d_entity_type = Custom, d_start = a, d_end = b, d_text = py_slice two_words a b,
     d_confidence = 1, d_tier = 3, d_detector = lit ''contextual'', d_rule_id = None, d_metadata = []\<rparr>"

abbreviation sample_value :: ustr where
  "sample_value \<equiv> lit ''<custom-012345>''"

lemma custom_at_spans:
  "span_in two_words (custom_at 2 4)" "span_in two_words (custom_at 5 7)"
  "disjoint_spans [custom_at 2 4]" "disjoint_spans [custom_at 2 4, custom_at 5 7]"
  by (simp_all add: span_in_def custom_at_def two_words_def disjoint_spans_def)

lemma sample_map_live: "\<not> sm_purged sample_map" "\<exists>a. sm_aad sample_map = Inr a"
  by (simp_all add: sample_map_def sm_aad_def utf8_encode_def scalar_ascii)

lemma custom_at_apply:
  assumes "ds = [custom_at 2 4] \<or> ds = [custom_at 2 4, custom_at 5 7]"
  shows "\<exists>fr sm'. apply_substitution sample_aead initial_packs sample_draws two_words ds sample_map
    (lit ''DZ'') sample_salt = (Inr fr, sm')"
proof -
  obtain a where a: "sm_aad sample_map = Inr a" using sample_map_live by blast
  have sp: "spans_from two_words 0 ds" "disjoint_spans ds" "\<forall>d \<in> set ds. span_in two_words d"
    using assms custom_at_spans by (auto simp: spans_fromI) (simp_all add: custom_at_def two_words_def)
  have sc: "\<forall>d \<in> set ds. \<forall>x \<in> set (d_text d). scalar x" "\<forall>x \<in> set (lit ''DZ''). scalar x"
      "\<forall>x \<in> set sample_salt. scalar x" "sample_salt \<noteq> []"
    using assms by (auto simp: custom_at_def two_words_def py_slice_in_bounds scalar_ascii sample_salt_def)
  from apply_loop_total [OF sp(1) sample_map_live(1) a sc, of sample_aead initial_packs sample_draws 0 "[]" "[]"]
  obtain r sm' where "apply_loop sample_aead initial_packs sample_draws two_words (lit ''DZ'') sample_salt
      ds 0 0 [] [] sample_map = (Inr r, sm')" by blast
  then show ?thesis
    by (cases r) (auto simp: apply_substitution_def disjoint_sort_start [OF sp(2,3)])
qed

lemma substitution_total_witness:
  "\<exists>fr sm'. apply_substitution sample_aead initial_packs sample_draws two_words [custom_at 2 4] sample_map
    (lit ''DZ'') sample_salt = (Inr fr, sm')"
proof -
  obtain a where a: "sm_aad sample_map = Inr a" using sample_map_live by blast
  show ?thesis
    by (rule substitution_total [OF custom_at_spans(3) _ sample_map_live(1) a])
      (use custom_at_spans in \<open>auto simp: sample_salt_def custom_at_def two_words_def py_slice_in_bounds scalar_ascii\<close>)
qed

lemma sample_winner_apply:
  "\<exists>fr sm'. apply_substitution sample_aead initial_packs sample_draws sample_text [sample_winner] sample_map
    (lit ''DZ'') sample_salt = (Inr fr, sm')"
proof -
  obtain a where a: "sm_aad sample_map = Inr a" using sample_map_live by blast
  have sp: "span_in sample_text sample_winner" "disjoint_spans [sample_winner]"
    using sample_span [of 0 5] by (simp_all add: span_matches_iff disjoint_spans_def)
  then have sf: "spans_from sample_text 0 [sample_winner]"
    by (intro spans_fromI) (auto simp: span_in_def)
  have sc: "\<forall>d \<in> set [sample_winner]. \<forall>x \<in> set (d_text d). scalar x" "\<forall>x \<in> set (lit ''DZ''). scalar x"
      "\<forall>x \<in> set sample_salt. scalar x" "sample_salt \<noteq> []"
    by (auto simp: sample_detection_def sample_text_def py_slice_in_bounds scalar_ascii sample_salt_def)
  from apply_loop_total [OF sf sample_map_live(1) a sc, of sample_aead initial_packs sample_draws 0 "[]" "[]"]
  obtain r sm' where "apply_loop sample_aead initial_packs sample_draws sample_text (lit ''DZ'') sample_salt
      [sample_winner] 0 0 [] [] sample_map = (Inr r, sm')" by blast
  then show ?thesis
    by (cases r) (auto simp: apply_substitution_def)
qed

lemma substitution_of_merge_witness:
  "\<exists>fr sm' syns. apply_substitution sample_aead initial_packs sample_draws sample_text [sample_winner]
      sample_map (lit ''DZ'') sample_salt = (Inr fr, sm') \<and>
    fr_sanitised_text fr = weave sample_text 0 (zip [sample_winner] syns)"
proof -
  obtain fr sm' where a: "apply_substitution sample_aead initial_packs sample_draws sample_text [sample_winner]
      sample_map (lit ''DZ'') sample_salt = (Inr fr, sm')"
    using sample_winner_apply by blast
  from substitution_of_merge [OF sample_pair_merge, of sample_aead initial_packs sample_draws sample_map
      "lit ''DZ''" sample_salt fr sm'] a
  show ?thesis by auto
qed

lemma sample_candidates:
  "longest_first (all_candidates [(lit ''K'', decompose Organization (lit ''Z'') (lit ''K''))]) =
    [(lit ''K'', lit ''Z'', True)]"
  by (simp add: longest_first_def all_candidates_def decompose_def component_candidate_def)

lemma reverse_restores_witness:
  "\<exists>r. reverse_substitution sample_aead (\<lambda>_. 0) (lit ''a K b'') sample_map
      [(lit ''K'', decompose Organization (lit ''Z'') (lit ''K''))] [] = (Inr r, sample_map) \<and>
    rr_text r = lit ''a Z b''"
  using reverse_restores [of "[(lit ''K'', decompose Organization (lit ''Z'') (lit ''K''))]"
      "[(lit ''K'', lit ''Z'', True)]" "[Lit (lit ''a ''), Syn 0, Lit (lit '' b'')]"
      sample_aead "\<lambda>_. 0" sample_map "[]"] decompose_nonempty
  by (simp only: sample_candidates)
    (simp add: unambiguous_def render_def All_less_Suc numeral_2_eq_2)

lemma sample_synthetics:
  "list_all2 (\<lambda>(j, d) s. synthetic_for initial_packs (dr_token sample_draws j) (d_entity_type d) (d_text d)
     (lit ''DZ'') (Some sample_salt) = Inr s) (enumerate 0 [custom_at 2 4]) [sample_value]"
proof -
  have "synthetic_for initial_packs t Custom x (lit ''DZ'') (Some sample_salt) = Inr sample_value" for t x
    using custom_value [of sample_salt initial_packs t x "lit ''DZ''"] by (simp add: sample_salt_def)
  then show ?thesis by (simp add: custom_at_def)
qed

lemma sample_custom_candidates:
  "longest_first (all_candidates (components_for (zip [custom_at 2 4] [sample_value]) [])) = [(sample_value, lit ''ab'', True)]"
  by (simp add: components_for_def decompose_def all_candidates_def component_candidate_def
      longest_first_def custom_at_def two_words_def py_slice_in_bounds)

lemma sample_unambiguous:
  "unambiguous [(sample_value, lit ''ab'', True)]
     (echo_pieces [(sample_value, lit ''ab'', True)] two_words 0 (zip [custom_at 2 4] [sample_value]))"
  by (simp add: unambiguous_def render_def All_less_Suc numeral_2_eq_2 numeral_3_eq_3 custom_at_def two_words_def
      py_slice_in_bounds slice_from_in_bounds index_of_def)

lemma echo_restores_text_witness:
  "\<exists>fr sm' r. apply_substitution sample_aead initial_packs sample_draws two_words [custom_at 2 4] sample_map
      (lit ''DZ'') sample_salt = (Inr fr, sm') \<and>
    reverse_substitution sample_aead (\<lambda>_. 0) (fr_sanitised_text fr) sm' (fr_components_by_synthetic fr) [] = (Inr r, sm') \<and>
    rr_text r = two_words"
proof -
  obtain fr sm' where a: "apply_substitution sample_aead initial_packs sample_draws two_words [custom_at 2 4]
      sample_map (lit ''DZ'') sample_salt = (Inr fr, sm')"
    using custom_at_apply by blast
  have t: "spans_from two_words 0 [custom_at 2 4]"
    using custom_at_spans by (intro spans_fromI) (auto simp: custom_at_def two_words_def)
  from apply_substitution_Inr [OF t custom_at_spans(3) a] obtain syns where
    s: "list_all2 (\<lambda>(j, d) s. synthetic_for initial_packs (dr_token sample_draws j) (d_entity_type d) (d_text d)
      (lit ''DZ'') (Some sample_salt) = Inr s) (enumerate 0 [custom_at 2 4]) syns"
    "fr_components_by_synthetic fr = components_for (zip [custom_at 2 4] syns) []" by blast
  have "syns = [sample_value]" by (rule list_all2_functional [OF s(1) sample_synthetics]) auto
  then have c: "longest_first (all_candidates (fr_components_by_synthetic fr)) = [(sample_value, lit ''ab'', True)]"
    using s(2) sample_custom_candidates by simp
  show ?thesis
    using echo_restores_text [OF custom_at_spans(3) _ a sample_synthetics _ c [symmetric], of "\<lambda>_. 0" "[]"]
      a custom_at_spans(1) sample_unambiguous by auto
qed

lemma reverse_ignores_session_map_witness:
  "\<exists>fr sm'. apply_substitution sample_aead initial_packs sample_draws two_words [custom_at 2 4] sample_map
      (lit ''DZ'') sample_salt = (Inr fr, sm') \<and>
    fst (reverse_substitution sample_aead (\<lambda>_. 0) two_words sm' (fr_components_by_synthetic fr) []) =
    fst (reverse_substitution sample_aead (\<lambda>_. 0) two_words (sm_purge sm') (fr_components_by_synthetic fr) [])"
proof -
  obtain fr sm' where a: "apply_substitution sample_aead initial_packs sample_draws two_words [custom_at 2 4]
      sample_map (lit ''DZ'') sample_salt = (Inr fr, sm')"
    using custom_at_apply by blast
  from reverse_ignores_session_map [OF custom_at_spans(3) _ a, of "\<lambda>_. 0" two_words sm' "[]"
      sample_aead "\<lambda>_. 0" sm'] custom_at_spans(1) a
  show ?thesis by auto
qed

lemma custom_entities_conflated_witness:
  "\<exists>fr sm' r. apply_substitution sample_aead initial_packs sample_draws two_words
      [custom_at 2 4, custom_at 5 7] sample_map (lit ''DZ'') sample_salt = (Inr fr, sm') \<and>
    reverse_substitution sample_aead (\<lambda>_. 0) (fr_sanitised_text fr) sm' (fr_components_by_synthetic fr) [] = (Inr r, sm') \<and>
    rr_text r = py_replace (fr_sanitised_text fr) sample_value (lit ''cd'')"
proof -
  obtain fr sm' where a: "apply_substitution sample_aead initial_packs sample_draws two_words
      [custom_at 2 4, custom_at 5 7] sample_map (lit ''DZ'') sample_salt = (Inr fr, sm')"
    using custom_at_apply by blast
  have t: "d_text (custom_at 5 7) = lit ''cd''"
    by (simp add: custom_at_def two_words_def py_slice_in_bounds)
  have p: "\<forall>d \<in> set [custom_at 2 4, custom_at 5 7]. span_in two_words d" "[custom_at 2 4, custom_at 5 7] \<noteq> []"
      "\<forall>d \<in> set [custom_at 2 4, custom_at 5 7]. d_entity_type d = Custom" "6 \<le> length sample_salt"
      "sample_value = lit ''<custom-'' @ take 6 sample_salt @ lit ''>''"
    using custom_at_spans(1,2) by (auto simp: sample_salt_def) (simp_all add: custom_at_def)
  from custom_entities_conflated [OF custom_at_spans(4) p(1-4) a p(5), of "\<lambda>_. 0" "fr_sanitised_text fr" "[]"]
  obtain r where "reverse_substitution sample_aead (\<lambda>_. 0) (fr_sanitised_text fr) sm'
      (fr_components_by_synthetic fr) [] = (Inr r, sm')"
    "rr_text r = py_replace (fr_sanitised_text fr) sample_value (d_text (last [custom_at 2 4, custom_at 5 7]))"
    by blast
  with a t show ?thesis by auto
qed

lemma reverse_rewrites_restored_witness:
  "\<exists>r. reverse_substitution sample_aead (\<lambda>_. 0) (lit ''Naftal SPA'') sample_map
      [(lit ''Naftal SPA'', decompose Organization (lit ''Sonelgaz'') (lit ''Naftal SPA'')),
       (lit ''Sonelgaz'', decompose Organization (lit ''Cevital'') (lit ''Sonelgaz''))] [] = (Inr r, sample_map) \<and>
    rr_text r = lit ''Cevital''"
  by (rule reverse_rewrites_restored) simp_all

end
