(* ===== verification/Json.thy ===== *)
theory Json
  imports PyText PyFloat "HOL-Library.List_Lexorder"
begin

text \<open>
  JSON values as the code handles them, and \<open>json.dumps(x, sort_keys=True, separators=(",", ":"))\<close>
  with its escaping of everything outside printable ASCII. \<open>float_repr\<close>, the shortest decimal
  form Python prints for a float, is a parameter.
\<close>

datatype json =
    JNull
  | JBool bool
  | JInt int
  | JFloat pyfloat
  | JStr ustr
  | JList "json list"
  | JObj "(ustr \<times> json) list"

definition hex4 :: "nat \<Rightarrow> ustr" where
  "hex4 n = [hex_digit (n div 4096 mod 16), hex_digit (n div 256 mod 16), hex_digit (n div 16 mod 16),
     hex_digit (n mod 16)]"

definition json_char :: "nat \<Rightarrow> ustr" where
  "json_char c =
     (if c = 34 then [92, 34] else if c = 92 then [92, 92]
      else if c = 10 then [92, 110] else if c = 13 then [92, 114] else if c = 9 then [92, 116]
      else if c = 12 then [92, 102] else if c = 8 then [92, 98]
      else if 32 \<le> c \<and> c \<le> 126 then [c]
      else if c < 65536 then [92, 117] @ hex4 c
      else let n = c - 65536
           in [92, 117] @ hex4 (55296 + n div 1024) @ [92, 117] @ hex4 (56320 + n mod 1024))"

definition json_string :: "ustr \<Rightarrow> ustr" where
  "json_string s = [34] @ concat (map json_char s) @ [34]"

fun json_dumps :: "(pyfloat \<Rightarrow> ustr) \<Rightarrow> json \<Rightarrow> ustr" where
  "json_dumps fr JNull = lit ''null''"
| "json_dumps fr (JBool b) = (if b then lit ''true'' else lit ''false'')"
| "json_dumps fr (JInt i) = show_int i"
| "json_dumps fr (JFloat x) = fr x"
| "json_dumps fr (JStr s) = json_string s"
| "json_dumps fr (JList xs) = [91] @ join [44] (map (json_dumps fr) xs) @ [93]"
| "json_dumps fr (JObj items) =
     [123] @ join [44] (map (\<lambda>(k, t). json_string k @ [58] @ t)
       (sort_key fst (map (\<lambda>(k, v). (k, json_dumps fr v)) items))) @ [125]"

section \<open>The output is ASCII\<close>

lemma hex_digit_mod: "48 \<le> hex_digit (n mod 16)" "hex_digit (n mod 16) < 103"
proof -
  have "n mod 16 < 16" by simp
  then show "48 \<le> hex_digit (n mod 16)" "hex_digit (n mod 16) < 103"
    unfolding hex_digit_def by (simp_all split: if_splits)
qed

lemma hex4_ascii: "\<forall>x \<in> set (hex4 n). x < 128"
  using hex_digit_mod(2) [THEN less_trans, of 128] by (simp add: hex4_def)

lemma json_char_ascii: "\<forall>x \<in> set (json_char c). x < 128"
  by (simp add: json_char_def Let_def ball_Un hex4_ascii)

lemma json_string_ascii: "\<forall>x \<in> set (json_string s). x < 128"
  using json_char_ascii by (auto simp: json_string_def)

lemma json_string_plain:
  "\<forall>c \<in> set s. 32 \<le> c \<and> c \<le> 126 \<and> c \<noteq> 34 \<and> c \<noteq> 92 \<Longrightarrow> json_string s = [34] @ s @ [34]"
proof -
  assume "\<forall>c \<in> set s. 32 \<le> c \<and> c \<le> 126 \<and> c \<noteq> 34 \<and> c \<noteq> 92"
  then have "concat (map json_char s) = s" by (induction s) (auto simp: json_char_def)
  then show ?thesis by (simp add: json_string_def)
qed

lemma join_ascii: "44 < b \<Longrightarrow> \<forall>w \<in> set ws. \<forall>x \<in> set w. x < b \<Longrightarrow> x \<in> set (join [44] ws) \<Longrightarrow> x < (b::nat)"
  by (induction "[44::nat]" ws rule: join.induct) auto

lemma show_int_ascii: "x \<in> set (show_int i) \<Longrightarrow> x < 128"
  using show_nat_ascii by (fastforce simp: show_int_def split: if_splits)

lemma json_dumps_ascii:
  "\<forall>x. \<forall>c \<in> set (fr x). c < 128 \<Longrightarrow> \<forall>c \<in> set (json_dumps fr j). c < 128"
proof (induction fr j rule: json_dumps.induct)
  case (3 fr i)
  show ?case using show_int_ascii by simp
next
  case (4 fr x)
  then show ?case by simp
next
  case (5 fr s)
  show ?case using json_string_ascii by simp
next
  case (6 fr xs)
  then have "\<forall>w \<in> set (map (json_dumps fr) xs). \<forall>x \<in> set w. x < 128" by simp
  then show ?case using join_ascii [of 128 "map (json_dumps fr) xs"] by auto
next
  case (7 fr items)
  let ?ws = "map (\<lambda>(k, t). json_string k @ [58] @ t) (sort_key fst (map (\<lambda>(k, v). (k, json_dumps fr v)) items))"
  have texts: "\<forall>x \<in> set t. x < 128" if "(k, t) \<in> set (map (\<lambda>(k, v). (k, json_dumps fr v)) items)" for k t
    using that 7 by fastforce
  have "\<forall>x \<in> set w. x < 128" if w: "w \<in> set ?ws" for w
  proof -
    obtain k t where kt: "(k, t) \<in> set (sort_key fst (map (\<lambda>(k, v). (k, json_dumps fr v)) items))"
        "w = json_string k @ [58] @ t"
      using w by (auto simp del: set_sort)
    then have "\<forall>x \<in> set t. x < 128" using texts by (simp only: set_sort)
    with kt(2) json_string_ascii [of k] show ?thesis by (simp add: ball_Un)
  qed
  then have all_ws: "\<forall>w \<in> set ?ws. \<forall>x \<in> set w. x < 128" by blast
  have "x < 128" if "x \<in> set (join [44] ?ws)" for x
    by (rule join_ascii [OF _ all_ws that]) simp
  then show ?case unfolding json_dumps.simps by auto
qed simp_all

section \<open>Reading a string back\<close>

text \<open>
  The scanner of \<open>json.loads\<close> behind the opening quote: it returns the string and what follows
  the closing quote, joining surrogate pairs.
\<close>

definition hex_value :: "nat \<Rightarrow> nat" where
  "hex_value c = (if c < 58 then c - 48 else c - 87)"

definition hex4_value :: "ustr \<Rightarrow> nat" where
  "hex4_value s = foldl (\<lambda>acc c. acc * 16 + hex_value c) 0 s"

definition short_escape :: "nat \<Rightarrow> nat" where
  "short_escape e =
     (if e = 110 then 10 else if e = 114 then 13 else if e = 116 then 9 else if e = 102 then 12
      else if e = 98 then 8 else e)"

definition cons_fst :: "nat \<Rightarrow> (ustr \<times> ustr) option \<Rightarrow> (ustr \<times> ustr) option" where
  "cons_fst c x = map_option (\<lambda>(s, r). (c # s, r)) x"

function scan_string :: "ustr \<Rightarrow> (ustr \<times> ustr) option" where
  "scan_string s =
     (case s of [] \<Rightarrow> None
      | c # r \<Rightarrow>
          if c = 34 then Some ([], r)
          else if c \<noteq> 92 then cons_fst c (scan_string r)
          else case r of [] \<Rightarrow> None
               | e # r1 \<Rightarrow>
                   if e \<noteq> 117 then cons_fst (short_escape e) (scan_string r1)
                   else let n = hex4_value (take 4 r1); m = hex4_value (take 4 (drop 6 r1))
                        in if 55296 \<le> n \<and> n < 56320 \<and> take 2 (drop 4 r1) = [92, 117] \<and> 56320 \<le> m \<and> m < 57344
                           then cons_fst (65536 + (n - 55296) * 1024 + (m - 56320)) (scan_string (drop 10 r1))
                           else cons_fst n (scan_string (drop 4 r1)))"
  by pat_completeness auto
termination
  by (relation "measure length") auto

declare scan_string.simps [simp del]

lemma hex_value_digit: "hex_value (hex_digit (n mod 16)) = n mod 16"
proof -
  have "n mod 16 < 16" by simp
  then show ?thesis unfolding hex_digit_def hex_value_def by (simp split: if_splits)
qed

lemma hex4_roundtrip:
  assumes "n < 65536"
  shows "hex4_value (hex4 n) = n"
proof -
  have top: "n div 4096 mod 16 = n div 4096"
    using assms by (intro mod_less) simp
  have a: "n div 4096 = n div 256 div 16" "n div 256 = n div 16 div 16"
    by (simp_all add: div_mult2_eq [symmetric])
  have f: "n div 4096 * 16 + n div 256 mod 16 = n div 256" "n div 256 * 16 + n div 16 mod 16 = n div 16"
    "n div 16 * 16 + n mod 16 = n"
    unfolding a by (rule div_mult_mod_eq)+
  show ?thesis
    unfolding hex4_value_def hex4_def foldl.simps unfolding hex_value_digit unfolding top
    by (simp only: mult_zero_left add_0_left f)
qed

lemma length_hex4 [simp]: "length (hex4 n) = 4"
  by (simp add: hex4_def)

lemma scan_quote: "scan_string (34 # r) = Some ([], r)"
  by (simp add: scan_string.simps)

lemma scan_plain: "c \<noteq> 34 \<Longrightarrow> c \<noteq> 92 \<Longrightarrow> scan_string (c # r) = cons_fst c (scan_string r)"
  by (simp add: scan_string.simps [of "c # r"])

lemma scan_short: "e \<noteq> 117 \<Longrightarrow> scan_string (92 # e # r) = cons_fst (short_escape e) (scan_string r)"
  by (simp add: scan_string.simps [of "92 # e # r"])

lemma scan_bmp:
  assumes "n < 65536" "\<not> (55296 \<le> n \<and> n < 56320)"
  shows "scan_string (92 # 117 # hex4 n @ r) = cons_fst n (scan_string r)"
  using assms by (subst scan_string.simps) (auto simp: Let_def hex4_roundtrip)

lemma scan_pair:
  assumes "n < 1024" "m < 1024"
  shows "scan_string (92 # 117 # hex4 (55296 + n) @ 92 # 117 # hex4 (56320 + m) @ r) =
    cons_fst (65536 + n * 1024 + m) (scan_string r)"
proof -
  let ?r1 = "hex4 (55296 + n) @ 92 # 117 # hex4 (56320 + m) @ r"
  have "take 4 ?r1 = hex4 (55296 + n)" "take 2 (drop 4 ?r1) = [92, 117]"
      "take 4 (drop 6 ?r1) = hex4 (56320 + m)" "drop 10 ?r1 = r"
    by simp_all
  moreover have "hex4_value (hex4 (55296 + n)) = 55296 + n" "hex4_value (hex4 (56320 + m)) = 56320 + m"
    using assms by (simp_all add: hex4_roundtrip)
  ultimately show ?thesis
    using assms by (subst scan_string.simps) (simp add: Let_def)
qed

lemma scan_char:
  assumes "scalar c"
  shows "scan_string (json_char c @ r) = cons_fst c (scan_string r)"
proof (cases "c < 65536")
  case True
  with assms have "\<not> (55296 \<le> c \<and> c < 56320)" by (auto simp: scalar_def)
  with True show ?thesis
    by (simp add: json_char_def scan_short scan_plain scan_bmp short_escape_def)
next
  case False
  with assms have c: "65536 \<le> c" "c < 1114112" by (auto simp: scalar_def)
  then have "(c - 65536) div 1024 < 1024" by simp
  moreover have "65536 + (c - 65536) div 1024 * 1024 + (c - 65536) mod 1024 = c"
    using c(1) div_mult_mod_eq [of "c - 65536" 1024] by simp
  ultimately show ?thesis
    using c scan_pair [of "(c - 65536) div 1024" "(c - 65536) mod 1024" r]
    by (simp add: json_char_def Let_def)
qed

text \<open>A string that has a UTF-8 form is read back, whatever follows it.\<close>

lemma scan_json_string:
  assumes "\<forall>c \<in> set s. scalar c"
  shows "scan_string (tl (json_string s @ r)) = Some (s, r)"
proof -
  have "scan_string (concat (map json_char s) @ 34 # r) = Some (s, r)"
    using assms by (induction s) (simp_all add: scan_quote scan_char cons_fst_def)
  then show ?thesis by (simp add: json_string_def)
qed

lemma json_string_inj:
  assumes "json_string s @ r = json_string t @ r'" "\<forall>c \<in> set s. scalar c" "\<forall>c \<in> set t. scalar c"
  shows "s = t \<and> r = r'"
proof -
  have "Some (s, r) = Some (t, r')"
    using scan_json_string [OF assms(2), of r] scan_json_string [OF assms(3), of r']
    unfolding assms(1) by (rule trans [OF sym])
  then show ?thesis by simp
qed

end
