(* ===== verification/AuditLog.thy ===== *)
theory AuditLog
  imports SessionMap Sha256 Json
begin

text \<open>
  \<open>src/audit/writer.py\<close>: audit records chained by the hash of their predecessor and signed with
  an HMAC, the writer, the in-memory backend and the verification of a chain. The writer's
  contract with a backend is the locale \<open>audit_backend\<close>. Nonces, clock readings, UUIDs and the
  printing of floats are arguments.
\<close>

section \<open>Records\<close>

definition genesis_hash :: ustr where
  "genesis_hash = replicate 64 48"

record audit_record =
  ar_record_id :: ustr
  ar_customer_id :: ustr
  ar_request_id :: ustr
  ar_event_type :: ustr
  ar_occurred_at :: pyfloat
  ar_payload_nonce :: bytes
  ar_payload_ciphertext :: bytes
  ar_content_hash :: ustr
  ar_prev_hash :: ustr
  ar_hmac_signature :: ustr

text \<open>The canonical body of a record, as \<open>record\<close> and \<open>verify_chain\<close> build it.\<close>

definition body_json :: "ustr \<Rightarrow> ustr \<Rightarrow> ustr \<Rightarrow> ustr \<Rightarrow> pyfloat \<Rightarrow> bytes \<Rightarrow> bytes \<Rightarrow> json" where
  "body_json record_id customer_id request_id event_type occurred_at nonce ct =
     JObj [(lit ''record_id'', JStr record_id), (lit ''customer_id'', JStr customer_id),
       (lit ''request_id'', JStr request_id), (lit ''event_type'', JStr event_type),
       (lit ''occurred_at'', JFloat occurred_at), (lit ''payload_nonce'', JStr (to_hex nonce)),
       (lit ''payload_ciphertext'', JStr (to_hex ct))]"

definition body_hash :: "(pyfloat \<Rightarrow> ustr) \<Rightarrow> json \<Rightarrow> ustr res" where
  "body_hash fr body = bindE (utf8_encode (json_dumps fr body)) (\<lambda>b. Inr (sha256_hex b))"

definition chain_signature :: "bytes \<Rightarrow> ustr \<Rightarrow> ustr \<Rightarrow> ustr res" where
  "chain_signature hmac_key content_hash prev_hash =
     bindE (utf8_encode (content_hash @ [124] @ prev_hash)) (\<lambda>b. Inr (to_hex (hmac_sha256 hmac_key b)))"

text \<open>\<open>hmac.compare_digest\<close> on strings accepts ASCII only.\<close>

definition compare_digest :: "ustr \<Rightarrow> ustr \<Rightarrow> bool res" where
  "compare_digest a b =
     (if \<exists>c \<in> set (a @ b). 128 \<le> c then Inl TypeError else Inr (a = b))"

section \<open>The writer\<close>

record audit_writer =
  aw_encryption_key :: bytes
  aw_hmac_key :: bytes

definition mk_audit_writer :: "bytes \<Rightarrow> bytes \<Rightarrow> audit_writer res" where
  "mk_audit_writer encryption_key hmac_key =
     (if length encryption_key \<noteq> 32 then Inl ValueError
      else if length hmac_key < 32 then Inl ValueError
      else Inr \<lparr>aw_encryption_key = encryption_key, aw_hmac_key = hmac_key\<rparr>)"

record audit_draws =
  ad_nonce :: bytes
  ad_time :: pyfloat
  ad_uuid :: ustr

text \<open>
  \<open>record\<close> up to the read of the latest hash, and from there to the write: between the two the
  backend may change when another writer appends.
\<close>

definition prepare_record ::
    "aead \<Rightarrow> (pyfloat \<Rightarrow> ustr) \<Rightarrow> audit_writer \<Rightarrow> scope \<Rightarrow> audit_draws \<Rightarrow> ustr \<Rightarrow> ustr \<Rightarrow> json \<Rightarrow>
      audit_record res" where
  "prepare_record A fr w cur dr request_id event_type payload =
     bindE (require_customer cur) (\<lambda>ctx.
     bindE (utf8_encode (json_dumps fr payload)) (\<lambda>canonical.
     bindE (utf8_encode (cc_customer_id ctx)) (\<lambda>aad.
       let ct = ae_encrypt A (aw_encryption_key w) (ad_nonce dr) canonical aad
       in bindE (body_hash fr (body_json (ad_uuid dr) (cc_customer_id ctx) request_id event_type
                  (ad_time dr) (ad_nonce dr) ct)) (\<lambda>content_hash.
            Inr \<lparr>ar_record_id = ad_uuid dr, ar_customer_id = cc_customer_id ctx,
              ar_request_id = request_id, ar_event_type = event_type, ar_occurred_at = ad_time dr,
              ar_payload_nonce = ad_nonce dr, ar_payload_ciphertext = ct,
              ar_content_hash = content_hash, ar_prev_hash = [], ar_hmac_signature = []\<rparr>))))"

definition seal_record :: "audit_writer \<Rightarrow> audit_record \<Rightarrow> ustr \<Rightarrow> audit_record res" where
  "seal_record w rec prev_hash =
     bindE (chain_signature (aw_hmac_key w) (ar_content_hash rec) prev_hash) (\<lambda>signature.
       Inr (rec\<lparr>ar_prev_hash := prev_hash, ar_hmac_signature := signature\<rparr>))"

definition writer_record ::
    "('b \<Rightarrow> (ustr \<times> 'b) res) \<Rightarrow> (audit_record \<Rightarrow> 'b \<Rightarrow> 'b res) \<Rightarrow> aead \<Rightarrow> (pyfloat \<Rightarrow> ustr) \<Rightarrow>
      audit_writer \<Rightarrow> scope \<Rightarrow> audit_draws \<Rightarrow> ustr \<Rightarrow> ustr \<Rightarrow> json \<Rightarrow> 'b \<Rightarrow> (audit_record \<times> 'b) res" where
  "writer_record latest put A fr w cur dr request_id event_type payload b =
     bindE (prepare_record A fr w cur dr request_id event_type payload) (\<lambda>rec.
     bindE (latest b) (\<lambda>(prev_hash, b1).
     bindE (seal_record w rec prev_hash) (\<lambda>sealed.
     bindE (put sealed b1) (\<lambda>b2. Inr (sealed, b2)))))"

text \<open>
  The backend that a \<open>record\<close> leaves when it raises: once the record is prepared the latest hash has
  been read, and remembered by a backend that does, although nothing was written.
\<close>

definition failed_record ::
    "('b \<Rightarrow> (ustr \<times> 'b) res) \<Rightarrow> aead \<Rightarrow> (pyfloat \<Rightarrow> ustr) \<Rightarrow> audit_writer \<Rightarrow> scope \<Rightarrow> audit_draws \<Rightarrow>
      ustr \<Rightarrow> ustr \<Rightarrow> json \<Rightarrow> 'b \<Rightarrow> 'b" where
  "failed_record latest A fr w cur dr request_id event_type payload b =
     (case bindE (prepare_record A fr w cur dr request_id event_type payload) (\<lambda>_. latest b) of
        Inl _ \<Rightarrow> b
      | Inr (_, b1) \<Rightarrow> b1)"

fun verify_from :: "(pyfloat \<Rightarrow> ustr) \<Rightarrow> bytes \<Rightarrow> ustr \<Rightarrow> audit_record list \<Rightarrow> unit res" where
  "verify_from fr hmac_key prev [] = Inr ()"
| "verify_from fr hmac_key prev (rec # recs) =
     (if ar_prev_hash rec \<noteq> prev then Inl (AuditChainBroken (ar_record_id rec))
      else bindE (body_hash fr (body_json (ar_record_id rec) (ar_customer_id rec) (ar_request_id rec)
             (ar_event_type rec) (ar_occurred_at rec) (ar_payload_nonce rec) (ar_payload_ciphertext rec))) (\<lambda>recomputed.
        if recomputed \<noteq> ar_content_hash rec then Inl (AuditChainBroken (ar_record_id rec))
        else bindE (chain_signature hmac_key (ar_content_hash rec) (ar_prev_hash rec)) (\<lambda>expected_sig.
             bindE (compare_digest expected_sig (ar_hmac_signature rec)) (\<lambda>same.
               if \<not> same then Inl (AuditChainBroken (ar_record_id rec))
               else verify_from fr hmac_key (ar_content_hash rec) recs))))"

definition verify_chain :: "(pyfloat \<Rightarrow> ustr) \<Rightarrow> audit_writer \<Rightarrow> audit_record list \<Rightarrow> unit res" where
  "verify_chain fr w recs = verify_from fr (aw_hmac_key w) genesis_hash recs"

section \<open>The in-memory backend\<close>

type_synonym audit_log = "audit_record list"

definition memory_append :: "audit_record \<Rightarrow> audit_log \<Rightarrow> audit_log res" where
  "memory_append rec recs = Inr (recs @ [rec])"

definition memory_all :: "audit_log \<Rightarrow> audit_record list" where
  "memory_all recs = recs"

definition memory_latest_hash :: "audit_log \<Rightarrow> (ustr \<times> audit_log) res" where
  "memory_latest_hash recs = Inr (if recs = [] then genesis_hash else ar_content_hash (last recs), recs)"

lemma failed_record_memory [simp]:
  "failed_record memory_latest_hash A fr w cur dr rid ev payload recs = recs"
  by (cases "prepare_record A fr w cur dr rid ev payload") (simp_all add: failed_record_def memory_latest_hash_def)

section \<open>The chain\<close>

text \<open>The head a chain ends in, and what it means that a record follows a head.\<close>

definition head_of :: "audit_record list \<Rightarrow> ustr" where
  "head_of recs = (if recs = [] then genesis_hash else ar_content_hash (last recs))"

definition record_body :: "audit_record \<Rightarrow> json" where
  "record_body rec = body_json (ar_record_id rec) (ar_customer_id rec) (ar_request_id rec)
     (ar_event_type rec) (ar_occurred_at rec) (ar_payload_nonce rec) (ar_payload_ciphertext rec)"

definition follows :: "(pyfloat \<Rightarrow> ustr) \<Rightarrow> bytes \<Rightarrow> ustr \<Rightarrow> audit_record \<Rightarrow> bool" where
  "follows fr hmac_key prev rec =
     (ar_prev_hash rec = prev \<and> body_hash fr (record_body rec) = Inr (ar_content_hash rec) \<and>
      chain_signature hmac_key (ar_content_hash rec) prev = Inr (ar_hmac_signature rec))"

fun chain_from :: "(pyfloat \<Rightarrow> ustr) \<Rightarrow> bytes \<Rightarrow> ustr \<Rightarrow> audit_record list \<Rightarrow> bool" where
  "chain_from fr hmac_key prev [] = True"
| "chain_from fr hmac_key prev (rec # recs) =
     (follows fr hmac_key prev rec \<and> chain_from fr hmac_key (ar_content_hash rec) recs)"

lemma signature_ascii: "chain_signature k c p = Inr s \<Longrightarrow> \<forall>x \<in> set s. x < 128"
  using to_hex_alphabet [OF hmac_bytes] by (fastforce simp: chain_signature_def bindE_eq_Inr)

lemma compare_signature:
  assumes "chain_signature k c p = Inr s"
  shows "compare_digest s t = Inr True \<longleftrightarrow> s = t"
  using signature_ascii [OF assms] by (auto simp: compare_digest_def)

lemma verify_from_iff: "verify_from fr k prev recs = Inr () \<longleftrightarrow> chain_from fr k prev recs"
proof (induction recs arbitrary: prev)
  case (Cons rec recs)
  show ?case
  proof (cases "chain_signature k (ar_content_hash rec) prev")
    case (Inl e)
    then show ?thesis by (auto simp: follows_def record_body_def bindE_eq_Inr)
  next
    case (Inr s)
    then show ?thesis
      using compare_signature [OF Inr, of "ar_hmac_signature rec"] Cons.IH
      by (auto simp: follows_def record_body_def bindE_eq_Inr split: if_splits)
  qed
qed simp

lemma verify_from_app:
  "chain_from fr k prev xs \<Longrightarrow> verify_from fr k prev (xs @ ys) =
     verify_from fr k (if xs = [] then prev else ar_content_hash (last xs)) ys"
proof (induction xs arbitrary: prev)
  case (Cons x xs)
  then show ?case
    using compare_signature [of k "ar_content_hash x" prev "ar_hmac_signature x" "ar_hmac_signature x"]
    by (auto simp: follows_def record_body_def)
qed simp

lemma head_of_snoc [simp]: "head_of (recs @ [r]) = ar_content_hash r"
  by (simp add: head_of_def)

lemma chain_from_append:
  "chain_from fr k prev (xs @ ys) \<longleftrightarrow> chain_from fr k prev xs \<and>
     chain_from fr k (if xs = [] then prev else ar_content_hash (last xs)) ys"
  by (induction xs arbitrary: prev) auto

lemma sealed_follows:
  assumes "prepare_record A fr w cur dr rid ev payload = Inr rec" "seal_record w rec prev = Inr r"
  shows "follows fr (aw_hmac_key w) prev r"
  using assms by (auto simp: prepare_record_def seal_record_def bindE_eq_Inr Let_def follows_def record_body_def)

section \<open>The backend interface\<close>

locale audit_backend =
  fixes latest :: "'b \<Rightarrow> (ustr \<times> 'b) res"
    and append_record :: "audit_record \<Rightarrow> 'b \<Rightarrow> 'b res"
    and all_records :: "'b \<Rightarrow> audit_record list"
    and invar :: "'b \<Rightarrow> bool"
  assumes latest_head: "invar b \<Longrightarrow> latest b = Inr (h, b') \<Longrightarrow>
      h = head_of (all_records b) \<and> all_records b' = all_records b \<and> invar b'"
    and append_last: "invar b \<Longrightarrow> append_record r b = Inr b' \<Longrightarrow>
      all_records b' = all_records b @ [r] \<and> invar b'"
begin

text \<open>A record written to a valid chain extends it by one record that keeps it valid.\<close>

lemma record_extends:
  assumes "invar b" and "writer_record latest append_record A fr w cur dr rid ev payload b = Inr (r, b')"
  shows "all_records b' = all_records b @ [r]" "invar b'"
    "chain_from fr (aw_hmac_key w) genesis_hash (all_records b) \<Longrightarrow>
     chain_from fr (aw_hmac_key w) genesis_hash (all_records b')"
proof -
  from assms(2) obtain rec prev b1 where
    s: "prepare_record A fr w cur dr rid ev payload = Inr rec" "latest b = Inr (prev, b1)"
      "seal_record w rec prev = Inr r" "append_record r b1 = Inr b'"
    by (auto simp: writer_record_def bindE_eq_Inr)
  note l = latest_head [OF assms(1) s(2)]
  note a = append_last [OF conjunct2 [OF conjunct2 [OF l]] s(4)]
  from l a show all: "all_records b' = all_records b @ [r]" and "invar b'" by simp_all
  show "chain_from fr (aw_hmac_key w) genesis_hash (all_records b) \<Longrightarrow>
     chain_from fr (aw_hmac_key w) genesis_hash (all_records b')"
    using sealed_follows [OF s(1,3)] l
    by (auto simp: all chain_from_append head_of_def)
qed

text \<open>A failing one leaves the log as it was.\<close>

lemma failed_record_log:
  assumes "invar b"
  shows "all_records (failed_record latest A fr w cur dr rid ev payload b) = all_records b"
    and "invar (failed_record latest A fr w cur dr rid ev payload b)"
  using assms latest_head [OF assms]
  by (auto simp: failed_record_def bindE_eq_Inr split: sum.splits)

end

interpretation memory_backend: audit_backend memory_latest_hash memory_append memory_all "\<lambda>_. True"
  by unfold_locales
    (auto simp: memory_latest_hash_def memory_append_def memory_all_def head_of_def)

text \<open>
  A backend that always reports its latest hash and refuses a record only for a reason of its
  own (\<open>accepts\<close>) records what the in-memory backend records.
\<close>

locale log_backend = audit_backend +
  fixes accepts :: "audit_record \<Rightarrow> 'a \<Rightarrow> bool"
  assumes latest_total: "invar b \<Longrightarrow> \<exists>h b'. latest b = Inr (h, b') \<and> accepts r b' = accepts r b"
    and append_total: "invar b \<Longrightarrow> accepts r b \<Longrightarrow> \<exists>b'. append_record r b = Inr b'"
    and accepts_sealed: "invar b \<Longrightarrow> accepts q b \<Longrightarrow> seal_record w q (head_of (all_records b)) = Inr r \<Longrightarrow> accepts r b"
begin

lemma record_as_memory:
  assumes "invar b" and "\<And>q. prepare_record A fr w cur dr rid ev payload = Inr q \<Longrightarrow> accepts q b"
  shows "case writer_record latest append_record A fr w cur dr rid ev payload b of
      Inl e \<Rightarrow> writer_record memory_latest_hash memory_append A fr w cur dr rid ev payload (all_records b) = Inl e
    | Inr (r, b') \<Rightarrow> invar b' \<and>
        writer_record memory_latest_hash memory_append A fr w cur dr rid ev payload (all_records b) = Inr (r, all_records b')"
proof (cases "prepare_record A fr w cur dr rid ev payload")
  case (Inl e)
  then show ?thesis by (simp add: writer_record_def)
next
  case (Inr q)
  obtain h b1 where l: "latest b = Inr (h, b1)" "accepts q b1 = accepts q b" using latest_total [OF assms(1)] by blast
  have h: "memory_latest_hash (all_records b) = Inr (h, all_records b)" "invar b1" "all_records b1 = all_records b"
    using latest_head [OF assms(1) l(1)] by (simp_all add: memory_latest_hash_def head_of_def)
  show ?thesis
  proof (cases "seal_record w q h")
    case sealed: (Inr r)
    have "h = head_of (all_records b1)" using latest_head [OF assms(1) l(1)] by simp
    then have "accepts r b1" using accepts_sealed [OF h(2), of q w r] l(2) assms(2) [OF Inr] sealed by simp
    then obtain b2 where b2: "append_record r b1 = Inr b2" using append_total [OF h(2)] by blast
    with Inr l(1) h sealed append_last [OF h(2) b2] show ?thesis by (simp add: writer_record_def memory_append_def)
  qed (use Inr l(1) h in \<open>simp add: writer_record_def\<close>)
qed

end

interpretation memory_log: log_backend memory_latest_hash memory_append memory_all "\<lambda>_. True" "\<lambda>_ _. True"
  by unfold_locales (auto simp: memory_latest_hash_def memory_append_def)

section \<open>A body determines its fields\<close>

text \<open>
  What is relied on of \<open>float.__repr__\<close>: different floats print differently, in ASCII without a
  comma.
\<close>

definition float_repr_ok :: "(pyfloat \<Rightarrow> ustr) \<Rightarrow> bool" where
  "float_repr_ok fr = (inj fr \<and> (\<forall>x. \<forall>c \<in> set (fr x). c < 128 \<and> c \<noteq> 44))"

definition body_text :: "(pyfloat \<Rightarrow> ustr) \<Rightarrow> ustr \<Rightarrow> ustr \<Rightarrow> ustr \<Rightarrow> ustr \<Rightarrow> pyfloat \<Rightarrow> bytes \<Rightarrow> bytes \<Rightarrow> ustr" where
  "body_text fr record_id customer_id request_id event_type occurred_at nonce ct =
     lit ''{\"customer_id\":'' @ json_string customer_id @ lit '',\"event_type\":'' @ json_string event_type @
     lit '',\"occurred_at\":'' @ fr occurred_at @ lit '',\"payload_ciphertext\":'' @ json_string (to_hex ct) @
     lit '',\"payload_nonce\":'' @ json_string (to_hex nonce) @ lit '',\"record_id\":'' @ json_string record_id @
     lit '',\"request_id\":'' @ json_string request_id @ lit ''}''"

lemma body_order:
  "sort_key fst [(lit ''record_id'', a), (lit ''customer_id'', b), (lit ''request_id'', c),
     (lit ''event_type'', d), (lit ''occurred_at'', e), (lit ''payload_nonce'', f),
     (lit ''payload_ciphertext'', g)] =
   [(lit ''customer_id'', b), (lit ''event_type'', d), (lit ''occurred_at'', e),
     (lit ''payload_ciphertext'', g), (lit ''payload_nonce'', f), (lit ''record_id'', a),
     (lit ''request_id'', c)]"
  by (simp add: sort_key_def)

lemma body_dumps: "json_dumps fr (body_json a b c d e f g) = body_text fr a b c d e f g"
proof -
  have k: "json_string (lit ''record_id'') = lit ''\"record_id\"''"
      "json_string (lit ''customer_id'') = lit ''\"customer_id\"''"
      "json_string (lit ''request_id'') = lit ''\"request_id\"''"
      "json_string (lit ''event_type'') = lit ''\"event_type\"''"
      "json_string (lit ''occurred_at'') = lit ''\"occurred_at\"''"
      "json_string (lit ''payload_nonce'') = lit ''\"payload_nonce\"''"
      "json_string (lit ''payload_ciphertext'') = lit ''\"payload_ciphertext\"''"
    by (simp_all add: json_string_plain)
  show ?thesis
    unfolding body_json_def json_dumps.simps list.map(1,2) prod.case body_order join.simps
    by (simp add: body_text_def k [simplified])
qed

lemma comma_split:
  fixes a b :: ustr
  assumes "44 \<notin> set a" "44 \<notin> set b" "a @ 44 # r = b @ 44 # r'"
  shows "a = b \<and> r = r'"
proof -
  have "split_once 44 (a @ 44 # r) = [a, r]" "split_once 44 (b @ 44 # r') = [b, r']"
    using assms(1,2) by (simp_all add: split_once_first)
  with assms(3) have "[a, r] = [b, r']" by metis
  then show ?thesis by simp
qed

lemma hex_scalar: "is_bytes bs \<Longrightarrow> \<forall>c \<in> set (to_hex bs). scalar c"
  using to_hex_alphabet by (fastforce intro: scalar_ascii)

text \<open>The fields a body is made of.\<close>

definition body_fields :: "audit_record \<Rightarrow> ustr \<times> ustr \<times> ustr \<times> ustr \<times> pyfloat \<times> bytes \<times> bytes" where
  "body_fields r = (ar_record_id r, ar_customer_id r, ar_request_id r, ar_event_type r,
     ar_occurred_at r, ar_payload_nonce r, ar_payload_ciphertext r)"

definition record_scalar :: "audit_record \<Rightarrow> bool" where
  "record_scalar r =
     ((\<forall>c \<in> set (ar_record_id r) \<union> set (ar_customer_id r) \<union> set (ar_request_id r) \<union> set (ar_event_type r).
        scalar c) \<and> is_bytes (ar_payload_nonce r) \<and> is_bytes (ar_payload_ciphertext r))"

lemma body_inj:
  assumes "float_repr_ok fr" "record_scalar r" "record_scalar r'"
    and "json_dumps fr (record_body r) = json_dumps fr (record_body r')"
  shows "body_fields r = body_fields r'"
proof -
  have fr: "inj fr" "\<And>x. 44 \<notin> set (fr x)" using assms(1) unfolding float_repr_ok_def by blast+
  have sc: "\<forall>c \<in> set (ar_record_id x). scalar c" "\<forall>c \<in> set (ar_customer_id x). scalar c"
      "\<forall>c \<in> set (ar_request_id x). scalar c" "\<forall>c \<in> set (ar_event_type x). scalar c"
      "\<forall>c \<in> set (to_hex (ar_payload_nonce x)). scalar c"
      "\<forall>c \<in> set (to_hex (ar_payload_ciphertext x)). scalar c"
      "is_bytes (ar_payload_nonce x)" "is_bytes (ar_payload_ciphertext x)" if "record_scalar x" for x
    using that hex_scalar unfolding record_scalar_def by blast+
  note a = sc [OF assms(2)] and b = sc [OF assms(3)]
  have e: "body_text fr (ar_record_id r) (ar_customer_id r) (ar_request_id r) (ar_event_type r)
      (ar_occurred_at r) (ar_payload_nonce r) (ar_payload_ciphertext r) =
    body_text fr (ar_record_id r') (ar_customer_id r') (ar_request_id r') (ar_event_type r')
      (ar_occurred_at r') (ar_payload_nonce r') (ar_payload_ciphertext r')"
    using assms(4) by (simp only: record_body_def body_dumps)
  note e1 = e [unfolded body_text_def same_append_eq]
  note e2 = json_string_inj [OF e1 a(2) b(2)]
  note e3 = json_string_inj [OF conjunct2 [OF e2, unfolded same_append_eq] a(4) b(4)]
  have "fr (ar_occurred_at r) = fr (ar_occurred_at r') \<and>
    lit ''\"payload_ciphertext\":'' @ json_string (to_hex (ar_payload_ciphertext r)) @
      lit '',\"payload_nonce\":'' @ json_string (to_hex (ar_payload_nonce r)) @ lit '',\"record_id\":'' @
      json_string (ar_record_id r) @ lit '',\"request_id\":'' @ json_string (ar_request_id r) @ lit ''}'' =
    lit ''\"payload_ciphertext\":'' @ json_string (to_hex (ar_payload_ciphertext r')) @
      lit '',\"payload_nonce\":'' @ json_string (to_hex (ar_payload_nonce r')) @ lit '',\"record_id\":'' @
      json_string (ar_record_id r') @ lit '',\"request_id\":'' @ json_string (ar_request_id r') @ lit ''}''"
    by (rule comma_split [OF fr(2) fr(2)]) (use conjunct2 [OF e3, unfolded same_append_eq] in simp)
  note e4 = this
  note e5 = json_string_inj [OF conjunct2 [OF e4, unfolded same_append_eq] a(6) b(6)]
  note e6 = json_string_inj [OF conjunct2 [OF e5, unfolded same_append_eq] a(5) b(5)]
  note e7 = json_string_inj [OF conjunct2 [OF e6, unfolded same_append_eq] a(1) b(1)]
  note e8 = json_string_inj [OF conjunct2 [OF e7, unfolded same_append_eq] a(3) b(3)]
  show ?thesis
    using e2 e3 e4 e5 e6 e7 e8 a(7,8) b(7,8) fr(1)
    by (auto simp: body_fields_def to_hex_inj dest: injD)
qed

section \<open>Logs made of signed pairs\<close>

text \<open>
  Without the HMAC key nobody makes a valid signature on a pair of content and previous hash
  the writer did not sign.
\<close>

definition unforged :: "audit_writer \<Rightarrow> audit_record list \<Rightarrow> audit_record list \<Rightarrow> bool" where
  "unforged w recs recs' =
     (\<forall>r \<in> set recs'. chain_signature (aw_hmac_key w) (ar_content_hash r) (ar_prev_hash r) = Inr (ar_hmac_signature r) \<longrightarrow>
        (\<exists>s \<in> set recs. ar_content_hash s = ar_content_hash r \<and> ar_prev_hash s = ar_prev_hash r))"

lemma chain_from_nth:
  "chain_from fr k prev recs \<longleftrightarrow>
     (\<forall>i < length recs. follows fr k (if i = 0 then prev else ar_content_hash (recs ! (i - 1))) (recs ! i))"
proof (induction recs arbitrary: prev)
  case (Cons r recs)
  show ?case
    unfolding chain_from.simps Cons.IH length_Cons All_less_Suc2
    by (auto simp: nth_Cons')
qed simp

lemma signed_pairs_prefix:
  assumes "chain_from fr k genesis_hash recs" "chain_from fr k' genesis_hash recs'"
    and "distinct (map ar_content_hash recs)" "genesis_hash \<notin> ar_content_hash ` set recs"
    and pairs: "\<forall>r \<in> set recs'. \<exists>s \<in> set recs. ar_content_hash s = ar_content_hash r \<and> ar_prev_hash s = ar_prev_hash r"
  shows "j < length recs' \<Longrightarrow> j < length recs \<and> ar_content_hash (recs' ! j) = ar_content_hash (recs ! j)"
proof (induction j)
  case 0
  then have "recs' ! 0 \<in> set recs'" by simp
  then obtain i where i: "i < length recs" "ar_content_hash (recs ! i) = ar_content_hash (recs' ! 0)"
      "ar_prev_hash (recs ! i) = ar_prev_hash (recs' ! 0)"
    using pairs by (metis in_set_conv_nth)
  have p: "ar_prev_hash (recs' ! 0) = genesis_hash"
    using assms(2) 0 by (auto simp: chain_from_nth follows_def)
  have "i = 0"
  proof (rule ccontr)
    assume "i \<noteq> 0"
    then have "ar_content_hash (recs ! (i - 1)) = genesis_hash"
      using assms(1) i(1,3) p by (auto simp: chain_from_nth follows_def)
    moreover have "recs ! (i - 1) \<in> set recs" using i(1) by simp
    ultimately show False using assms(4) by (metis image_eqI)
  qed
  with i show ?case by simp
next
  case (Suc j)
  then have IH: "j < length recs" "ar_content_hash (recs' ! j) = ar_content_hash (recs ! j)" by simp_all
  have "recs' ! Suc j \<in> set recs'" using Suc.prems by simp
  then obtain i where i: "i < length recs" "ar_content_hash (recs ! i) = ar_content_hash (recs' ! Suc j)"
      "ar_prev_hash (recs ! i) = ar_prev_hash (recs' ! Suc j)"
    using pairs by (metis in_set_conv_nth)
  have "follows fr k' (ar_content_hash (recs' ! j)) (recs' ! Suc j)"
    using assms(2) Suc.prems unfolding chain_from_nth by (metis Suc_neq_Zero diff_Suc_1)
  then have p: "ar_prev_hash (recs' ! Suc j) = ar_content_hash (recs ! j)"
    using IH(2) by (simp add: follows_def)
  have f: "follows fr k (if i = 0 then genesis_hash else ar_content_hash (recs ! (i - 1))) (recs ! i)"
    using assms(1) i(1) by (simp add: chain_from_nth)
  have "i \<noteq> 0"
  proof
    assume "i = 0"
    with f p i(3) have "genesis_hash = ar_content_hash (recs ! j)" by (simp add: follows_def)
    with assms(4) nth_mem [OF IH(1)] show False by (metis image_eqI)
  qed
  with f p i(3) have "ar_content_hash (recs ! (i - 1)) = ar_content_hash (recs ! j)"
    by (simp add: follows_def)
  moreover have "i - 1 < length recs" using i(1) by simp
  ultimately have "i - 1 = j"
    using assms(3) IH(1) by (metis distinct_conv_nth length_map nth_map)
  with \<open>i \<noteq> 0\<close> i(1,2) show ?case by auto
qed

text \<open>Two records chained to the same head: the second is where verification stops.\<close>

lemma fork_detected:
  assumes "chain_from fr (aw_hmac_key w) genesis_hash (recs @ [r1])" and "ar_prev_hash r2 \<noteq> ar_content_hash r1"
  shows "verify_chain fr w (recs @ [r1, r2]) = Inl (AuditChainBroken (ar_record_id r2))"
  using verify_from_app [OF assms(1), of "[r2]"] assms(2) by (simp add: verify_chain_def)

section \<open>Properties\<close>

text \<open>
  C26. Verification accepts a log exactly if every record names the content hash of the record
  before it (the first the genesis hash), hashes to its own content hash and carries the HMAC
  of the two.
\<close>

theorem verify_chain_spec:
  "verify_chain fr w recs = Inr () \<longleftrightarrow>
    (\<forall>i < length recs.
      ar_prev_hash (recs ! i) = (if i = 0 then genesis_hash else ar_content_hash (recs ! (i - 1))) \<and>
      body_hash fr (record_body (recs ! i)) = Inr (ar_content_hash (recs ! i)) \<and>
      chain_signature (aw_hmac_key w) (ar_content_hash (recs ! i)) (ar_prev_hash (recs ! i)) =
        Inr (ar_hmac_signature (recs ! i)))"
  unfolding verify_chain_def verify_from_iff chain_from_nth follows_def
  by (simp cong: conj_cong)

text \<open>Recording on a log that verifies gives a log that verifies, longer by that record.\<close>

theorem record_keeps_chain:
  assumes "verify_chain fr w recs = Inr ()"
    and "writer_record memory_latest_hash memory_append A fr w cur dr rid ev payload recs = Inr (r, recs')"
  shows "verify_chain fr w recs' = Inr () \<and> recs' = recs @ [r]"
  using assms memory_backend.record_extends [OF TrueI assms(2)]
  by (simp add: verify_chain_def verify_from_iff memory_all_def)

text \<open>
  C14. Tamper evidence: if only pairs of the original log carry valid signatures and its record
  identifiers are distinct, a log that verifies is the original cut off at its end, field by
  field (no record altered, reordered, inserted or removed from the middle), or the two logs
  exhibit a SHA-256 collision between two bodies or a body whose digest is all zeros.
\<close>

theorem audit_tamper_evident:
  assumes "verify_chain fr w recs = Inr ()" and "verify_chain fr w recs' = Inr ()"
    and "unforged w recs recs'" and "distinct (map ar_record_id recs)"
    and "float_repr_ok fr" and "\<forall>r \<in> set recs \<union> set recs'. record_scalar r"
  shows "map body_fields recs' = map body_fields (take (length recs') recs) \<or>
    (\<exists>r \<in> set recs. \<exists>r' \<in> set recs \<union> set recs'.
      json_dumps fr (record_body r) \<noteq> json_dumps fr (record_body r') \<and>
      body_hash fr (record_body r) = body_hash fr (record_body r')) \<or>
    (\<exists>r \<in> set recs. body_hash fr (record_body r) = Inr genesis_hash)"
proof (rule ccontr)
  assume neg: "\<not> ?thesis"
  have c: "chain_from fr (aw_hmac_key w) genesis_hash recs" "chain_from fr (aw_hmac_key w) genesis_hash recs'"
    using assms(1,2) by (simp_all add: verify_chain_def verify_from_iff)
  have f: "follows fr (aw_hmac_key w) (ar_prev_hash r) r" if "chain_from fr (aw_hmac_key w) genesis_hash rs" "r \<in> set rs" for r rs
    using that by (auto simp: chain_from_nth in_set_conv_nth follows_def)
  have h: "body_hash fr (record_body r) = Inr (ar_content_hash r)" if "r \<in> set recs \<union> set recs'" for r
    using that f [OF c(1)] f [OF c(2)] by (auto simp: follows_def)
  have same: "body_fields r = body_fields r'"
    if "r \<in> set recs" "r' \<in> set recs \<union> set recs'" "ar_content_hash r = ar_content_hash r'" for r r'
  proof (rule body_inj [OF assms(5)])
    show "record_scalar r" "record_scalar r'" using that(1,2) assms(6) by blast+
    have "body_hash fr (record_body r) = body_hash fr (record_body r')"
      using h [of r] h [of r'] that by simp
    with neg that(1,2) show "json_dumps fr (record_body r) = json_dumps fr (record_body r')" by blast
  qed
  have "distinct (map ar_content_hash recs)"
    unfolding distinct_map
  proof
    show "distinct recs" using assms(4) by (simp add: distinct_map)
    show "inj_on ar_content_hash (set recs)"
    proof (rule inj_onI)
      fix r r' assume m: "r \<in> set recs" "r' \<in> set recs" "ar_content_hash r = ar_content_hash r'"
      then have "ar_record_id r = ar_record_id r'" using same [of r r'] by (simp add: body_fields_def)
      with m assms(4) show "r = r'" by (auto simp: distinct_map dest: inj_onD)
    qed
  qed
  moreover have "genesis_hash \<notin> ar_content_hash ` set recs" using neg h by fastforce
  moreover have "\<forall>r \<in> set recs'. \<exists>s \<in> set recs. ar_content_hash s = ar_content_hash r \<and> ar_prev_hash s = ar_prev_hash r"
    using f [OF c(2)] assms(3) by (auto simp: unforged_def follows_def)
  ultimately have pre: "j < length recs' \<Longrightarrow> j < length recs \<and> ar_content_hash (recs' ! j) = ar_content_hash (recs ! j)" for j
    by (rule signed_pairs_prefix [OF c])
  have "body_fields (recs' ! j) = body_fields (recs ! j)" if j: "j < length recs'" for j
    using same [of "recs ! j" "recs' ! j"] pre [OF j] j by simp
  moreover have "length recs' \<le> length recs" using pre by (meson leI less_irrefl)
  ultimately have "map body_fields recs' = map body_fields (take (length recs') recs)"
    by (intro nth_equalityI) auto
  with neg show False by blast
qed

text \<open>
  What the chain does not show: removing any number of the newest records leaves a log that
  verifies.
\<close>

theorem audit_truncation_undetected:
  assumes "verify_chain fr w recs = Inr ()"
  shows "verify_chain fr w (take n recs) = Inr ()"
proof -
  have "chain_from fr (aw_hmac_key w) genesis_hash (take n recs @ drop n recs)"
    using assms by (simp add: verify_chain_def verify_from_iff)
  then show ?thesis unfolding chain_from_append by (simp add: verify_chain_def verify_from_iff)
qed

text \<open>
  Reading the latest hash and appending are separate steps: two writers that both read
  before either appends leave a log that no longer verifies, although neither did wrong
  (unless the first body happens to hash to the hash it was to follow).
\<close>

theorem audit_race_breaks_chain:
  assumes "verify_chain fr w recs = Inr ()"
    and "prepare_record A fr w cur1 dr1 rid1 ev1 p1 = Inr q1" and "prepare_record A fr w cur2 dr2 rid2 ev2 p2 = Inr q2"
    and "memory_latest_hash recs = Inr (h, recs)"
    and "seal_record w q1 h = Inr r1" and "seal_record w q2 h = Inr r2"
    and "memory_append r1 recs = Inr recs1" and "memory_append r2 recs1 = Inr recs2"
  shows "verify_chain fr w recs1 = Inr () \<and>
    (verify_chain fr w recs2 = Inl (AuditChainBroken (ar_record_id r2)) \<or> ar_content_hash r1 = h)"
proof (cases "ar_content_hash r1 = h")
  case True
  then show ?thesis
    using assms(1,4,7) sealed_follows [OF assms(2,5)]
    by (auto simp: verify_chain_def verify_from_iff chain_from_append head_of_def memory_append_def
        memory_latest_hash_def split: if_splits)
next
  case False
  have h: "h = head_of recs" using assms(4) by (auto simp: memory_latest_hash_def head_of_def split: if_splits)
  have r: "recs1 = recs @ [r1]" "recs2 = recs @ [r1, r2]" using assms(7,8) by (auto simp: memory_append_def)
  have c: "chain_from fr (aw_hmac_key w) genesis_hash (recs @ [r1])"
    using assms(1) sealed_follows [OF assms(2,5)] h
    by (auto simp: verify_chain_def verify_from_iff chain_from_append head_of_def)
  have "ar_prev_hash r2 \<noteq> ar_content_hash r1"
    using sealed_follows [OF assms(3,6)] False by (simp add: follows_def)
  with c r fork_detected [OF c] show ?thesis by (simp add: verify_chain_def verify_from_iff)
qed

text \<open>
  The payload of a record is kept: decrypting it under the writer's key and the record's
  customer gives the canonical JSON text of what was recorded.
\<close>

theorem audit_payload_kept:
  assumes "aead_ok A" and "mk_audit_writer ek hk = Inr w" and "length (ad_nonce dr) = nonce_bytes"
    and "writer_record latest put A fr w cur dr rid ev payload b = Inr (r, b')"
  shows "\<exists>aad. utf8_encode (ar_customer_id r) = Inr aad \<and>
    bindE (ae_decrypt A ek (ar_payload_nonce r) (ar_payload_ciphertext r) aad) utf8_decode =
      Inr (json_dumps fr payload)"
proof -
  from assms(2) have w: "aw_encryption_key w = ek" "length ek = 32"
    by (auto simp: mk_audit_writer_def split: if_splits)
  from assms(4) obtain q h b1 where q: "prepare_record A fr w cur dr rid ev payload = Inr q"
      "seal_record w q h = Inr r"
    by (auto simp: writer_record_def bindE_eq_Inr)
  then obtain p a where p: "utf8_encode (json_dumps fr payload) = Inr p" "utf8_encode (ar_customer_id r) = Inr a"
      "ar_payload_nonce r = ad_nonce dr" "ar_payload_ciphertext r = ae_encrypt A ek (ad_nonce dr) p a"
    using w by (auto simp: prepare_record_def seal_record_def bindE_eq_Inr Let_def)
  have "ae_decrypt A ek (ad_nonce dr) (ae_encrypt A ek (ad_nonce dr) p a) a = Inr p"
    using assms(1,3) w(2) unfolding aead_ok_def nonce_bytes_def by blast
  with p utf8_roundtrip [OF p(1)] show ?thesis by simp
qed

section \<open>Witnesses\<close>

definition sample_float :: "pyfloat \<Rightarrow> ustr" where
  "sample_float x = (case x of
       Finite q \<Rightarrow> (case quotient_of q of (a, b) \<Rightarrow>
         (if a < 0 then 45 else 43) # replicate (nat \<bar>a\<bar>) 49 @ 47 # replicate (nat b) 49)
     | PosInf \<Rightarrow> [50] | NegInf \<Rightarrow> [51] | NaN \<Rightarrow> [52])"

lemma sample_float_finite: "sample_float (Finite p) = sample_float (Finite q) \<Longrightarrow> p = q"
proof -
  assume e: "sample_float (Finite p) = sample_float (Finite q)"
  obtain a b where p: "quotient_of p = (a, b)" by fastforce
  obtain c d where q: "quotient_of q = (c, d)" by fastforce
  have pos: "0 < b" "0 < d" using p q quotient_of_denom_pos by blast+
  from e have s: "(a < 0) = (c < 0)"
    and r: "replicate (nat \<bar>a\<bar>) 49 @ 47 # replicate (nat b) 49 = replicate (nat \<bar>c\<bar>) 49 @ 47 # replicate (nat d) (49 :: nat)"
    by (auto simp: sample_float_def p q split: if_splits)
  have "split_once 47 (replicate (nat \<bar>a\<bar>) 49 @ 47 # replicate (nat b) 49) =
      [replicate (nat \<bar>a\<bar>) 49, replicate (nat b) 49]"
    "split_once 47 (replicate (nat \<bar>c\<bar>) 49 @ 47 # replicate (nat d) 49) =
      [replicate (nat \<bar>c\<bar>) 49, replicate (nat d) 49]"
    by (simp_all add: split_once_first)
  with r have "[replicate (nat \<bar>a\<bar>) (49 :: nat), replicate (nat b) 49] = [replicate (nat \<bar>c\<bar>) 49, replicate (nat d) 49]"
    by metis
  then have l: "nat \<bar>a\<bar> = nat \<bar>c\<bar>" "nat b = nat d" by (metis length_replicate list.inject)+
  then have "a = c" "b = d" using s pos by auto
  then show "p = q" using p q by (metis quotient_of_div)
qed

lemma sample_float_ok: "float_repr_ok sample_float"
proof -
  have "inj sample_float"
  proof (rule injI)
    fix x y assume "sample_float x = sample_float y"
    then show "x = y"
      using sample_float_finite by (cases x; cases y) (auto simp: sample_float_def split: prod.splits if_splits)
  qed
  then show ?thesis
    by (auto simp: float_repr_ok_def sample_float_def split: pyfloat.splits prod.splits if_splits)
qed

definition sample_writer :: audit_writer where
  "sample_writer = \<lparr>aw_encryption_key = replicate 32 5, aw_hmac_key = replicate 32 6\<rparr>"

definition sample_audit :: "ustr \<Rightarrow> audit_draws" where
  "sample_audit uid = \<lparr>ad_nonce = replicate 12 1, ad_time = Finite 7, ad_uuid = uid\<rparr>"

abbreviation sample_prepare :: "ustr \<Rightarrow> audit_record res" where
  "sample_prepare uid \<equiv> prepare_record sample_aead sample_float sample_writer (Some sample_customer)
     (sample_audit uid) (lit ''r1'') (lit ''request'') (JObj [])"

lemma utf8_ascii: "\<forall>c \<in> set s. c < 128 \<Longrightarrow> \<exists>b. utf8_encode s = Inr b"
  using utf8_encode_scalar scalar_ascii by blast

lemma body_text_ascii: "float_repr_ok fr \<Longrightarrow> \<forall>x \<in> set (body_text fr a b c d e f g). x < 128"
  using json_string_ascii unfolding float_repr_ok_def by (auto simp: body_text_def)

lemma sample_prepare_ok: "\<exists>q. sample_prepare uid = Inr q \<and> ar_record_id q = uid"
proof -
  obtain b where "utf8_encode (json_dumps sample_float (JObj [])) = Inr b"
    using utf8_ascii [of "lit ''{}''"] by auto
  moreover obtain a where "utf8_encode (cc_customer_id sample_customer) = Inr a"
    using utf8_ascii [of "lit ''acme''"] by (auto simp: sample_customer_def)
  moreover have "\<exists>h. body_hash sample_float (body_json i c r e t n ct) = Inr h" for i c r e t n ct
    using utf8_ascii [OF body_text_ascii [OF sample_float_ok], of i c r e t n ct]
    by (auto simp: body_hash_def body_dumps)
  ultimately show ?thesis
    by (fastforce simp: prepare_record_def require_customer_def sample_audit_def Let_def bindE_eq_Inr)
qed

lemma content_hash_ascii: "prepare_record A fr w cur dr rid ev p = Inr q \<Longrightarrow> \<forall>c \<in> set (ar_content_hash q). c < 128"
  using to_hex_alphabet [OF sha256_bytes]
  by (fastforce simp: prepare_record_def bindE_eq_Inr Let_def body_hash_def sha256_hex_def)

lemma seal_ok:
  assumes "prepare_record A fr w cur dr rid ev p = Inr q" "\<forall>c \<in> set h. c < 128"
  shows "\<exists>r. seal_record w q h = Inr r"
proof -
  have "\<forall>c \<in> set (ar_content_hash q @ [124] @ h). c < 128"
    using content_hash_ascii [OF assms(1)] assms(2) by (simp add: ball_Un)
  then obtain b where "utf8_encode (ar_content_hash q @ [124] @ h) = Inr b" using utf8_ascii by blast
  then show ?thesis by (simp add: seal_record_def chain_signature_def)
qed

lemma genesis_ascii: "\<forall>c \<in> set genesis_hash. c < 128"
  by (simp add: genesis_hash_def)

text \<open>Recording to the in-memory backend succeeds on any JSON payload.\<close>

lemma prepare_total:
  assumes "float_repr_ok fr" "\<forall>c \<in> set (cc_customer_id ctx). scalar c"
  shows "\<exists>rec. prepare_record A fr w (Some ctx) dr rid ev payload = Inr rec"
proof -
  obtain b where "utf8_encode (json_dumps fr payload) = Inr b"
    using utf8_ascii json_dumps_ascii assms(1) unfolding float_repr_ok_def by meson
  moreover obtain a where "utf8_encode (cc_customer_id ctx) = Inr a"
    using assms(2) utf8_encode_scalar by blast
  moreover have "\<exists>h. body_hash fr (body_json i c r e t n ct) = Inr h" for i c r e t n ct
    using utf8_ascii [OF body_text_ascii [OF assms(1)], of i c r e t n ct]
    by (auto simp: body_hash_def body_dumps)
  ultimately show ?thesis by (fastforce simp: prepare_record_def Let_def bindE_eq_Inr)
qed

lemma chain_head_ascii:
  assumes "verify_chain fr w recs = Inr ()"
  shows "\<forall>c \<in> set (head_of recs). c < 128"
proof (cases recs rule: rev_cases)
  case (snoc rs r)
  with assms have "follows fr (aw_hmac_key w) (head_of rs) r"
    by (simp add: verify_chain_def verify_from_iff chain_from_append head_of_def)
  then have "\<exists>b. to_hex (sha256 b) = ar_content_hash r"
    by (auto simp: follows_def body_hash_def bindE_eq_Inr sha256_hex_def)
  then obtain b where "to_hex (sha256 b) = ar_content_hash r" by blast
  then show ?thesis
    using to_hex_alphabet [OF sha256_bytes, of _ b] snoc by fastforce
qed (simp add: head_of_def genesis_ascii)

lemma record_total:
  assumes "float_repr_ok fr" "\<forall>c \<in> set (cc_customer_id ctx). scalar c" "verify_chain fr w recs = Inr ()"
  shows "\<exists>rec. writer_record memory_latest_hash memory_append A fr w (Some ctx) dr rid ev payload recs = Inr (rec, recs @ [rec])"
proof -
  obtain q where q: "prepare_record A fr w (Some ctx) dr rid ev payload = Inr q" using prepare_total [OF assms(1,2)] by blast
  obtain r where "seal_record w q (head_of recs) = Inr r" using seal_ok [OF q chain_head_ascii [OF assms(3)]] by blast
  with q show ?thesis by (simp add: writer_record_def memory_latest_hash_def memory_append_def head_of_def)
qed

text \<open>A log of one record.\<close>

lemma sample_first:
  "\<exists>r. writer_record memory_latest_hash memory_append sample_aead sample_float sample_writer (Some sample_customer)
      (sample_audit (lit ''u1'')) (lit ''r1'') (lit ''request'') (JObj []) [] = Inr (r, [r]) \<and>
    verify_chain sample_float sample_writer [r] = Inr () \<and> record_scalar r"
proof -
  obtain q where q: "sample_prepare (lit ''u1'') = Inr q" using sample_prepare_ok by blast
  obtain r where r: "seal_record sample_writer q genesis_hash = Inr r"
    using seal_ok [OF q genesis_ascii] by blast
  have f: "follows sample_float (aw_hmac_key sample_writer) genesis_hash r" by (rule sealed_follows [OF q r])
  have "record_scalar r"
  proof -
    obtain p where "utf8_encode (json_dumps sample_float (JObj [])) = Inr p" by (simp add: utf8_encode_def scalar_ascii)
    moreover obtain a where "utf8_encode (cc_customer_id sample_customer) = Inr a"
      by (simp add: sample_customer_def utf8_encode_def scalar_ascii)
    ultimately show ?thesis
      using q r
      by (auto simp: prepare_record_def require_customer_def seal_record_def bindE_eq_Inr Let_def record_scalar_def
          sample_audit_def sample_customer_def sample_aead_def utf8_encode_def scalar_ascii utf8_char_def)
  qed
  moreover have "verify_chain sample_float sample_writer [r] = Inr ()"
    unfolding verify_chain_def verify_from_iff using f by simp
  ultimately show ?thesis
    using q r by (auto simp: writer_record_def memory_latest_hash_def memory_append_def)
qed

lemma verify_chain_spec_witness:
  "\<exists>r :: audit_record. verify_chain sample_float sample_writer [r] = Inr () \<and>
    ar_prev_hash r = genesis_hash \<and> body_hash sample_float (record_body r) = Inr (ar_content_hash r)"
proof -
  obtain r where r: "verify_chain sample_float sample_writer [r] = Inr ()"
    using sample_first by blast
  then have "ar_prev_hash r = genesis_hash \<and> body_hash sample_float (record_body r) = Inr (ar_content_hash r)"
    unfolding verify_chain_spec by simp
  with r show ?thesis by blast
qed

lemma record_keeps_chain_witness:
  "\<exists>r. verify_chain sample_float sample_writer [r] = Inr ()"
proof -
  obtain r where "writer_record memory_latest_hash memory_append sample_aead sample_float sample_writer
      (Some sample_customer) (sample_audit (lit ''u1'')) (lit ''r1'') (lit ''request'') (JObj []) [] = Inr (r, [r])"
    using sample_first by blast
  moreover have "verify_chain sample_float sample_writer [] = Inr ()" by (simp add: verify_chain_def)
  ultimately show ?thesis using record_keeps_chain by blast
qed

lemma audit_tamper_evident_witness:
  "\<exists>r :: audit_record. verify_chain sample_float sample_writer [r] = Inr () \<and>
    (map body_fields [r] = map body_fields (take (length [r]) [r]) \<or>
     (\<exists>q \<in> set [r]. \<exists>q' \<in> set [r] \<union> set [r].
       json_dumps sample_float (record_body q) \<noteq> json_dumps sample_float (record_body q') \<and>
       body_hash sample_float (record_body q) = body_hash sample_float (record_body q')) \<or>
     (\<exists>q \<in> set [r]. body_hash sample_float (record_body q) = Inr genesis_hash))"
proof -
  obtain r where r: "verify_chain sample_float sample_writer [r] = Inr ()" "record_scalar r"
    using sample_first by blast
  have "unforged sample_writer [r] [r]" "distinct (map ar_record_id [r])"
    "\<forall>q \<in> set [r] \<union> set [r]. record_scalar q"
    using r(2) by (simp_all add: unforged_def)
  note t = audit_tamper_evident [OF r(1) r(1) this(1,2) sample_float_ok this(3)]
  show ?thesis by (rule exI [of _ r], rule conjI, rule r(1), rule t)
qed

lemma audit_truncation_undetected_witness:
  "\<exists>r. verify_chain sample_float sample_writer [r] = Inr () \<and>
    verify_chain sample_float sample_writer (take 0 [r]) = Inr ()"
proof -
  obtain r where r: "verify_chain sample_float sample_writer [r] = Inr ()" using sample_first by blast
  from audit_truncation_undetected [OF r, of 0] r show ?thesis by blast
qed

lemma audit_race_breaks_chain_witness:
  "\<exists>r1 r2. verify_chain sample_float sample_writer [r1] = Inr () \<and>
    (verify_chain sample_float sample_writer [r1, r2] = Inl (AuditChainBroken (lit ''u2'')) \<or>
     ar_content_hash r1 = genesis_hash)"
proof -
  obtain q1 where q1: "sample_prepare (lit ''u1'') = Inr q1" using sample_prepare_ok by blast
  obtain q2 where q2: "sample_prepare (lit ''u2'') = Inr q2" "ar_record_id q2 = lit ''u2''"
    using sample_prepare_ok by blast
  obtain r1 where r1: "seal_record sample_writer q1 genesis_hash = Inr r1"
    using seal_ok [OF q1 genesis_ascii] by blast
  obtain r2 where r2: "seal_record sample_writer q2 genesis_hash = Inr r2"
    using seal_ok [OF q2(1) genesis_ascii] by blast
  have "ar_record_id r2 = lit ''u2''" using q2(2) r2 by (auto simp: seal_record_def bindE_eq_Inr)
  moreover have "verify_chain sample_float sample_writer [] = Inr ()" by (simp add: verify_chain_def)
  ultimately show ?thesis
    using audit_race_breaks_chain [OF _ q1 q2(1) _ r1 r2, of "[]" "[r1]" "[r1, r2]"]
    by (auto simp: memory_latest_hash_def memory_append_def)
qed

lemma audit_payload_kept_witness:
  "\<exists>(r :: audit_record) aad. utf8_encode (ar_customer_id r) = Inr aad \<and>
    bindE (ae_decrypt sample_aead (replicate 32 5) (ar_payload_nonce r) (ar_payload_ciphertext r) aad) utf8_decode =
      Inr (lit ''{}'')"
proof -
  obtain r where r: "writer_record memory_latest_hash memory_append sample_aead sample_float sample_writer
      (Some sample_customer) (sample_audit (lit ''u1'')) (lit ''r1'') (lit ''request'') (JObj []) [] = Inr (r, [r])"
    using sample_first by blast
  have w: "mk_audit_writer (replicate 32 5) (replicate 32 6) = Inr sample_writer"
    by (simp add: mk_audit_writer_def sample_writer_def)
  have n: "length (ad_nonce (sample_audit (lit ''u1''))) = nonce_bytes"
    by (simp add: sample_audit_def nonce_bytes_def)
  have j: "json_dumps sample_float (JObj []) = lit ''{}''" by simp
  show ?thesis
    by (rule exI [of _ r]) (rule audit_payload_kept [OF sample_aead_laws(1) w n r, unfolded j])
qed

end
