(* ===== verification/Postgres.thy ===== *)
theory Postgres
  imports PyFloat PyText
begin

text \<open>
  The values a Postgres column takes. A text is UTF-8 without a character 0, so a string with a lone
  surrogate or a NUL is refused. A \<open>real\<close> keeps single precision; asyncpg refuses a finite float that
  becomes an infinity there. The stores refuse a record with such a value with \<open>ExternalError 22021\<close>,
  whichever of the two it is and whether asyncpg or the server notices.
\<close>

section \<open>Texts\<close>

definition text_ok :: "ustr \<Rightarrow> bool" where
  "text_ok s = (0 \<notin> set s \<and> isOk (utf8_encode s))"

definition option_ok :: "ustr option \<Rightarrow> bool" where
  "option_ok s = (case s of None \<Rightarrow> True | Some s \<Rightarrow> text_ok s)"

lemma option_ok_simps [simp]: "option_ok None" "option_ok (Some s) = text_ok s"
  by (simp_all add: option_ok_def)

lemma text_ok_ascii: "\<forall>c \<in> set s. 0 < c \<and> c < 128 \<Longrightarrow> text_ok s"
  using utf8_encode_scalar scalar_ascii by (fastforce simp: text_ok_def isOk_iff)

section \<open>Single precision\<close>

definition infinite_float :: "pyfloat \<Rightarrow> bool" where
  "infinite_float x = (x = PosInf \<or> x = NegInf)"

text \<open>\<open>to_real\<close> is the rounding of a double to the precision of the column.\<close>

definition real_ok :: "(pyfloat \<Rightarrow> pyfloat) \<Rightarrow> pyfloat \<Rightarrow> bool" where
  "real_ok to_real x = (infinite_float (to_real x) \<longrightarrow> infinite_float x)"

definition to_single :: "rat \<Rightarrow> rat" where
  "to_single x =
     (if x = 0 then 0
      else let u = 2 powi (max (exponent \<bar>x\<bar>) (- 126) - 23)
           in sgn x * of_int (round_even (\<bar>x\<bar> / u)) * u)"

fun real_column :: "pyfloat \<Rightarrow> pyfloat" where
  "real_column (Finite x) =
     (let y = to_single x in if 2 ^ 128 \<le> y then PosInf else if y \<le> - (2 ^ 128) then NegInf else Finite y)"
| "real_column x = x"

text \<open>0.8 comes back as another number, and 1e39 is out of range.\<close>

lemma float_0_8: "float_lit 8 10 = 7205759403792794 / 9007199254740992"
  using to_double_eq [of "8 / 10" "- 1" 7205759403792794]
  by (simp add: float_lit_def power_int_def power_divide)

lemma to_single_0_8: "to_single (float_lit 8 10) = 13421773 / 16777216"
proof -
  have e: "exponent (float_lit 8 10) = - 1"
    using exponent_unique [of "float_lit 8 10" "- 1"] by (simp add: float_0_8 power_int_def)
  have "\<lfloor>float_lit 8 10 * 16777216\<rfloor> = 13421772" by (rule floor_unique) (simp_all add: float_0_8)
  then have "round_even (float_lit 8 10 * 16777216) = 13421773" by (simp add: round_even_def Let_def float_0_8)
  moreover have u: "(2 :: rat) powi (- 24) = 1 / 16777216" by (simp add: power_int_def power_one_over)
  moreover have "0 < float_lit 8 10" by (simp add: float_0_8)
  ultimately show ?thesis using e by (simp add: to_single_def Let_def)
qed

lemma real_column_0_8: "real_column (Finite (float_lit 8 10)) = Finite (13421773 / 16777216)"
  by (simp add: to_single_0_8)

lemma real_range: "\<not> real_ok real_column (Finite (2 ^ 200))"
proof -
  define x u :: rat where "x = 2 ^ 200" and "u = 2 powi 177"
  have x: "0 < x" "exponent x = 200" "2 ^ 128 \<le> x"
    unfolding x_def by (simp, rule exponent_unique) (simp_all add: power_int_def)
  have u: "x / u = of_int (2 ^ 23)" "of_int (2 ^ 23) * u = x" unfolding x_def u_def by (simp_all add: power_int_def)
  have "to_single x = of_int (round_even (x / u)) * u" using x(1,2) by (simp add: to_single_def u_def Let_def)
  also have "round_even (x / u) = 2 ^ 23" unfolding u(1) round_even_def Let_def floor_of_int by simp
  finally have "to_single x = x" using u(2) by simp
  then have "real_column (Finite x) = PosInf" using x(3) by (simp add: Let_def)
  then show ?thesis unfolding x_def by (simp add: real_ok_def infinite_float_def)
qed

end
