(* ===== verification/Rules.thy ===== *)
theory Rules
  imports Merge Postgres
begin

text \<open>
  \<open>src/rules\<close>: the layered rule base and the customers' exception entries, each with its
  in-memory and its Postgres backend. A table is the list of its rows; the order in which the
  database returns rows without \<open>ORDER BY\<close> is the parameter \<open>order\<close>, of which only is used that
  it permutes the rows (\<open>row_order\<close>); \<open>ILIKE\<close>, \<open>str.lower\<close> and the rounding of a double to the
  column type \<open>real\<close> are parameters too. The contracts of the stores are the locales
  \<open>rule_reader\<close>, \<open>tier3_store\<close>, \<open>isolated_store\<close> and \<open>exception_store\<close>.
\<close>

section \<open>Rules\<close>

record rule =
  r_rule_id :: ustr
  r_tier :: int
  r_entity_type :: ustr
  r_description :: ustr
  r_country_code :: "ustr option"
  r_industry :: "ustr option"
  r_customer_id :: "ustr option"
  r_enabled :: bool
  r_confidence_floor :: pyfloat
  r_keywords :: "ustr list"

definition rule_post_init :: "rule \<Rightarrow> rule res" where
  "rule_post_init r =
     (if r_tier r = 1 \<and> \<not> truthy_str (r_country_code r) then Inl ValueError
      else if r_tier r = 3 \<and> \<not> truthy_str (r_customer_id r) then Inl ValueError
      else Inr r)"

section \<open>The in-memory rule store\<close>

record rule_store =
  rs_rules :: "(ustr, rule) dict"

definition new_rule_store :: "rule list \<Rightarrow> rule_store" where
  "new_rule_store seed = \<lparr>rs_rules = fold (\<lambda>r. dict_set (r_rule_id r) r) seed []\<rparr>"

definition in_industries :: "ustr list option \<Rightarrow> rule \<Rightarrow> bool" where
  "in_industries industries r =
     (case industries of None \<Rightarrow> True | Some [] \<Rightarrow> True
      | Some inds \<Rightarrow> (case r_industry r of None \<Rightarrow> False | Some i \<Rightarrow> i \<in> set inds))"

definition listed :: "customer_context \<Rightarrow> ustr list option \<Rightarrow> rule \<Rightarrow> bool" where
  "listed ctx industries r =
     (if \<not> r_enabled r then False
      else if r_tier r = 1 \<and> r_country_code r = Some (cc_country_code ctx) then True
      else if r_tier r = 2 \<and> in_industries industries r then True
      else r_tier r = 3 \<and> r_customer_id r = Some (cc_customer_id ctx))"

definition list_for_customer :: "scope \<Rightarrow> ustr list option \<Rightarrow> rule_store \<Rightarrow> rule list res" where
  "list_for_customer cur industries st =
     bindE (require_customer cur) (\<lambda>ctx.
       Inr (filter (listed ctx industries) (map snd (rs_rules st))))"

definition keyword_score :: "(ustr \<Rightarrow> ustr) \<Rightarrow> ustr list \<Rightarrow> rule \<Rightarrow> nat" where
  "keyword_score lower terms r =
     length (filter (\<lambda>t. contained (lower t) (lower (r_description r)) \<or>
       lower t \<in> set (map lower (r_keywords r))) terms)"

definition searched :: "customer_context \<Rightarrow> rule \<Rightarrow> bool" where
  "searched ctx r =
     (if \<not> r_enabled r then False
      else if r_tier r = 3 \<and> r_customer_id r \<noteq> Some (cc_customer_id ctx) then False
      else \<not> (r_tier r = 1 \<and> r_country_code r \<noteq> Some (cc_country_code ctx)))"

text \<open>
  Scoring, keeping the rules with a positive score and sorting by descending score; the stable
  sort leaves ties in the order of the rules.
\<close>

definition ranked :: "(rule \<Rightarrow> nat) \<Rightarrow> rule list \<Rightarrow> (nat \<times> rule) list" where
  "ranked score rs =
     sort_key (\<lambda>x. - int (fst x)) (filter (\<lambda>(s, r). s \<noteq> 0) (map (\<lambda>r. (score r, r)) rs))"

definition search_keywords ::
    "(ustr \<Rightarrow> ustr) \<Rightarrow> scope \<Rightarrow> ustr list \<Rightarrow> int \<Rightarrow> rule_store \<Rightarrow> rule list res" where
  "search_keywords lower cur terms limit st =
     bindE (require_customer cur) (\<lambda>ctx.
       let scored = ranked (keyword_score lower terms) (filter (searched ctx) (map snd (rs_rules st)))
       in Inr (map snd (py_slice scored 0 limit)))"

definition upsert_tier3 :: "scope \<Rightarrow> rule \<Rightarrow> rule_store \<Rightarrow> rule_store res" where
  "upsert_tier3 cur r st =
     bindE (require_customer cur) (\<lambda>ctx.
       if r_tier r \<noteq> 3 then Inl ValueError
       else if r_customer_id r \<noteq> Some (cc_customer_id ctx) then Inl PermissionError
       else Inr (st\<lparr>rs_rules := dict_set (r_rule_id r) r (rs_rules st)\<rparr>))"

definition delete_tier3 :: "scope \<Rightarrow> ustr \<Rightarrow> rule_store \<Rightarrow> rule_store res" where
  "delete_tier3 cur rid st =
     bindE (require_customer cur) (\<lambda>ctx.
       case map_of (rs_rules st) rid of None \<Rightarrow> Inr st
       | Some existing \<Rightarrow>
           if r_tier existing \<noteq> 3 \<or> r_customer_id existing \<noteq> Some (cc_customer_id ctx)
           then Inl PermissionError
           else Inr (st\<lparr>rs_rules := dict_pop rid (rs_rules st)\<rparr>))"

section \<open>The Postgres rule store\<close>

type_synonym rule_table = "rule list"

definition row_order :: "('r list \<Rightarrow> 'r list) \<Rightarrow> bool" where
  "row_order order = (\<forall>rows. mset (order rows) = mset rows)"

definition row_to_rule :: "rule \<Rightarrow> rule res" where
  "row_to_rule row = rule_post_init row"

text \<open>
  The \<open>WHERE\<close> clauses. A comparison with \<open>NULL\<close> is not true, and no clause is negated, so a
  row is selected exactly when the formula holds with such comparisons false.
\<close>

definition where_listed :: "customer_context \<Rightarrow> ustr list option \<Rightarrow> rule \<Rightarrow> bool" where
  "where_listed ctx industries row =
     (r_enabled row \<and>
      (r_tier row = 1 \<and> r_country_code row = Some (cc_country_code ctx) \<or>
       r_tier row = 3 \<and> r_customer_id row = Some (cc_customer_id ctx) \<or>
       (case industries of None \<Rightarrow> r_tier row = 2 | Some [] \<Rightarrow> r_tier row = 2
        | Some inds \<Rightarrow> r_tier row = 2 \<and> (\<exists>i \<in> set inds. r_industry row = Some i))))"

definition pg_list_for_customer ::
    "(rule list \<Rightarrow> rule list) \<Rightarrow> scope \<Rightarrow> ustr list option \<Rightarrow> rule_table \<Rightarrow> rule list res" where
  "pg_list_for_customer order cur industries tbl =
     bindE (require_customer cur) (\<lambda>ctx.
       mapE row_to_rule (order (filter (where_listed ctx industries) tbl)))"

definition where_searched :: "(ustr \<Rightarrow> ustr \<Rightarrow> bool) \<Rightarrow> customer_context \<Rightarrow> ustr list \<Rightarrow> rule \<Rightarrow> bool" where
  "where_searched ilike ctx terms row =
     (r_enabled row \<and>
      (r_tier row = 1 \<and> r_country_code row = Some (cc_country_code ctx) \<or> r_tier row = 2 \<or>
       r_tier row = 3 \<and> r_customer_id row = Some (cc_customer_id ctx)) \<and>
      ((\<exists>t \<in> set terms. ilike (r_description row) (37 # t @ [37])) \<or>
       (\<exists>k \<in> set (r_keywords row). k \<in> set terms)))"

definition pg_search_keywords ::
    "(rule list \<Rightarrow> rule list) \<Rightarrow> (ustr \<Rightarrow> ustr \<Rightarrow> bool) \<Rightarrow> scope \<Rightarrow> ustr list \<Rightarrow> int \<Rightarrow> rule_table \<Rightarrow> rule list res" where
  "pg_search_keywords order ilike cur terms limit tbl =
     bindE (require_customer cur) (\<lambda>ctx.
       if terms = [] then Inr []
       else if limit < 0 then Inl (ExternalError 2201)
       else mapE row_to_rule (take (nat limit) (order (filter (where_searched ilike ctx terms) tbl))))"

text \<open>
  The \<open>INSERT\<close> refuses a rule with a text or a confidence floor that the columns do not take; \<open>Schema\<close>
  has the statement over the columns. The queries are taken to get such texts as their arguments.
\<close>

definition rule_storable :: "(pyfloat \<Rightarrow> pyfloat) \<Rightarrow> rule \<Rightarrow> bool" where
  "rule_storable to_real r =
     (text_ok (r_rule_id r) \<and> - 32768 \<le> r_tier r \<and> r_tier r \<le> 32767 \<and> text_ok (r_entity_type r) \<and> text_ok (r_description r) \<and>
      option_ok (r_country_code r) \<and> option_ok (r_industry r) \<and> option_ok (r_customer_id r) \<and>
      real_ok to_real (r_confidence_floor r) \<and> (\<forall>s \<in> set (r_keywords r). text_ok s))"

definition upsert_row :: "(pyfloat \<Rightarrow> pyfloat) \<Rightarrow> rule \<Rightarrow> rule \<Rightarrow> rule" where
  "upsert_row to_real r row =
     (if r_rule_id row = r_rule_id r \<and> r_customer_id row = r_customer_id r
      then row\<lparr>r_description := r_description r, r_entity_type := r_entity_type r,
             r_enabled := r_enabled r, r_confidence_floor := to_real (r_confidence_floor r),
             r_keywords := r_keywords r\<rparr>
      else row)"

definition pg_upsert_tier3 :: "(pyfloat \<Rightarrow> pyfloat) \<Rightarrow> scope \<Rightarrow> rule \<Rightarrow> rule_table \<Rightarrow> rule_table res" where
  "pg_upsert_tier3 to_real cur r tbl =
     bindE (require_customer cur) (\<lambda>ctx.
       if r_tier r \<noteq> 3 \<or> r_customer_id r \<noteq> Some (cc_customer_id ctx) then Inl PermissionError
       else if \<not> rule_storable to_real r then Inl (ExternalError 22021)
       else if \<exists>row \<in> set tbl. r_rule_id row = r_rule_id r
       then Inr (map (upsert_row to_real r) tbl)
       else Inr (tbl @ [r\<lparr>r_confidence_floor := to_real (r_confidence_floor r)\<rparr>]))"

definition pg_delete_tier3 :: "scope \<Rightarrow> ustr \<Rightarrow> rule_table \<Rightarrow> rule_table res" where
  "pg_delete_tier3 cur rid tbl =
     bindE (require_customer cur) (\<lambda>ctx.
       Inr (filter (\<lambda>row. \<not> (r_rule_id row = rid \<and> r_tier row = 3 \<and>
         r_customer_id row = Some (cc_customer_id ctx))) tbl))"

section \<open>Exception entries\<close>

record rule_exception =
  x_exception_id :: ustr
  x_customer_id :: ustr
  x_rule_id :: "ustr option"
  x_entity_type :: "ustr option"
  x_text_match :: "ustr option"
  x_note :: "ustr option"

definition to_entry :: "rule_exception \<Rightarrow> exception_entry" where
  "to_entry e = \<lparr>ee_rule_id = x_rule_id e, ee_entity_type = x_entity_type e, ee_text_match = x_text_match e\<rparr>"

record rule_exception_store =
  xs_by_customer :: "(ustr, rule_exception list) dict"

definition new_exception_store :: rule_exception_store where
  "new_exception_store = \<lparr>xs_by_customer = []\<rparr>"

definition entries_of :: "ustr \<Rightarrow> rule_exception_store \<Rightarrow> rule_exception list" where
  "entries_of cid st = (case map_of (xs_by_customer st) cid of None \<Rightarrow> [] | Some es \<Rightarrow> es)"

definition list_active :: "scope \<Rightarrow> rule_exception_store \<Rightarrow> exception_entry list res" where
  "list_active cur st =
     bindE (require_customer cur) (\<lambda>ctx. Inr (map to_entry (entries_of (cc_customer_id ctx) st)))"

definition add_exception :: "scope \<Rightarrow> rule_exception \<Rightarrow> rule_exception_store \<Rightarrow> rule_exception_store res" where
  "add_exception cur exc st =
     bindE (require_customer cur) (\<lambda>ctx.
       if x_customer_id exc \<noteq> cc_customer_id ctx then Inl PermissionError
       else Inr (st\<lparr>xs_by_customer := dict_set (cc_customer_id ctx)
              (entries_of (cc_customer_id ctx) st @ [exc]) (xs_by_customer st)\<rparr>))"

definition remove_exception :: "scope \<Rightarrow> ustr \<Rightarrow> rule_exception_store \<Rightarrow> rule_exception_store res" where
  "remove_exception cur eid st =
     bindE (require_customer cur) (\<lambda>ctx.
       Inr (st\<lparr>xs_by_customer := dict_set (cc_customer_id ctx)
         (filter (\<lambda>e. x_exception_id e \<noteq> eid) (entries_of (cc_customer_id ctx) st)) (xs_by_customer st)\<rparr>))"

type_synonym exception_table = "rule_exception list"

definition pg_list_active ::
    "(rule_exception list \<Rightarrow> rule_exception list) \<Rightarrow> scope \<Rightarrow> exception_table \<Rightarrow> exception_entry list res" where
  "pg_list_active order cur tbl =
     bindE (require_customer cur) (\<lambda>ctx.
       Inr (map to_entry (order (filter (\<lambda>e. x_customer_id e = cc_customer_id ctx) tbl))))"

definition exception_storable :: "rule_exception \<Rightarrow> bool" where
  "exception_storable e =
     (text_ok (x_exception_id e) \<and> text_ok (x_customer_id e) \<and> option_ok (x_rule_id e) \<and> option_ok (x_entity_type e) \<and>
      option_ok (x_text_match e) \<and> option_ok (x_note e))"

text \<open>The primary key: an id that is present, whoever owns it, makes the insertion fail.\<close>

definition pg_add_exception :: "scope \<Rightarrow> rule_exception \<Rightarrow> exception_table \<Rightarrow> exception_table res" where
  "pg_add_exception cur exc tbl =
     bindE (require_customer cur) (\<lambda>ctx.
       if x_customer_id exc \<noteq> cc_customer_id ctx then Inl PermissionError
       else if \<not> exception_storable exc then Inl (ExternalError 22021)
       else if x_exception_id exc \<in> x_exception_id ` set tbl then Inl (ExternalError 23505)
       else Inr (tbl @ [exc]))"

definition pg_remove_exception :: "scope \<Rightarrow> ustr \<Rightarrow> exception_table \<Rightarrow> exception_table res" where
  "pg_remove_exception cur eid tbl =
     bindE (require_customer cur) (\<lambda>ctx.
       Inr (filter (\<lambda>e. \<not> (x_exception_id e = eid \<and> x_customer_id e = cc_customer_id ctx)) tbl))"

section \<open>What the stores promise\<close>

text \<open>
  A rule belongs to a customer when it names it; the vendor's rules (Tier 1 and 2) name none.
  \<open>rules_of\<close> is the content of a store in either backend.
\<close>

definition owned :: "customer_context \<Rightarrow> rule \<Rightarrow> bool" where
  "owned ctx r = (r_customer_id r = Some (cc_customer_id ctx))"

definition ctx_ok :: "customer_context \<Rightarrow> bool" where
  "ctx_ok ctx = (cc_customer_id ctx \<noteq> [] \<and> cc_country_code ctx \<noteq> [])"

definition rule_ok :: "rule \<Rightarrow> bool" where
  "rule_ok r = (r_tier r \<in> {1, 2, 3} \<and> (r_tier r \<noteq> 3 \<longrightarrow> r_customer_id r = None))"

lemma listed_iff:
  "listed ctx inds r \<longleftrightarrow> r_enabled r \<and>
     (r_tier r = 1 \<and> r_country_code r = Some (cc_country_code ctx) \<or>
      r_tier r = 2 \<and> in_industries inds r \<or>
      r_tier r = 3 \<and> r_customer_id r = Some (cc_customer_id ctx))"
  by (auto simp: listed_def)

locale rule_reader =
  fixes inv :: "'s \<Rightarrow> bool"
    and rules_of :: "'s \<Rightarrow> rule list"
    and list_rules :: "scope \<Rightarrow> ustr list option \<Rightarrow> 's \<Rightarrow> rule list res"
  assumes list_content: "inv s \<Longrightarrow> list_rules (Some ctx) inds s = Inr rs \<Longrightarrow>
      mset rs = mset (filter (listed ctx inds) (rules_of s))"
    and list_unscoped: "list_rules None inds s = Inl MissingTenantScopeError"
    and list_total: "inv s \<Longrightarrow> ctx_ok ctx \<Longrightarrow> isOk (list_rules (Some ctx) inds s)"
begin

lemma list_member:
  "inv s \<Longrightarrow> list_rules (Some ctx) inds s = Inr rs \<Longrightarrow> set rs = {r \<in> set (rules_of s). listed ctx inds r}"
  by (drule (1) list_content, drule mset_eq_setD) simp

lemma list_enabled_own:
  assumes "inv s" "list_rules (Some ctx) inds s = Inr rs" "r \<in> set rs"
  shows "r_enabled r \<and> (r_tier r = 3 \<longrightarrow> owned ctx r) \<and>
    (r_tier r = 1 \<longrightarrow> r_country_code r = Some (cc_country_code ctx))"
  using list_member [OF assms(1,2)] assms(3) by (auto simp: listed_iff owned_def)

end

text \<open>A store whose customer operations touch Tier 3 rows of the customer only when deleting.\<close>

locale tier3_store = rule_reader +
  fixes upsert :: "scope \<Rightarrow> rule \<Rightarrow> 's \<Rightarrow> 's res"
    and delete :: "scope \<Rightarrow> ustr \<Rightarrow> 's \<Rightarrow> 's res"
  assumes upsert_inv: "inv s \<Longrightarrow> upsert cur r s = Inr s' \<Longrightarrow> inv s'"
    and upsert_own: "upsert cur r s = Inr s' \<Longrightarrow> r_tier r = 3 \<and> (\<exists>ctx. cur = Some ctx \<and> owned ctx r)"
    and delete_inv: "inv s \<Longrightarrow> delete cur rid s = Inr s' \<Longrightarrow> inv s'"
    and delete_effect: "inv s \<Longrightarrow> delete (Some ctx) rid s = Inr s' \<Longrightarrow>
      rules_of s' = filter (\<lambda>r. \<not> (r_rule_id r = rid \<and> r_tier r = 3 \<and> owned ctx r)) (rules_of s)"
begin

lemma delete_keeps_others:
  assumes "inv s" "delete (Some ctx) rid s = Inr s'" "cc_customer_id ctx' \<noteq> cc_customer_id ctx"
    and "list_rules (Some ctx') inds s = Inr rs" "list_rules (Some ctx') inds s' = Inr rs'"
  shows "mset rs' = mset rs"
proof -
  have "filter (listed ctx' inds) (rules_of s') = filter (listed ctx' inds) (rules_of s)"
    using assms(3) by (auto simp: delete_effect [OF assms(1,2)] listed_iff owned_def intro!: filter_cong)
  then show ?thesis
    using list_content [OF assms(1,4)] list_content [OF delete_inv [OF assms(1,2)] assms(5)] by simp
qed

end

text \<open>A store whose upsert leaves every rule of another owner alone.\<close>

locale isolated_store = tier3_store +
  assumes upsert_foreign: "inv s \<Longrightarrow> upsert (Some ctx) r s = Inr s' \<Longrightarrow>
      filter (\<lambda>r. \<not> owned ctx r) (rules_of s') = filter (\<lambda>r. \<not> owned ctx r) (rules_of s)"
    and vendor_rules: "inv s \<Longrightarrow> r \<in> set (rules_of s) \<Longrightarrow> rule_ok r"
begin

lemma foreign_listed:
  "rule_ok r \<Longrightarrow> owned ctx r \<Longrightarrow> cc_customer_id ctx' \<noteq> cc_customer_id ctx \<Longrightarrow> \<not> listed ctx' inds r"
  by (auto simp: rule_ok_def owned_def listed_iff)

lemma listed_foreign:
  assumes "inv s" "cc_customer_id ctx' \<noteq> cc_customer_id ctx"
  shows "filter (listed ctx' inds) (rules_of s) =
    filter (listed ctx' inds) (filter (\<lambda>r. \<not> owned ctx r) (rules_of s))"
  using foreign_listed [OF vendor_rules [OF assms(1)] _ assms(2)] by (auto intro!: filter_cong)

lemma upsert_keeps_others:
  assumes "inv s" "upsert (Some ctx) r s = Inr s'" "cc_customer_id ctx' \<noteq> cc_customer_id ctx"
    and "list_rules (Some ctx') inds s = Inr rs" "list_rules (Some ctx') inds s' = Inr rs'"
  shows "mset rs' = mset rs"
  using list_content [OF assms(1,4)] list_content [OF upsert_inv [OF assms(1,2)] assms(5)]
    upsert_foreign [OF assms(1,2)] listed_foreign [OF assms(1,3), of inds]
    listed_foreign [OF upsert_inv [OF assms(1,2)] assms(3), of inds]
  by simp

end

section \<open>The backends keep the promises\<close>

definition store_rules :: "rule_store \<Rightarrow> rule list" where
  "store_rules st = map snd (rs_rules st)"

definition rule_store_ok :: "rule_store \<Rightarrow> bool" where
  "rule_store_ok st = (dict_ok (rs_rules st) \<and> (\<forall>(k, r) \<in> set (rs_rules st). k = r_rule_id r))"

lemma fold_rules_ok:
  assumes "dict_ok d" "\<forall>(k, r) \<in> set d. k = r_rule_id r"
  shows "dict_ok (fold (\<lambda>r. dict_set (r_rule_id r) r) seed d) \<and>
    (\<forall>(k, r) \<in> set (fold (\<lambda>r. dict_set (r_rule_id r) r) seed d). k = r_rule_id r)"
  using assms by (induction seed arbitrary: d) (auto dest!: in_set_dict_set)

lemma new_rule_store_ok: "rule_store_ok (new_rule_store seed)"
  using fold_rules_ok [of "[]" seed] by (auto simp: rule_store_ok_def new_rule_store_def)

lemma store_rules_delete:
  assumes "rule_store_ok st"
  shows "map snd (dict_pop rid (rs_rules st)) = filter (\<lambda>r. r_rule_id r \<noteq> rid) (store_rules st)"
  using assms unfolding rule_store_ok_def store_rules_def AList.delete_eq filter_map
  by (auto simp: comp_def intro!: arg_cong [of _ _ "map snd"] filter_cong)

lemma store_rule_at:
  assumes "rule_store_ok st" "r \<in> set (store_rules st)"
  shows "map_of (rs_rules st) (r_rule_id r) = Some r"
  using assms by (auto simp: rule_store_ok_def store_rules_def)

lemma delete_memory_effect:
  assumes "rule_store_ok st" "delete_tier3 (Some ctx) rid st = Inr st'"
  shows "store_rules st' = filter (\<lambda>r. \<not> (r_rule_id r = rid \<and> r_tier r = 3 \<and> owned ctx r)) (store_rules st)"
proof (cases "map_of (rs_rules st) rid")
  case None
  then have "\<forall>r \<in> set (store_rules st). r_rule_id r \<noteq> rid"
    using store_rule_at [OF assms(1)] by force
  then show ?thesis using assms(2) None by (auto simp: delete_tier3_def intro!: filter_True [symmetric])
next
  case (Some x)
  with assms(2) have x: "r_tier x = 3" "owned ctx x" and st': "store_rules st' = map snd (dict_pop rid (rs_rules st))"
    by (auto simp: delete_tier3_def owned_def store_rules_def split: if_splits)
  have "r = x" if "r \<in> set (store_rules st)" "r_rule_id r = rid" for r
    using store_rule_at [OF assms(1) that(1)] that(2) Some by simp
  with x show ?thesis
    unfolding st' store_rules_delete [OF assms(1)] by (auto intro!: filter_cong)
qed

interpretation memory_rules: tier3_store rule_store_ok store_rules list_for_customer upsert_tier3 delete_tier3
proof
  fix s s' :: rule_store and cur r
  assume "rule_store_ok s" "upsert_tier3 cur r s = Inr s'"
  then show "rule_store_ok s'"
    by (auto simp: rule_store_ok_def upsert_tier3_def bindE_eq_Inr split: if_splits dest!: in_set_dict_set)
next
  fix s s' :: rule_store and cur rid
  assume ok: "rule_store_ok s" and del: "delete_tier3 cur rid s = Inr s'"
  from del have "s' = s \<or> s' = s\<lparr>rs_rules := dict_pop rid (rs_rules s)\<rparr>"
    by (fastforce simp: delete_tier3_def bindE_eq_Inr split: if_splits option.splits)
  with ok show "rule_store_ok s'"
    using dict_ok_pop [of "rs_rules s" rid] by (auto simp: rule_store_ok_def AList.delete_eq)
next
  fix s s' :: rule_store and ctx rid
  assume "rule_store_ok s" "delete_tier3 (Some ctx) rid s = Inr s'"
  then show "store_rules s' = filter (\<lambda>r. \<not> (r_rule_id r = rid \<and> r_tier r = 3 \<and> owned ctx r)) (store_rules s)"
    by (rule delete_memory_effect)
qed (auto simp: list_for_customer_def store_rules_def upsert_tier3_def owned_def bindE_eq_Inr
    require_customer_eq_Inr split: if_splits)

text \<open>A table keeps its key and the rules its constructor accepts; the vendor's rows name no customer.\<close>

definition rule_table_ok :: "rule_table \<Rightarrow> bool" where
  "rule_table_ok tbl = (distinct (map r_rule_id tbl) \<and> (\<forall>r \<in> set tbl. rule_ok r))"

lemma where_listed_iff: "where_listed = listed"
  by (intro ext) (auto simp: where_listed_def listed_iff in_industries_def split: option.splits list.splits)

lemma row_order_set: "row_order order \<Longrightarrow> set (order rows) = set rows"
  by (metis row_order_def mset_eq_setD)

lemma listed_constructs: "ctx_ok ctx \<Longrightarrow> listed ctx inds r \<Longrightarrow> rule_post_init r = Inr r"
  by (auto simp: ctx_ok_def listed_iff rule_post_init_def truthy_str_def)

lemma pg_list_ok:
  assumes "row_order order" "ctx_ok ctx"
  shows "pg_list_for_customer order (Some ctx) inds tbl = Inr (order (filter (listed ctx inds) tbl))"
proof -
  have "mapE row_to_rule (order (filter (listed ctx inds) tbl)) =
      Inr (map id (order (filter (listed ctx inds) tbl)))"
    by (rule mapE_total)
      (use listed_constructs [OF assms(2)] in \<open>auto simp: row_order_set [OF assms(1)] row_to_rule_def\<close>)
  then show ?thesis by (simp add: pg_list_for_customer_def where_listed_iff)
qed

lemma row_to_rule_id: "mapE row_to_rule rows = Inr rs \<Longrightarrow> rs = rows"
  by (auto simp: mapE_eq_Inr row_to_rule_def rule_post_init_def list_all2_conv_all_nth list_eq_iff_nth_eq
      split: if_splits)

lemma upsert_row_keeps:
  "r_rule_id (upsert_row f r row) = r_rule_id row" "r_tier (upsert_row f r row) = r_tier row"
  "r_customer_id (upsert_row f r row) = r_customer_id row" "rule_ok (upsert_row f r row) = rule_ok row"
  by (simp_all add: upsert_row_def rule_ok_def)

lemma owned_keeps: "owned ctx (upsert_row f r row) = owned ctx row"
  by (simp add: owned_def upsert_row_keeps)

lemma owned_floor: "owned ctx (r\<lparr>r_confidence_floor := x\<rparr>) = owned ctx r"
  by (simp add: owned_def)

lemma upsert_row_foreign: "owned ctx r \<Longrightarrow> \<not> owned ctx row \<Longrightarrow> upsert_row f r row = row"
  by (auto simp: owned_def upsert_row_def)

lemma pg_upsert_Inr:
  "pg_upsert_tier3 f cur r tbl = Inr tbl' \<longleftrightarrow> (\<exists>ctx. cur = Some ctx \<and> r_tier r = 3 \<and> owned ctx r \<and> rule_storable f r \<and>
     tbl' = (if \<exists>row \<in> set tbl. r_rule_id row = r_rule_id r then map (upsert_row f r) tbl
             else tbl @ [r\<lparr>r_confidence_floor := f (r_confidence_floor r)\<rparr>]))"
  by (auto simp: pg_upsert_tier3_def bindE_eq_Inr require_customer_eq_Inr owned_def)

text \<open>An upsert whose identifier belongs to another customer changes nothing and succeeds.\<close>

lemma pg_upsert_foreign_id:
  assumes "r_tier r = 3" "owned ctx r" "row \<in> set tbl" "r_rule_id row = r_rule_id r" "rule_storable f r"
    and "\<And>row'. row' \<in> set tbl \<Longrightarrow> r_rule_id row' = r_rule_id r \<Longrightarrow> \<not> owned ctx row'"
  shows "pg_upsert_tier3 f (Some ctx) r tbl = Inr tbl"
proof -
  have "map (upsert_row f r) tbl = tbl"
    using assms(2,6) by (intro map_idI) (auto simp: upsert_row_def owned_def)
  with assms(1-5) show ?thesis by (auto simp: pg_upsert_Inr)
qed

lemma pg_upsert_ok:
  assumes "rule_table_ok s" "pg_upsert_tier3 f cur r s = Inr s'"
  shows "rule_table_ok s'"
proof (cases "\<exists>row \<in> set s. r_rule_id row = r_rule_id r")
  case True
  with assms(2) have "s' = map (upsert_row f r) s" by (auto simp: pg_upsert_Inr)
  with assms(1) show ?thesis by (auto simp: rule_table_ok_def upsert_row_keeps comp_def)
next
  case False
  with assms(2) have "s' = s @ [r\<lparr>r_confidence_floor := f (r_confidence_floor r)\<rparr>]" "r_tier r = 3"
    by (auto simp: pg_upsert_Inr split: if_splits)
  with assms(1) False show ?thesis by (auto simp: rule_table_ok_def rule_ok_def)
qed

lemma filter_map_id: "(\<And>x. x \<in> set xs \<Longrightarrow> P (f x) = P x) \<Longrightarrow> (\<And>x. x \<in> set xs \<Longrightarrow> P x \<Longrightarrow> f x = x) \<Longrightarrow>
  filter P (map f xs) = filter P xs"
  by (induction xs) auto

lemma pg_isolated:
  assumes "row_order order"
  shows "isolated_store rule_table_ok id (pg_list_for_customer order) (pg_upsert_tier3 to_real) pg_delete_tier3"
proof
  fix s :: rule_table and ctx inds rs
  assume "rule_table_ok s" "pg_list_for_customer order (Some ctx) inds s = Inr rs"
  then show "mset rs = mset (filter (listed ctx inds) (id s))"
    using assms by (auto simp: pg_list_for_customer_def where_listed_iff row_order_def dest!: row_to_rule_id)
next
  fix s s' :: rule_table and cur r
  assume "rule_table_ok s" "pg_upsert_tier3 to_real cur r s = Inr s'"
  then show "rule_table_ok s'"
    by (rule pg_upsert_ok)
next
  fix s s' :: rule_table and ctx r
  assume "rule_table_ok s" "pg_upsert_tier3 to_real (Some ctx) r s = Inr s'"
  then show "filter (\<lambda>r. \<not> owned ctx r) (id s') = filter (\<lambda>r. \<not> owned ctx r) (id s)"
    by (auto simp: pg_upsert_Inr owned_keeps owned_floor upsert_row_foreign split: if_splits intro!: filter_map_id)
next
  fix s :: rule_table and ctx inds
  assume "ctx_ok ctx"
  then show "isOk (pg_list_for_customer order (Some ctx) inds s)"
    by (simp add: pg_list_ok [OF assms])
qed (auto simp: pg_list_for_customer_def pg_upsert_Inr pg_delete_tier3_def bindE_eq_Inr
    rule_table_ok_def distinct_map_filter owned_def)

interpretation pg_rules: isolated_store rule_table_ok id "pg_list_for_customer id" "pg_upsert_tier3 id" pg_delete_tier3
  by (rule pg_isolated) (simp add: row_order_def)

section \<open>The exception stores\<close>

text \<open>
  The operations of the customers on an exception store, and the abstract specification: every
  customer has a list of its own, which only its own operations change.
\<close>

datatype exception_op =
    Add_exc customer_context rule_exception
  | Remove_exc customer_context ustr

fun op_customer :: "exception_op \<Rightarrow> ustr" where
  "op_customer (Add_exc ctx _) = cc_customer_id ctx"
| "op_customer (Remove_exc ctx _) = cc_customer_id ctx"

fun spec_step :: "exception_op \<Rightarrow> rule_exception list \<Rightarrow> rule_exception list" where
  "spec_step (Add_exc _ x) es = es @ [x]"
| "spec_step (Remove_exc _ eid) es = filter (\<lambda>e. x_exception_id e \<noteq> eid) es"

locale exception_store =
  fixes entries :: "ustr \<Rightarrow> 's \<Rightarrow> rule_exception list"
    and list_entries :: "scope \<Rightarrow> 's \<Rightarrow> exception_entry list res"
    and add :: "scope \<Rightarrow> rule_exception \<Rightarrow> 's \<Rightarrow> 's res"
    and remove :: "scope \<Rightarrow> ustr \<Rightarrow> 's \<Rightarrow> 's res"
  assumes listing: "\<exists>es. list_entries (Some ctx) s = Inr es \<and> mset es = mset (map to_entry (entries (cc_customer_id ctx) s))"
    and unscoped: "list_entries None s = Inl MissingTenantScopeError"
    and adding: "add (Some ctx) x s = Inr s' \<Longrightarrow> x_customer_id x = cc_customer_id ctx \<and>
      entries c s' = (if c = cc_customer_id ctx then entries c s @ [x] else entries c s)"
    and removing: "remove (Some ctx) eid s = Inr s' \<Longrightarrow>
      entries c s' = (if c = cc_customer_id ctx then filter (\<lambda>e. x_exception_id e \<noteq> eid) (entries c s) else entries c s)"
begin

fun run_op :: "exception_op \<Rightarrow> 's \<Rightarrow> 's res" where
  "run_op (Add_exc ctx x) s = add (Some ctx) x s"
| "run_op (Remove_exc ctx eid) s = remove (Some ctx) eid s"

lemma run_op_entries:
  "run_op op s = Inr s' \<Longrightarrow> entries c s' = (if op_customer op = c then spec_step op (entries c s) else entries c s)"
  by (cases op) (auto simp: adding removing)

lemma run_refines:
  "foldE run_op ops s = Inr s' \<Longrightarrow>
     entries c s' = fold spec_step (filter (\<lambda>op. op_customer op = c) ops) (entries c s)"
proof (induction ops arbitrary: s)
  case (Cons op ops)
  then obtain s1 where "run_op op s = Inr s1" "foldE run_op ops s1 = Inr s'"
    by (auto simp: bindE_eq_Inr)
  with Cons.IH [of s1] run_op_entries [of op s s1 c] show ?case by simp
qed simp

end

interpretation memory_exceptions: exception_store entries_of list_active add_exception remove_exception
  by unfold_locales
    (auto simp: list_active_def add_exception_def remove_exception_def entries_of_def bindE_eq_Inr
      split: if_splits)

definition table_entries :: "ustr \<Rightarrow> exception_table \<Rightarrow> rule_exception list" where
  "table_entries cid tbl = filter (\<lambda>e. x_customer_id e = cid) tbl"

lemma pg_exception_store:
  assumes "row_order order"
  shows "exception_store table_entries (pg_list_active order) pg_add_exception pg_remove_exception"
proof
  fix ctx and s :: exception_table
  have "mset (map to_entry (order rows)) = mset (map to_entry rows)" for rows
    using assms by (simp add: row_order_def)
  then show "\<exists>es. pg_list_active order (Some ctx) s = Inr es \<and>
      mset es = mset (map to_entry (table_entries (cc_customer_id ctx) s))"
    by (simp add: pg_list_active_def table_entries_def)
next
  fix ctx eid c and s s' :: exception_table
  assume "pg_remove_exception (Some ctx) eid s = Inr s'"
  then have s': "s' = filter (\<lambda>e. \<not> (x_exception_id e = eid \<and> x_customer_id e = cc_customer_id ctx)) s"
    by (simp add: pg_remove_exception_def)
  show "table_entries c s' = (if c = cc_customer_id ctx
      then filter (\<lambda>e. x_exception_id e \<noteq> eid) (table_entries c s) else table_entries c s)"
    by (auto simp: s' table_entries_def intro!: filter_cong)
qed (auto simp: pg_list_active_def pg_add_exception_def table_entries_def bindE_eq_Inr split: if_splits)

interpretation pg_exceptions: exception_store table_entries "pg_list_active id" pg_add_exception pg_remove_exception
  by (rule pg_exception_store) (simp add: row_order_def)

lemma memory_run_total:
  assumes "\<forall>op \<in> set ops. \<forall>ctx x. op = Add_exc ctx x \<longrightarrow> x_customer_id x = cc_customer_id ctx"
  shows "\<exists>s'. foldE memory_exceptions.run_op ops s = Inr s'"
  using assms
proof (induction ops arbitrary: s)
  case (Cons op ops)
  have "\<exists>s1. memory_exceptions.run_op op s = Inr s1"
    using Cons.prems by (cases op) (auto simp: add_exception_def remove_exception_def)
  then show ?case using Cons by (auto simp: bindE_eq_Inr)
qed simp

section \<open>Ranking\<close>

lemma ranked_member: "x \<in> set (ranked score rs) \<longleftrightarrow> fst x = score (snd x) \<and> snd x \<in> set rs \<and> fst x \<noteq> 0"
  by (cases x) (auto simp: ranked_def)

lemma sorted_ranked: "sorted_wrt (\<lambda>x y. fst y \<le> fst x) (ranked score rs)"
proof -
  have "sorted (map (\<lambda>x. - int (fst x)) (ranked score rs))"
    unfolding ranked_def by (rule sorted_sort_key)
  then show ?thesis by (simp add: sorted_map)
qed

lemma mset_ranked: "mset (map snd (ranked score rs)) = mset (filter (\<lambda>r. score r \<noteq> 0) rs)"
  by (induction rs) (simp_all add: ranked_def)

text \<open>The best \<open>k\<close>: in descending order, and nothing left out scores more than what was taken.\<close>

lemma take_ranked:
  assumes "out = map snd (take k (ranked score rs))"
  shows "length out \<le> k" and "set out \<subseteq> {r \<in> set rs. score r \<noteq> 0}"
    and "sorted_wrt (\<lambda>r r'. score r' \<le> score r) out"
    and "r \<in> set rs \<Longrightarrow> score r \<noteq> 0 \<Longrightarrow> r \<notin> set out \<Longrightarrow> length out = k \<and> (\<forall>o' \<in> set out. score r \<le> score o')"
proof -
  let ?l = "ranked score rs"
  show "length out \<le> k" by (simp add: assms)
  show "set out \<subseteq> {r \<in> set rs. score r \<noteq> 0}"
    using in_set_takeD [of _ k ?l] by (force simp: assms ranked_member)
  have "sorted_wrt (\<lambda>x y. fst y \<le> fst x) (take k ?l)"
    by (rule sorted_wrt_take) (rule sorted_ranked)
  then have "sorted_wrt (\<lambda>x y. score (snd y) \<le> score (snd x)) (take k ?l)"
    by (rule sorted_wrt_mono_rel [rotated]) (auto dest!: in_set_takeD simp: ranked_member)
  then show "sorted_wrt (\<lambda>r r'. score r' \<le> score r) out" by (simp add: assms sorted_wrt_map)
  assume r: "r \<in> set rs" "score r \<noteq> 0" "r \<notin> set out"
  then have "(score r, r) \<in> set ?l" by (simp add: ranked_member)
  moreover have "(score r, r) \<notin> set (take k ?l)" using r(3) by (force simp: assms)
  ultimately have drop: "(score r, r) \<in> set (drop k ?l)" by (metis append_take_drop_id Un_iff set_append)
  then have len: "k < length ?l" by (metis drop_all leI list.set(1) empty_iff)
  have "fst (score r, r) \<le> fst x" if "x \<in> set (take k ?l)" for x
  proof -
    have "sorted_wrt (\<lambda>x y. fst y \<le> fst x) (take k ?l @ drop k ?l)" using sorted_ranked by simp
    with that drop show ?thesis unfolding sorted_wrt_append by blast
  qed
  then have "\<forall>o' \<in> set out. score r \<le> score o'"
    by (fastforce simp: assms ranked_member dest: in_set_takeD)
  with len show "length out = k \<and> (\<forall>o' \<in> set out. score r \<le> score o')" by (simp add: assms)
qed

lemma py_slice_prefix: "0 \<le> k \<Longrightarrow> py_slice xs 0 k = take (nat k) xs"
  by (auto simp: py_slice_def slice_bound_def min_def Let_def)

section \<open>Properties\<close>

text \<open>
  C18. Postgres isolation: whatever rule a customer upserts or deletes, the rules every other
  customer is shown stay the same.
\<close>

theorem pg_rules_isolated:
  assumes "row_order order" and "rule_table_ok tbl"
    and "pg_upsert_tier3 to_real (Some ctx) r tbl = Inr tbl' \<or> pg_delete_tier3 (Some ctx) rid tbl = Inr tbl'"
    and "cc_customer_id ctx' \<noteq> cc_customer_id ctx" and "ctx_ok ctx'"
  shows "\<exists>rs rs'. pg_list_for_customer order (Some ctx') inds tbl = Inr rs \<and>
    pg_list_for_customer order (Some ctx') inds tbl' = Inr rs' \<and> mset rs' = mset rs"
proof -
  note store = pg_isolated [OF assms(1), of to_real]
  note lists = pg_list_ok [OF assms(1,5), of inds]
  from assms(3) show ?thesis
  proof
    assume "pg_upsert_tier3 to_real (Some ctx) r tbl = Inr tbl'"
    from isolated_store.upsert_keeps_others [OF store assms(2) this assms(4) lists lists]
    show ?thesis using lists by blast
  next
    assume "pg_delete_tier3 (Some ctx) rid tbl = Inr tbl'"
    from tier3_store.delete_keeps_others [OF isolated_store.axioms(1) [OF store] assms(2) this assms(4) lists lists]
    show ?thesis using lists by blast
  qed
qed

text \<open>
  The in-memory upsert has no such guard: a customer's rule that reuses the id of another
  customer's rule, or of a vendor rule, takes its place, and the old rule is gone for everyone.
\<close>

theorem memory_upsert_takes_over:
  assumes "rule_store_ok st" and "old \<in> set (store_rules st)" and "r_rule_id r = r_rule_id old" and "r \<noteq> old"
    and "r_tier r = 3" and "r_customer_id r = Some (cc_customer_id ctx)"
  shows "\<exists>st'. upsert_tier3 (Some ctx) r st = Inr st' \<and> old \<notin> set (store_rules st') \<and>
    (cc_customer_id ctx' \<noteq> cc_customer_id ctx \<longrightarrow>
      (\<exists>rs. list_for_customer (Some ctx') inds st' = Inr rs \<and> (\<forall>x \<in> set rs. r_rule_id x \<noteq> r_rule_id old)))"
proof -
  let ?st' = "st\<lparr>rs_rules := dict_set (r_rule_id r) r (rs_rules st)\<rparr>"
  have up: "upsert_tier3 (Some ctx) r st = Inr ?st'" using assms(5,6) by (simp add: upsert_tier3_def)
  note ok = memory_rules.upsert_inv [OF assms(1) up]
  have only: "x = r" if "x \<in> set (store_rules ?st')" "r_rule_id x = r_rule_id old" for x
    using store_rule_at [OF ok that(1)] that(2) assms(3) by simp
  then have "old \<notin> set (store_rules ?st')" using assms(4) by blast
  moreover have "r_rule_id x \<noteq> r_rule_id old"
    if "cc_customer_id ctx' \<noteq> cc_customer_id ctx" "x \<in> set (store_rules ?st')" "listed ctx' inds x" for x
    using only [OF that(2)] that(1,3) assms(5,6) by (auto simp: listed_iff)
  ultimately show ?thesis
    using up by (auto simp: list_for_customer_def store_rules_def)
qed

text \<open>
  The two backends agree: on the same rules a customer of a constructed context is listed
  the same rules, each as often, and neither backend raises.
\<close>

theorem backends_list_alike:
  assumes "row_order order" and "mset tbl = mset (store_rules st)" and "ctx_ok ctx"
  shows "\<exists>rs rs'. list_for_customer (Some ctx) inds st = Inr rs \<and>
    pg_list_for_customer order (Some ctx) inds tbl = Inr rs' \<and> mset rs' = mset rs"
proof -
  have "mset (order (filter (listed ctx inds) tbl)) = mset (filter (listed ctx inds) (store_rules st))"
    using assms(1,2) by (simp add: row_order_def)
  then show ?thesis
    using pg_list_ok [OF assms(1,3)] by (simp add: list_for_customer_def store_rules_def)
qed

text \<open>
  C15. The exception stores refine one list per customer: after any sequence of operations that
  the in-memory store and the Postgres store accept, both list for a customer the outcome of
  that customer's own operations, whatever the others did in between.
\<close>

theorem exceptions_refine:
  assumes "row_order order"
    and "foldE memory_exceptions.run_op ops new_exception_store = Inr st"
    and "foldE pg_exceptions.run_op ops [] = Inr tbl"
    and "es = fold spec_step (filter (\<lambda>op. op_customer op = cc_customer_id ctx) ops) []"
  shows "list_active (Some ctx) st = Inr (map to_entry es) \<and>
    (\<exists>es'. pg_list_active order (Some ctx) tbl = Inr es' \<and> mset es' = mset (map to_entry es))"
proof -
  have "entries_of (cc_customer_id ctx) st = es"
    using memory_exceptions.run_refines [OF assms(2), of "cc_customer_id ctx"] assms(4)
    by (simp add: entries_of_def new_exception_store_def)
  moreover have "table_entries (cc_customer_id ctx) tbl = es"
    using pg_exceptions.run_refines [OF assms(3), of "cc_customer_id ctx"] assms(4)
    by (simp add: table_entries_def)
  ultimately show ?thesis
    using exception_store.listing [OF pg_exception_store [OF assms(1)], of ctx tbl]
    by (simp add: list_active_def)
qed

text \<open>
  Keyword search returns at most \<open>limit\<close> rules, all visible to the customer and matching a
  term, by descending score, and leaves out no rule that scores more than one it returns.
\<close>

theorem search_best:
  assumes "search_keywords lower (Some ctx) terms limit st = Inr out" and "0 \<le> limit"
    and "score = keyword_score lower terms"
  shows "length out \<le> nat limit \<and> sorted_wrt (\<lambda>r r'. score r' \<le> score r) out \<and>
    (\<forall>r \<in> set out. r \<in> set (store_rules st) \<and> searched ctx r \<and> score r \<noteq> 0) \<and>
    (\<forall>r \<in> set (store_rules st). searched ctx r \<and> score r \<noteq> 0 \<and> r \<notin> set out \<longrightarrow>
      length out = nat limit \<and> (\<forall>o' \<in> set out. score r \<le> score o'))"
proof -
  have out: "out = map snd (take (nat limit) (ranked score (filter (searched ctx) (store_rules st))))"
    using assms by (simp add: search_keywords_def Let_def py_slice_prefix store_rules_def)
  note best = take_ranked [OF out]
  show ?thesis using best(1,3) subsetD [OF best(2)] best(4) by auto
qed

section \<open>Witnesses\<close>

definition tenant :: "nat \<Rightarrow> customer_context" where
  "tenant n = \<lparr>cc_customer_id = [n], cc_country_code = lit ''DZ'', cc_plan = Starter\<rparr>"

definition tenant_rule :: "nat \<Rightarrow> ustr \<Rightarrow> rule" where
  "tenant_rule n rid = \<lparr>r_rule_id = rid, r_tier = 3, r_entity_type = lit ''custom'', r_description = lit ''project'',
     r_country_code = None, r_industry = None, r_customer_id = Some [n], r_enabled = True,
     r_confidence_floor = Finite 0, r_keywords = []\<rparr>"

definition tenant_exception :: "nat \<Rightarrow> ustr \<Rightarrow> rule_exception" where
  "tenant_exception n eid = \<lparr>x_exception_id = eid, x_customer_id = [n], x_rule_id = Some eid,
     x_entity_type = None, x_text_match = None, x_note = None\<rparr>"

lemmas tenant_defs = tenant_def tenant_rule_def tenant_exception_def

lemma tenants_storable:
  "0 < n \<Longrightarrow> n < 128 \<Longrightarrow> text_ok rid \<Longrightarrow> rule_storable id (tenant_rule n rid)"
  "0 < n \<Longrightarrow> n < 128 \<Longrightarrow> text_ok eid \<Longrightarrow> exception_storable (tenant_exception n eid)"
  by (simp_all add: rule_storable_def exception_storable_def tenant_rule_def tenant_exception_def text_ok_ascii real_ok_def infinite_float_def)

lemma pg_rules_isolated_witness:
  "\<exists>tbl' rs rs'. pg_upsert_tier3 id (Some (tenant 1)) (tenant_rule 1 (lit ''a'')) [tenant_rule 2 (lit ''a'')] = Inr tbl' \<and>
    pg_list_for_customer id (Some (tenant 2)) None [tenant_rule 2 (lit ''a'')] = Inr rs \<and>
    pg_list_for_customer id (Some (tenant 2)) None tbl' = Inr rs' \<and> mset rs' = mset rs"
proof -
  obtain tbl' where up: "pg_upsert_tier3 id (Some (tenant 1)) (tenant_rule 1 (lit ''a'')) [tenant_rule 2 (lit ''a'')] = Inr tbl'"
    using tenants_storable(1) [of 1 "lit ''a''"] by (simp add: text_ok_ascii pg_upsert_tier3_def tenant_defs)
  have "\<exists>rs rs'. pg_list_for_customer id (Some (tenant 2)) None [tenant_rule 2 (lit ''a'')] = Inr rs \<and>
      pg_list_for_customer id (Some (tenant 2)) None tbl' = Inr rs' \<and> mset rs' = mset rs"
    by (rule pg_rules_isolated [where ctx = "tenant 1" and to_real = id and r = "tenant_rule 1 (lit ''a'')"])
      (use up in \<open>simp_all add: row_order_def rule_table_ok_def rule_ok_def ctx_ok_def tenant_defs\<close>)
  with up show ?thesis by blast
qed

lemma memory_upsert_takes_over_witness:
  "\<exists>st'. upsert_tier3 (Some (tenant 1)) (tenant_rule 1 (lit ''a'')) (new_rule_store [tenant_rule 2 (lit ''a'')]) = Inr st' \<and>
    list_for_customer (Some (tenant 2)) None (new_rule_store [tenant_rule 2 (lit ''a'')]) = Inr [tenant_rule 2 (lit ''a'')] \<and>
    tenant_rule 2 (lit ''a'') \<notin> set (store_rules st')"
proof -
  have "tenant_rule 2 (lit ''a'') \<in> set (store_rules (new_rule_store [tenant_rule 2 (lit ''a'')]))"
    by (simp add: store_rules_def new_rule_store_def)
  from memory_upsert_takes_over [OF new_rule_store_ok this, of "tenant_rule 1 (lit ''a'')" "tenant 1" "tenant 2" None]
  show ?thesis
    by (auto simp: tenant_defs list_for_customer_def listed_def new_rule_store_def)
qed

lemma backends_list_alike_witness:
  "\<exists>rs'. list_for_customer (Some (tenant 2)) None (new_rule_store [tenant_rule 2 (lit ''a'')]) = Inr [tenant_rule 2 (lit ''a'')] \<and>
    pg_list_for_customer rev (Some (tenant 2)) None [tenant_rule 2 (lit ''a'')] = Inr rs' \<and> mset rs' = mset [tenant_rule 2 (lit ''a'')]"
proof -
  have "list_for_customer (Some (tenant 2)) None (new_rule_store [tenant_rule 2 (lit ''a'')]) = Inr [tenant_rule 2 (lit ''a'')]"
    by (simp add: list_for_customer_def listed_def new_rule_store_def tenant_defs)
  moreover have "\<exists>rs rs'. list_for_customer (Some (tenant 2)) None (new_rule_store [tenant_rule 2 (lit ''a'')]) = Inr rs \<and>
      pg_list_for_customer rev (Some (tenant 2)) None [tenant_rule 2 (lit ''a'')] = Inr rs' \<and> mset rs' = mset rs"
    by (rule backends_list_alike) (simp_all add: row_order_def store_rules_def new_rule_store_def ctx_ok_def tenant_def)
  ultimately show ?thesis by auto
qed

abbreviation sample_ops :: "exception_op list" where
  "sample_ops \<equiv> [Add_exc (tenant 1) (tenant_exception 1 (lit ''a'')), Add_exc (tenant 2) (tenant_exception 2 (lit ''b'')),
     Add_exc (tenant 1) (tenant_exception 1 (lit ''c'')), Remove_exc (tenant 1) (lit ''a''), Remove_exc (tenant 2) (lit ''c'')]"

lemma exceptions_refine_witness:
  "\<exists>st tbl es'. foldE memory_exceptions.run_op sample_ops new_exception_store = Inr st \<and>
    foldE pg_exceptions.run_op sample_ops [] = Inr tbl \<and>
    list_active (Some (tenant 1)) st = Inr [to_entry (tenant_exception 1 (lit ''c''))] \<and>
    pg_list_active id (Some (tenant 1)) tbl = Inr es' \<and> mset es' = mset [to_entry (tenant_exception 1 (lit ''c''))]"
proof -
  obtain st tbl where runs: "foldE memory_exceptions.run_op sample_ops new_exception_store = Inr st"
      "foldE pg_exceptions.run_op sample_ops [] = Inr tbl"
    using tenants_storable(2) [of 1 "lit ''a''"] tenants_storable(2) [of 2 "lit ''b''"] tenants_storable(2) [of 1 "lit ''c''"]
    by (simp add: text_ok_ascii add_exception_def remove_exception_def pg_add_exception_def pg_remove_exception_def tenant_defs)
  have "fold spec_step (filter (\<lambda>op. op_customer op = cc_customer_id (tenant 1)) sample_ops) [] =
      [tenant_exception 1 (lit ''c'')]"
    by (simp add: tenant_defs)
  from exceptions_refine [OF _ runs this [symmetric], of id] runs show ?thesis
    by (auto simp: row_order_def)
qed

lemma search_best_witness:
  "\<exists>out. search_keywords id (Some (tenant 1)) [lit ''pro''] 2 (new_rule_store [tenant_rule 1 (lit ''a''), tenant_rule 2 (lit ''b'')]) = Inr out \<and>
    length out \<le> 2 \<and> (\<forall>r \<in> set out. searched (tenant 1) r)"
proof -
  obtain out where out: "search_keywords id (Some (tenant 1)) [lit ''pro''] 2
      (new_rule_store [tenant_rule 1 (lit ''a''), tenant_rule 2 (lit ''b'')]) = Inr out"
    by (simp add: search_keywords_def Let_def)
  from search_best [OF this] out show ?thesis by auto
qed

end
