(* ===== verification/JsonAccess.thy ===== *)
theory JsonAccess
  imports Json
begin

text \<open>
  What the code does with parsed JSON values: \<open>v[k]\<close>, \<open>v[i]\<close>, \<open>.get\<close>, truth value, \<open>str\<close>,
  \<open>int\<close> and \<open>float\<close> of a value, and iteration over one. The keys of a parsed object are
  distinct, so \<open>map_of\<close> is the lookup. The parsers and printers of the interpreter that the
  model does not spell out are the fields of \<open>runtime\<close>: \<open>json.loads\<close>, \<open>str\<close> of a float or of
  a container, \<open>float\<close> of a string, and \<open>dict\<close> of a nonempty list or string; the theorems hold
  for any choice of them.
\<close>

record runtime =
  rt_loads :: "ustr \<Rightarrow> json res"
  rt_str :: "json \<Rightarrow> ustr"
  rt_float :: "ustr \<Rightarrow> pyfloat res"
  rt_dict :: "json \<Rightarrow> (ustr, json) dict res"

fun get_item :: "json \<Rightarrow> ustr \<Rightarrow> json res" where
  "get_item (JObj d) k = (case map_of d k of None \<Rightarrow> Inl KeyError | Some v \<Rightarrow> Inr v)"
| "get_item _ k = Inl TypeError"

fun get_index :: "json \<Rightarrow> nat \<Rightarrow> json res" where
  "get_index (JList xs) i = (if i < length xs then Inr (xs ! i) else Inl IndexError)"
| "get_index (JStr s) i = (if i < length s then Inr (JStr [s ! i]) else Inl IndexError)"
| "get_index (JObj d) i = Inl KeyError"
| "get_index _ i = Inl TypeError"

fun get_default :: "json \<Rightarrow> ustr \<Rightarrow> json \<Rightarrow> json res" where
  "get_default (JObj d) k v = Inr (case map_of d k of None \<Rightarrow> v | Some x \<Rightarrow> x)"
| "get_default _ k v = Inl AttributeError"

fun truthy :: "json \<Rightarrow> bool" where
  "truthy JNull = False"
| "truthy (JBool b) = b"
| "truthy (JInt i) = (i \<noteq> 0)"
| "truthy (JFloat x) = (x \<noteq> Finite 0)"
| "truthy (JStr s) = (s \<noteq> [])"
| "truthy (JList xs) = (xs \<noteq> [])"
| "truthy (JObj d) = (d \<noteq> [])"

fun py_str :: "runtime \<Rightarrow> json \<Rightarrow> ustr" where
  "py_str rt JNull = lit ''None''"
| "py_str rt (JBool b) = (if b then lit ''True'' else lit ''False'')"
| "py_str rt (JInt i) = show_int i"
| "py_str rt (JStr s) = s"
| "py_str rt v = rt_str rt v"

text \<open>\<open>int\<close> and \<open>float\<close> of a value; \<open>float\<close> of an integer beyond the largest double raises.\<close>

fun int_of :: "json \<Rightarrow> int res" where
  "int_of (JBool b) = Inr (if b then 1 else 0)"
| "int_of (JInt i) = Inr i"
| "int_of (JFloat (Finite q)) = Inr (if q < 0 then - \<lfloor>- q\<rfloor> else \<lfloor>q\<rfloor>)"
| "int_of (JFloat NaN) = Inl ValueError"
| "int_of (JFloat _) = Inl OverflowError"
| "int_of (JStr s) = py_int s"
| "int_of _ = Inl TypeError"

definition int_to_float :: "int \<Rightarrow> pyfloat res" where
  "int_to_float i =
     (if 2 ^ 1024 \<le> \<bar>to_double (of_int i)\<bar> then Inl OverflowError else Inr (Finite (to_double (of_int i))))"

fun float_of :: "runtime \<Rightarrow> json \<Rightarrow> pyfloat res" where
  "float_of rt (JBool b) = Inr (Finite (if b then 1 else 0))"
| "float_of rt (JInt i) = int_to_float i"
| "float_of rt (JFloat x) = Inr x"
| "float_of rt (JStr s) = rt_float rt s"
| "float_of rt _ = Inl TypeError"

text \<open>\<open>isinstance\<close> tests; a boolean is an integer.\<close>

definition is_int_or_str :: "json \<Rightarrow> bool" where
  "is_int_or_str v = (case v of JBool _ \<Rightarrow> True | JInt _ \<Rightarrow> True | JStr _ \<Rightarrow> True | _ \<Rightarrow> False)"

definition is_number_or_str :: "json \<Rightarrow> bool" where
  "is_number_or_str v =
     (case v of JBool _ \<Rightarrow> True | JInt _ \<Rightarrow> True | JFloat _ \<Rightarrow> True | JStr _ \<Rightarrow> True | _ \<Rightarrow> False)"

text \<open>Iterating over a value: an object gives its keys, a string its characters.\<close>

fun py_iter :: "json \<Rightarrow> json list res" where
  "py_iter (JList xs) = Inr xs"
| "py_iter (JStr s) = Inr (map (\<lambda>c. JStr [c]) s)"
| "py_iter (JObj d) = Inr (map (JStr \<circ> fst) d)"
| "py_iter _ = Inl TypeError"

text \<open>\<open>dict\<close> of a value: a copy of an object, or a dictionary from the pairs of a sequence.\<close>

fun py_dict :: "runtime \<Rightarrow> json \<Rightarrow> (ustr, json) dict res" where
  "py_dict rt (JObj d) = Inr d"
| "py_dict rt (JList xs) = (if xs = [] then Inr [] else rt_dict rt (JList xs))"
| "py_dict rt (JStr s) = (if s = [] then Inr [] else rt_dict rt (JStr s))"
| "py_dict rt _ = Inl TypeError"

text \<open>The exceptions an \<open>except ValueError\<close> clause catches.\<close>

definition is_value_error :: "py_error \<Rightarrow> bool" where
  "is_value_error e = (e = ValueError \<or> e = UnicodeError \<or> e = JSONDecodeError \<or> e = TelemetryContentLeakError)"

section \<open>HTTP responses\<close>

text \<open>
  A response is its status and its body, parsed as JSON when it is read. The client follows no
  redirects, and \<open>raise_for_status\<close> of httpx raises unless the status is a success: a redirect or an
  informational status is an error as much as a client or server error.
\<close>

type_synonym http_response = "nat \<times> json res"

definition raise_for_status :: "nat \<Rightarrow> unit res" where
  "raise_for_status status = raise_if (status < 200 \<or> 300 \<le> status) (ExternalError status)"

definition response_json :: "http_response \<Rightarrow> json res" where
  "response_json resp = bindE (raise_for_status (fst resp)) (\<lambda>_. snd resp)"

lemma response_json_200 [simp]: "response_json (200, body) = body"
  by (simp add: response_json_def raise_for_status_def)

lemma response_json_Inr:
  "response_json resp = Inr data \<longleftrightarrow> 200 \<le> fst resp \<and> fst resp < 300 \<and> snd resp = Inr data"
  by (auto simp: response_json_def raise_for_status_def raise_if_def)

lemma get_item_Inr: "get_item v k = Inr x \<longleftrightarrow> (\<exists>d. v = JObj d \<and> map_of d k = Some x)"
  by (cases v) (auto split: option.splits)

lemma get_index_Inl: "get_index v i = Inl e \<Longrightarrow> e \<in> {IndexError, KeyError, TypeError}"
  by (cases "(v, i)" rule: get_index.cases) (auto split: if_splits)

lemma get_item_Inl: "get_item v k = Inl e \<Longrightarrow> e \<in> {KeyError, TypeError}"
  by (cases "(v, k)" rule: get_item.cases) (auto split: option.splits)

end
