(* ===== verification/Contextual.thy ===== *)
theory Contextual
  imports Detection JsonAccess
begin

text \<open>
  \<open>src/detectors/contextual.py\<close>: the prompt prefix, the call of the model, the parsing of its
  answer with the span validation, and the stub. The model server is the parameter \<open>post\<close>, which
  gives the response to a request, or the exception of the HTTP client. That the
  detector satisfies \<open>scoped_detector\<close>, whatever the server answers, is \<open>contextual_scoped_detector\<close>.
\<close>

section \<open>The prompt\<close>

definition contextual_name :: ustr where
  "contextual_name = lit ''contextual''"

definition system_prompt :: ustr where
  "system_prompt =
     lit ''You are a privacy detection assistant. Identify sensitive entities in '' @
     lit ''the user's text per the provided rule catalogue. Return STRICTLY valid '' @
     lit ''JSON of the form: {\"detections\": [{\"entity_type\": str, \"start\": '' @
     lit ''int, \"end\": int, \"text\": str, \"confidence\": float, \"rule_id\": '' @
     lit ''str}]}. Use exact character offsets into the input text.''"

record rule_snippet =
  rsn_rule_id :: ustr
  rsn_tier :: int
  rsn_entity_type :: ustr
  rsn_description :: ustr

definition snippet_line :: "rule_snippet \<Rightarrow> ustr" where
  "snippet_line r = lit ''- '' @ rsn_rule_id r @ lit '' ['' @ rsn_entity_type r @ lit '']: '' @ rsn_description r"

definition tier_section :: "ustr \<Rightarrow> rule_snippet list \<Rightarrow> ustr list" where
  "tier_section label grp =
     (if grp = [] then [] else (10 # lit ''## '' @ label @ lit '' rules:'') # map snippet_line grp)"

definition build_prefix :: "rule_snippet list \<Rightarrow> ustr" where
  "build_prefix rules =
     (let tier1 = filter (\<lambda>r. rsn_tier r = 1) rules;
          tier2 = filter (\<lambda>r. rsn_tier r = 2) rules;
          tier3 = filter (\<lambda>r. rsn_tier r = 3) rules
      in join [10] ([system_prompt] @ tier_section (lit ''Tier 1 country'') tier1 @
           tier_section (lit ''Tier 2 industry'') tier2 @ tier_section (lit ''Tier 3 customer'') tier3))"

section \<open>Reading the answer\<close>

definition known_entity_types :: "entity_type list" where
  "known_entity_types = [National_id, Tax_id, Bank_account, Card_number, Phone, Email, Person,
     Organization, Location, Date, Monetary, Custom]"

definition safe_entity_type :: "ustr \<Rightarrow> entity_type" where
  "safe_entity_type value =
     (case find (\<lambda>et. entity_name et = value) known_entity_types of Some et \<Rightarrow> et | None \<Rightarrow> Custom)"

text \<open>The fields of an item; \<open>None\<close> is a \<open>continue\<close> inside the \<open>try\<close>.\<close>

type_synonym raw_fields = "int \<times> int \<times> ustr \<times> ustr \<times> pyfloat \<times> json"

definition parse_fields :: "runtime \<Rightarrow> json \<Rightarrow> raw_fields option res" where
  "parse_fields rt item =
     bindE (get_item item (lit ''start'')) (\<lambda>start_raw.
     bindE (get_item item (lit ''end'')) (\<lambda>end_raw.
     bindE (get_item item (lit ''text'')) (\<lambda>text_raw.
       let claim_text = py_str rt text_raw
       in if \<not> is_int_or_str start_raw \<or> \<not> is_int_or_str end_raw then Inr None
          else bindE (int_of start_raw) (\<lambda>start.
               bindE (int_of end_raw) (\<lambda>end_pos.
               bindE (get_default item (lit ''entity_type'') (JStr (lit ''custom''))) (\<lambda>et_raw.
               bindE (get_default item (lit ''confidence'') (JFloat (Finite (float_lit 7 10)))) (\<lambda>conf_raw.
                 if \<not> is_number_or_str conf_raw then Inr None
                 else bindE (float_of rt conf_raw) (\<lambda>confidence.
                      bindE (get_default item (lit ''rule_id'') JNull) (\<lambda>rule_id.
                        Inr (Some (start, end_pos, claim_text, py_str rt et_raw, confidence, rule_id)))))))))))"

definition skipped :: "py_error \<Rightarrow> bool" where
  "skipped e = (e = KeyError \<or> is_value_error e \<or> e = TypeError)"

definition clamp_confidence :: "pyfloat \<Rightarrow> pyfloat" where
  "clamp_confidence c = py_max (Finite 0) (py_min (Finite (float_lit 99 100)) c)"

fun finite_value :: "pyfloat \<Rightarrow> rat" where
  "finite_value (Finite q) = q"
| "finite_value _ = 0"

definition parse_item :: "runtime \<Rightarrow> ustr \<Rightarrow> json \<Rightarrow> detection option res" where
  "parse_item rt text item =
     (case parse_fields rt item of
        Inl e \<Rightarrow> if skipped e then Inr None else Inl e
      | Inr None \<Rightarrow> Inr None
      | Inr (Some (start, end_pos, claim_text, entity_type, confidence, rule_id)) \<Rightarrow>
          if start < 0 \<or> int (length text) < end_pos \<or> end_pos \<le> start then Inr None
          else if py_slice text start end_pos \<noteq> claim_text then Inr None
          else bindE (mk_detection (safe_entity_type entity_type) start end_pos claim_text
                 (finite_value (clamp_confidence confidence)) 3 contextual_name
                 (if truthy rule_id then Some (py_str rt rule_id) else None)) (\<lambda>d. Inr (Some d)))"

fun parse_detections :: "runtime \<Rightarrow> ustr \<Rightarrow> json list \<Rightarrow> detection list res" where
  "parse_detections rt text [] = Inr []"
| "parse_detections rt text (item # items) =
     bindE (parse_item rt text item) (\<lambda>r.
     bindE (parse_detections rt text items) (\<lambda>ds.
       Inr (case r of None \<Rightarrow> ds | Some d \<Rightarrow> d # ds)))"

section \<open>The detectors\<close>

definition request_body :: "ustr \<Rightarrow> ustr \<Rightarrow> ustr \<Rightarrow> json" where
  "request_body model prompt text =
     JObj [(lit ''model'', JStr model),
       (lit ''messages'', JList [
          JObj [(lit ''role'', JStr (lit ''system'')), (lit ''content'', JStr prompt)],
          JObj [(lit ''role'', JStr (lit ''user'')), (lit ''content'', JStr text)]]),
       (lit ''temperature'', JFloat (Finite 0)),
       (lit ''response_format'', JObj [(lit ''type'', JStr (lit ''json_object''))])]"

definition answer_content :: "json \<Rightarrow> json res" where
  "answer_content data =
     bindE (get_item data (lit ''choices'')) (\<lambda>choices.
     bindE (get_index choices 0) (\<lambda>first.
     bindE (get_item first (lit ''message'')) (\<lambda>message. get_item message (lit ''content''))))"

definition parse_answer :: "runtime \<Rightarrow> ustr \<Rightarrow> json \<Rightarrow> detection list res" where
  "parse_answer rt text data =
     (case answer_content data of
        Inl e \<Rightarrow> if e = KeyError \<or> e = IndexError then Inr [] else Inl e
      | Inr content \<Rightarrow>
          (case (case content of JStr s \<Rightarrow> rt_loads rt s | _ \<Rightarrow> Inl TypeError) of
             Inl e \<Rightarrow> if e = JSONDecodeError then Inr [] else Inl e
           | Inr parsed \<Rightarrow>
               bindE (get_default parsed (lit ''detections'') JNull) (\<lambda>raw.
               bindE (if truthy raw then py_iter raw else Inr []) (\<lambda>items.
                 parse_detections rt text items))))"

definition vllm_detect ::
    "runtime \<Rightarrow> (ustr \<Rightarrow> json \<Rightarrow> http_response res) \<Rightarrow> ustr \<Rightarrow> rule_snippet list option \<Rightarrow> scope \<Rightarrow> ustr \<Rightarrow>
      detection list res" where
  "vllm_detect rt post model retrieved_rules cur text =
     bindE (require_customer cur) (\<lambda>_.
       let rules = (case retrieved_rules of None \<Rightarrow> [] | Some rs \<Rightarrow> rs)
       in bindE (post (lit ''/chat/completions'') (request_body model (build_prefix rules) text)) (\<lambda>resp.
          bindE (response_json resp) (\<lambda>data.
            parse_answer rt text data)))"

definition stub_contextual_detect :: "rule_snippet list option \<Rightarrow> scope \<Rightarrow> ustr \<Rightarrow> detection list res" where
  "stub_contextual_detect retrieved_rules cur text = bindE (require_customer cur) (\<lambda>_. Inr [])"

text \<open>\<open>make_detector\<close>: which detector a configuration gives, or the error for a missing URL.\<close>

datatype contextual_backend =
    Stub_contextual
  | Vllm_contextual ustr ustr

definition make_contextual :: "ustr \<Rightarrow> ustr option \<Rightarrow> ustr \<Rightarrow> contextual_backend res" where
  "make_contextual backend vllm_url model =
     (if backend = lit ''http''
      then if \<not> truthy_str vllm_url then Inl ValueError else Inr (Vllm_contextual (the vllm_url) model)
      else Inr Stub_contextual)"

section \<open>Lemmas\<close>

lemma safe_entity_type_name: "safe_entity_type (entity_name et) = et"
  by (cases et) (simp_all add: safe_entity_type_def known_entity_types_def)

lemma clamp_bounds: "\<exists>q. clamp_confidence c = Finite q \<and> 0 \<le> q \<and> q \<le> float_lit 99 100"
proof -
  have "0 \<le> float_lit 99 100" by (simp add: float_lits)
  then show ?thesis
    by (cases c) (auto simp: clamp_confidence_def py_max_def py_min_def not_less)
qed

text \<open>Not a number is taken for near certainty.\<close>

lemma clamp_nan: "clamp_confidence NaN = Finite (float_lit 99 100)"
  using clamp_bounds [of NaN] by (simp add: clamp_confidence_def py_max_def py_min_def split: if_splits)

lemma clamp_in_range: "0 \<le> q \<Longrightarrow> q \<le> float_lit 99 100 \<Longrightarrow> clamp_confidence (Finite q) = Finite q"
  by (auto simp: clamp_confidence_def py_max_def py_min_def)

lemma parse_item_Some:
  assumes "parse_item rt text item = Inr (Some d)"
  shows "span_in text d \<and> wf_detection d \<and> d_confidence d \<le> float_lit 99 100 \<and> d_tier d = 3 \<and> d_detector d = contextual_name"
proof -
  obtain s e c et conf rid where f: "parse_fields rt item = Inr (Some (s, e, c, et, conf, rid))"
    and r: "0 \<le> s" "e \<le> int (length text)" "s < e" "py_slice text s e = c"
    and d: "mk_detection (safe_entity_type et) s e c (finite_value (clamp_confidence conf)) 3 contextual_name
       (if truthy rid then Some (py_str rt rid) else None) = Inr d"
    using assms unfolding parse_item_def
    by (auto split: sum.splits option.splits if_splits simp: bindE_eq_Inr)
  from clamp_bounds [of conf] obtain q where "clamp_confidence conf = Finite q" "0 \<le> q" "q \<le> float_lit 99 100"
    by blast
  with d r show ?thesis
    by (auto simp: mk_detection_def post_init_iff span_in_def)
qed

lemma parse_detections_member:
  "parse_detections rt text items = Inr ds \<Longrightarrow> d \<in> set ds \<Longrightarrow> \<exists>item \<in> set items. parse_item rt text item = Inr (Some d)"
  by (induction items arbitrary: ds) (auto simp: bindE_eq_Inr split: option.splits)

lemma parse_answer_member:
  assumes "parse_answer rt text data = Inr ds" "d \<in> set ds"
  shows "\<exists>item. parse_item rt text item = Inr (Some d)"
  using assms unfolding parse_answer_def
  by (auto split: sum.splits if_splits simp: bindE_eq_Inr dest!: parse_detections_member)

lemma contextual_scoped_detector: "scoped_detector (vllm_detect rt post model rules)"
proof
  fix cur s ds d
  assume "vllm_detect rt post model rules cur s = Inr ds" "d \<in> set ds"
  then have "\<exists>item. parse_item rt s item = Inr (Some d)"
    by (auto simp: vllm_detect_def bindE_eq_Inr Let_def intro: parse_answer_member)
  then show "wf_detection d" "span_in s d" by (auto dest: parse_item_Some)
qed (simp add: vllm_detect_def)

interpretation stub_contextual: scoped_detector "stub_contextual_detect rules"
  by unfold_locales (auto simp: stub_contextual_detect_def bindE_eq_Inr)

section \<open>Claims of the model\<close>

text \<open>A well-formed claim as the model states it, whether it quotes the text, and its detection.\<close>

record claim =
  cl_entity_type :: ustr
  cl_start :: int
  cl_end :: int
  cl_text :: ustr
  cl_confidence :: pyfloat
  cl_rule_id :: ustr

definition claim_json :: "claim \<Rightarrow> json" where
  "claim_json c = JObj [(lit ''entity_type'', JStr (cl_entity_type c)), (lit ''start'', JInt (cl_start c)),
     (lit ''end'', JInt (cl_end c)), (lit ''text'', JStr (cl_text c)),
     (lit ''confidence'', JFloat (cl_confidence c)), (lit ''rule_id'', JStr (cl_rule_id c))]"

definition quotes :: "ustr \<Rightarrow> claim \<Rightarrow> bool" where
  "quotes text c = (0 \<le> cl_start c \<and> cl_start c < cl_end c \<and> cl_end c \<le> int (length text) \<and>
     py_slice text (cl_start c) (cl_end c) = cl_text c)"

definition claim_detection :: "claim \<Rightarrow> detection" where
  "claim_detection c = \<lparr>d_entity_type = safe_entity_type (cl_entity_type c), d_start = cl_start c,
     d_end = cl_end c, d_text = cl_text c, d_confidence = finite_value (clamp_confidence (cl_confidence c)),
     d_tier = 3, d_detector = contextual_name,
     d_rule_id = (if cl_rule_id c = [] then None else Some (cl_rule_id c)), d_metadata = []\<rparr>"

lemma parse_claim:
  "parse_item rt text (claim_json c) = Inr (if quotes text c then Some (claim_detection c) else None)"
proof -
  obtain q where "clamp_confidence (cl_confidence c) = Finite q" "0 \<le> q" "q \<le> float_lit 99 100"
    using clamp_bounds by blast
  then have "0 \<le> finite_value (clamp_confidence (cl_confidence c))" "finite_value (clamp_confidence (cl_confidence c)) \<le> 1"
    by (simp_all add: float_lits)
  moreover have "parse_fields rt (claim_json c) = Inr (Some (cl_start c, cl_end c, cl_text c, cl_entity_type c,
      cl_confidence c, JStr (cl_rule_id c)))"
    by (simp add: parse_fields_def claim_json_def is_int_or_str_def is_number_or_str_def)
  ultimately show ?thesis
    by (auto simp: parse_item_def mk_detection_def post_init_def quotes_def claim_detection_def)
qed

lemma parse_claims:
  "parse_detections rt text (map claim_json cs) = Inr (map claim_detection (filter (quotes text) cs))"
  by (induction cs) (auto simp: parse_claim)

text \<open>The answer of the server around a content.\<close>

definition answer_with :: "json \<Rightarrow> json" where
  "answer_with content = JObj [(lit ''choices'', JList [JObj [(lit ''message'', JObj [(lit ''content'', content)])]])]"

lemma answer_content_with: "answer_content (answer_with c) = Inr c"
  by (simp add: answer_content_def answer_with_def)

lemma join_Cons: "join [10] (x # xs) = x @ concat (map (\<lambda>l. 10 # l) xs)"
  by (induction xs arbitrary: x) auto

section \<open>Properties\<close>

text \<open>
  C32. Hallucinated spans are dropped: whatever the server answers, every detection the contextual
  detector returns quotes the text at its span, with a confidence of at most 0.99 and Tier 3, and
  without a customer in scope the server is not asked at all.
\<close>

theorem contextual_quotes_text:
  assumes "vllm_detect rt post model rules cur text = Inr ds"
  shows "cur \<noteq> None \<and> (\<forall>d \<in> set ds. span_in text d \<and> wf_detection d \<and> d_text d \<noteq> [] \<and>
    d_confidence d \<le> float_lit 99 100 \<and> d_tier d = 3)"
proof -
  note det = contextual_scoped_detector [of rt post model rules]
  have "cur \<noteq> None" using scoped_detector.detect_needs_scope [OF det assms] .
  moreover have "\<exists>item. parse_item rt text item = Inr (Some d)" if "d \<in> set ds" for d
    using assms that by (auto simp: vllm_detect_def bindE_eq_Inr Let_def intro: parse_answer_member)
  moreover have "d_text d \<noteq> []" if "d \<in> set ds" for d
    using span_detector.detect_text_nonempty [OF scoped_detector.axioms(1) [OF det] assms that] .
  ultimately show ?thesis by (blast dest: parse_item_Some)
qed

text \<open>
  An answer that lists well-formed claims gives exactly the detections of the claims that
  quote the text, in the order of the answer; an entity type outside the vocabulary becomes
  \<open>custom\<close>, and the confidence is clamped to \<open>[0, 0.99]\<close>.
\<close>

theorem contextual_reports_claims:
  assumes "post (lit ''/chat/completions'') (request_body model (build_prefix rules) text) =
      Inr (200, Inr (answer_with (JStr s)))"
    and "rt_loads rt s = Inr (JObj [(lit ''detections'', JList (map claim_json claims))])"
  shows "vllm_detect rt post model (Some rules) (Some ctx) text =
    Inr (map claim_detection (filter (quotes text) claims))"
  using assms by (cases claims) (simp_all add: vllm_detect_def parse_answer_def answer_content_with parse_claim
      parse_claims Let_def)

text \<open>
  Answers of an unexpected shape are not all dropped: a content that is not a string, an
  answer that is not an object and a number of detections raise, an answer without choices or
  with a content that is no JSON text gives no detections.
\<close>

theorem contextual_answer_errors:
  assumes "detect = (\<lambda>data. vllm_detect rt (\<lambda>_ _. Inr (200, Inr data)) model rules (Some ctx) text)"
    and "rt_loads rt list_text = Inr (JList xs)"
    and "rt_loads rt number_text = Inr (JObj [(lit ''detections'', JInt 1)])"
    and "rt_loads rt bad_text = Inl JSONDecodeError"
  shows "detect (answer_with JNull) = Inl TypeError \<and>
    detect (answer_with (JStr list_text)) = Inl AttributeError \<and>
    detect (answer_with (JStr number_text)) = Inl TypeError \<and>
    detect (JObj [(lit ''choices'', JNull)]) = Inl TypeError \<and>
    detect (JObj []) = Inr [] \<and> detect (JObj [(lit ''choices'', JList [])]) = Inr [] \<and>
    detect (answer_with (JStr bad_text)) = Inr []"
  using assms(2-4)
  by (simp add: assms(1) vllm_detect_def parse_answer_def answer_content_with Let_def)
    (simp add: answer_content_def)

text \<open>
  The prompt is a prefix that depends on the Tier 1 and Tier 2 rules only, followed by the
  Tier 3 section: two requests whose Tier 1 and Tier 2 rules agree share that prefix.
\<close>

theorem prefix_cacheable:
  "build_prefix rules = build_prefix (filter (\<lambda>r. rsn_tier r \<noteq> 3) rules) @
     concat (map (\<lambda>l. 10 # l) (tier_section (lit ''Tier 3 customer'') (filter (\<lambda>r. rsn_tier r = 3) rules)))"
proof -
  have "filter (\<lambda>r. rsn_tier r \<noteq> 3 \<and> rsn_tier r = n) rules =
      (if n = 3 then [] else filter (\<lambda>r. rsn_tier r = n) rules)" for n
    by (auto intro!: filter_cong simp: filter_empty_conv)
  moreover have "tier_section l [] = []" for l by (simp add: tier_section_def)
  ultimately show ?thesis
    by (simp add: build_prefix_def Let_def join_Cons)
qed

section \<open>Witnesses\<close>

definition sample_runtime :: "json \<Rightarrow> runtime" where
  "sample_runtime parsed = \<lparr>rt_loads = (\<lambda>s. if s = [] then Inr parsed else Inl JSONDecodeError),
     rt_str = (\<lambda>_. []), rt_float = (\<lambda>_. Inl ValueError),
     rt_dict = (\<lambda>_. Inl TypeError)\<rparr>"

definition sample_ctx :: customer_context where
  "sample_ctx = \<lparr>cc_customer_id = lit ''acme'', cc_country_code = lit ''DZ'', cc_plan = Starter\<rparr>"

definition sample_claim :: "int \<Rightarrow> claim" where
  "sample_claim a = \<lparr>cl_entity_type = lit ''person'', cl_start = a, cl_end = a + 3, cl_text = lit ''Ali'',
     cl_confidence = NaN, cl_rule_id = []\<rparr>"

abbreviation sample_answer :: json where
  "sample_answer \<equiv> JObj [(lit ''detections'', JList (map claim_json [sample_claim 3, sample_claim 4]))]"

lemma contextual_reports_claims_witness:
  "vllm_detect (sample_runtime sample_answer) (\<lambda>_ _. Inr (200, Inr (answer_with (JStr [])))) (lit ''m'') (Some [])
     (Some sample_ctx) (lit ''Hi Ali'') = Inr [claim_detection (sample_claim 3)]"
  by (subst contextual_reports_claims [where s = "[]" and claims = "[sample_claim 3, sample_claim 4]"])
    (simp_all add: sample_runtime_def quotes_def sample_claim_def py_slice_def slice_bound_def)

lemma contextual_quotes_text_witness:
  "span_in (lit ''Hi Ali'') (claim_detection (sample_claim 3))"
proof -
  have "vllm_detect (sample_runtime sample_answer) (\<lambda>_ _. Inr (200, Inr (answer_with (JStr [])))) (lit ''m'') (Some [])
     (Some sample_ctx) (lit ''Hi Ali'') = Inr [claim_detection (sample_claim 3)]"
    by (simp add: vllm_detect_def parse_answer_def answer_content_with sample_runtime_def
        parse_claim quotes_def sample_claim_def py_slice_def slice_bound_def)
  from contextual_quotes_text [OF this] show ?thesis by simp
qed

lemma contextual_answer_errors_witness:
  "\<exists>rt. vllm_detect rt (\<lambda>_ _. Inr (200, Inr (answer_with JNull))) (lit ''m'') None (Some sample_ctx) [] = Inl TypeError \<and>
    vllm_detect rt (\<lambda>_ _. Inr (200, Inr (answer_with (JStr (lit ''[]''))))) (lit ''m'') None (Some sample_ctx) [] = Inl AttributeError"
proof -
  let ?rt = "\<lparr>rt_loads = (\<lambda>s. if s = lit ''[]'' then Inr (JList [])
      else if s = lit ''1'' then Inr (JObj [(lit ''detections'', JInt 1)]) else Inl JSONDecodeError),
     rt_str = (\<lambda>_. []), rt_float = (\<lambda>_. Inl ValueError),
     rt_dict = (\<lambda>_. Inl TypeError)\<rparr>"
  show ?thesis
    using contextual_answer_errors [OF refl, of ?rt "lit ''[]''" "[]" "lit ''1''" "[]" "lit ''m''" None sample_ctx "[]"]
    by (intro exI [of _ ?rt]) simp
qed

end
