(* ===== verification/Retrieval.thy ===== *)
theory Retrieval
  imports Rules Contextual Regex
begin

text \<open>
  \<open>src/retrieval/engine.py\<close>: which rules the contextual detector is given. The retriever takes its
  rule store as the parameter \<open>list_rules\<close> with the contract \<open>rule_reader\<close>, and both backends are
  instances of it. \<open>lower\<close> is \<open>str.lower\<close> and \<open>is_word\<close> the table behind \<open>\w\<close>. The terms form a
  set; the score counts the distinct terms.
\<close>

definition token_rx :: "(nat \<Rightarrow> bool) \<Rightarrow> regex" where
  "token_rx is_word = Repeat 3 None (Chars is_word)"

definition terms_of :: "(ustr \<Rightarrow> ustr) \<Rightarrow> (nat \<Rightarrow> bool) \<Rightarrow> ustr \<Rightarrow> ustr list" where
  "terms_of lower is_word text = map (\<lambda>m. lower (group text m)) (find_all text (token_rx is_word))"

definition haystack :: "(ustr \<Rightarrow> ustr) \<Rightarrow> rule \<Rightarrow> ustr" where
  "haystack lower r = lower (join [32] (r_description r # r_keywords r))"

definition term_score :: "(ustr \<Rightarrow> ustr) \<Rightarrow> ustr list \<Rightarrow> rule \<Rightarrow> nat" where
  "term_score lower terms r = length (filter (\<lambda>t. contained t (haystack lower r)) (remdups terms))"

definition rank_by_keyword :: "(ustr \<Rightarrow> ustr) \<Rightarrow> ustr list \<Rightarrow> rule list \<Rightarrow> rule list" where
  "rank_by_keyword lower terms rules = map snd (ranked (term_score lower terms) rules)"

definition to_snippet :: "rule \<Rightarrow> rule_snippet" where
  "to_snippet r = \<lparr>rsn_rule_id = r_rule_id r, rsn_tier = r_tier r, rsn_entity_type = r_entity_type r,
     rsn_description = r_description r\<rparr>"

definition retrieve ::
    "(scope \<Rightarrow> ustr list option \<Rightarrow> 's \<Rightarrow> rule list res) \<Rightarrow> (ustr \<Rightarrow> ustr) \<Rightarrow> (nat \<Rightarrow> bool) \<Rightarrow> int \<Rightarrow>
      scope \<Rightarrow> ustr \<Rightarrow> ustr list option \<Rightarrow> 's \<Rightarrow> rule_snippet list res" where
  "retrieve list_rules lower is_word top_k cur text industries st =
     bindE (list_rules cur industries st) (\<lambda>all_rules.
       let tier1 = filter (\<lambda>r. r_tier r = 1) all_rules;
           tier2 = filter (\<lambda>r. r_tier r = 2) all_rules;
           tier3 = filter (\<lambda>r. r_tier r = 3) all_rules;
           terms = terms_of lower is_word text;
           relevant_tier3 = py_slice (rank_by_keyword lower terms tier3) 0 top_k
       in Inr (map to_snippet (tier1 @ tier2 @ relevant_tier3)))"

definition flatten_rules :: "rule list list \<Rightarrow> rule list" where
  "flatten_rules values = concat values"

section \<open>Retrieval over a rule store\<close>

lemma retrieve_Inr:
  "retrieve lr lower w k cur text inds st = Inr sns \<longleftrightarrow> (\<exists>rs. lr cur inds st = Inr rs \<and>
     sns = map to_snippet (filter (\<lambda>r. r_tier r = 1) rs @ filter (\<lambda>r. r_tier r = 2) rs @
       py_slice (rank_by_keyword lower (terms_of lower w text) (filter (\<lambda>r. r_tier r = 3) rs)) 0 k))"
  by (auto simp: retrieve_def bindE_eq_Inr Let_def)

text \<open>
  What the contextual detector is to be told: of the rules, all enabled Tier 1 rules of the
  customer's country and all enabled Tier 2 rules of the industries, then, best first, Tier 3 rules
  of the customer whose words match the text, at most \<open>top_k\<close>, none of those left out scoring more.
\<close>

definition prompt_rules ::
    "(ustr \<Rightarrow> ustr) \<Rightarrow> (nat \<Rightarrow> bool) \<Rightarrow> int \<Rightarrow> customer_context \<Rightarrow> ustr \<Rightarrow> ustr list option \<Rightarrow> rule list \<Rightarrow> rule_snippet list \<Rightarrow> bool" where
  "prompt_rules lower is_word top_k ctx text inds rules sns =
     (let score = term_score lower (terms_of lower is_word text);
          matching = filter (\<lambda>r. r_enabled r \<and> r_tier r = 3 \<and> owned ctx r \<and> score r \<noteq> 0) rules
      in \<exists>ones twos threes. sns = map to_snippet (ones @ twos @ threes) \<and>
        mset ones = mset (filter (\<lambda>r. r_enabled r \<and> r_tier r = 1 \<and> r_country_code r = Some (cc_country_code ctx)) rules) \<and>
        mset twos = mset (filter (\<lambda>r. r_enabled r \<and> r_tier r = 2 \<and> in_industries inds r) rules) \<and>
        mset threes \<subseteq># mset matching \<and> length threes \<le> nat top_k \<and>
        sorted_wrt (\<lambda>r r'. score r' \<le> score r) threes \<and>
        (\<forall>r \<in> set matching. r \<notin> set threes \<longrightarrow> length threes = nat top_k \<and> (\<forall>r' \<in> set threes. score r \<le> score r')))"

context rule_reader begin

lemma listed_tier:
  assumes "mset rs = mset (filter (listed ctx inds) rules)"
  shows "mset (filter (\<lambda>r. r_tier r = 1) rs) =
      mset (filter (\<lambda>r. r_enabled r \<and> r_tier r = 1 \<and> r_country_code r = Some (cc_country_code ctx)) rules)"
    and "mset (filter (\<lambda>r. r_tier r = 2) rs) = mset (filter (\<lambda>r. r_enabled r \<and> r_tier r = 2 \<and> in_industries inds r) rules)"
    and "mset (filter (\<lambda>r. r_tier r = 3) rs) = mset (filter (\<lambda>r. r_enabled r \<and> r_tier r = 3 \<and> owned ctx r) rules)"
  by (simp_all add: assms filter_filter_mset listed_iff owned_def) (auto intro!: filter_mset_cong)

lemma retrieve_prompt:
  assumes "inv s" "ctx_ok ctx" "0 \<le> k"
  shows "\<exists>sns. retrieve list_rules lower w k (Some ctx) text inds s = Inr sns \<and>
    prompt_rules lower w k ctx text inds (rules_of s) sns"
proof -
  let ?score = "term_score lower (terms_of lower w text)"
  obtain rs where rs: "list_rules (Some ctx) inds s = Inr rs"
    using list_total [OF assms(1,2), of inds] by (auto simp: isOk_def split: sum.splits)
  let ?tier = "\<lambda>n. filter (\<lambda>r. r_tier r = n) rs"
  let ?threes = "map snd (take (nat k) (ranked ?score (?tier 3)))"
  let ?sns = "map to_snippet (?tier 1 @ ?tier 2 @ ?threes)"
  let ?matching = "filter (\<lambda>r. r_enabled r \<and> r_tier r = 3 \<and> owned ctx r \<and> ?score r \<noteq> 0) (rules_of s)"
  note tiers = listed_tier [OF list_content [OF assms(1) rs]]
  have matching: "mset ?matching = mset (filter (\<lambda>r. ?score r \<noteq> 0) (?tier 3))"
    using arg_cong [OF tiers(3), of "filter_mset (\<lambda>r. ?score r \<noteq> 0)"] by (simp add: filter_filter_mset conj_ac)
  have "mset ?threes \<subseteq># mset (map snd (ranked ?score (?tier 3)))"
    unfolding take_map [symmetric] by (metis append_take_drop_id mset_append mset_subset_eq_add_left)
  then have "mset ?threes \<subseteq># mset ?matching" unfolding mset_ranked matching .
  moreover have "retrieve list_rules lower w k (Some ctx) text inds s = Inr ?sns"
    using rs assms(3) by (simp add: retrieve_Inr rank_by_keyword_def py_slice_prefix take_map)
  moreover have "r \<in> set (?tier 3) \<and> ?score r \<noteq> 0" if "r \<in> set ?matching" for r
    using that mset_eq_setD [OF matching] by auto
  ultimately show ?thesis
    using tiers(1,2) take_ranked [of ?threes "nat k" ?score "?tier 3", OF HOL.refl]
    unfolding prompt_rules_def Let_def
    by (intro exI [of _ ?sns] conjI exI [of _ "?tier 1"] exI [of _ "?tier 2"] exI [of _ ?threes]) blast+
qed

end

section \<open>Properties\<close>

text \<open>
  C37. What the contextual detector is told about a customer, from either rule store, is that
  customer's view and nothing else: every enabled Tier 1 rule of the customer's country and every
  enabled Tier 2 rule of the industries asked for, and the best of the customer's own Tier 3 rules
  that match a term of the text, at most \<open>top_k\<close>. The retriever does not raise. The Postgres store
  may return its rows in any order.
\<close>

theorem retrieval_in_view:
  assumes "ctx_ok ctx" and "0 \<le> top_k"
    and "rule_store_ok st" and "rule_table_ok tbl" and "row_order order"
  shows "(\<exists>sns. retrieve list_for_customer lower is_word top_k (Some ctx) text inds st = Inr sns \<and>
      prompt_rules lower is_word top_k ctx text inds (store_rules st) sns) \<and>
    (\<exists>sns. retrieve (pg_list_for_customer order) lower is_word top_k (Some ctx) text inds tbl = Inr sns \<and>
      prompt_rules lower is_word top_k ctx text inds tbl sns)"
proof
  show "\<exists>sns. retrieve list_for_customer lower is_word top_k (Some ctx) text inds st = Inr sns \<and>
      prompt_rules lower is_word top_k ctx text inds (store_rules st) sns"
    by (rule memory_rules.retrieve_prompt [OF assms(3,1,2)])
next
  have pg_reader: "rule_reader rule_table_ok id (pg_list_for_customer order)"
    using pg_isolated [OF assms(5)] unfolding isolated_store_def tier3_store_def by blast
  show "\<exists>sns. retrieve (pg_list_for_customer order) lower is_word top_k (Some ctx) text inds tbl = Inr sns \<and>
      prompt_rules lower is_word top_k ctx text inds tbl sns"
    using rule_reader.retrieve_prompt [OF pg_reader, of tbl ctx top_k lower is_word "text" inds] assms(1,2,4) by simp
qed

lemma retrieval_in_view_witness:
  "(\<exists>sns. retrieve list_for_customer id (\<lambda>c. 97 \<le> c) 10 (Some (tenant 1)) (lit ''the project'') None
      (new_rule_store [tenant_rule 1 (lit ''a''), tenant_rule 2 (lit ''b'')]) = Inr sns \<and>
    prompt_rules id (\<lambda>c. 97 \<le> c) 10 (tenant 1) (lit ''the project'') None
      (store_rules (new_rule_store [tenant_rule 1 (lit ''a''), tenant_rule 2 (lit ''b'')])) sns) \<and>
   (\<exists>sns. retrieve (pg_list_for_customer rev) id (\<lambda>c. 97 \<le> c) 10 (Some (tenant 1)) (lit ''the project'') None
      [tenant_rule 1 (lit ''a''), tenant_rule 2 (lit ''b'')] = Inr sns \<and>
    prompt_rules id (\<lambda>c. 97 \<le> c) 10 (tenant 1) (lit ''the project'') None
      [tenant_rule 1 (lit ''a''), tenant_rule 2 (lit ''b'')] sns)"
proof (rule retrieval_in_view)
  show "rule_table_ok [tenant_rule 1 (lit ''a''), tenant_rule 2 (lit ''b'')]"
    by (simp add: rule_table_ok_def rule_ok_def tenant_defs)
qed (simp_all add: new_rule_store_ok ctx_ok_def tenant_def row_order_def)

end
