(* ===== verification/Ner.thy ===== *)
theory Ner
  imports Detection Regex
begin

text \<open>
  \<open>src/detectors/ner.py\<close>: the heuristic detector of persons, the grouping of the tokens the ONNX
  model labels, and the choice between them. \<open>is_word\<close> is the table behind \<open>\w\<close>. The tokenizer, the
  model and its arg max are the parameter \<open>infer\<close>, which gives for each token its label and its
  offsets. What the tokenizer documents of the offsets is that they are the start and the end of
  the token's characters in the text (\<open>offsets_in\<close>); that they ascend, are not empty or do not
  overlap is assumed only where a statement says so (\<open>in_order\<close>).
\<close>

section \<open>Patterns\<close>

definition ner_name :: ustr where
  "ner_name = lit ''ner''"

definition is_cap :: "nat \<Rightarrow> bool" where
  "is_cap c = (65 \<le> c \<and> c \<le> 90 \<or> 192 \<le> c \<and> c \<le> 214 \<or> 216 \<le> c \<and> c \<le> 221)"

definition is_name_char :: "nat \<Rightarrow> bool" where
  "is_name_char c = (65 \<le> c \<and> c \<le> 90 \<or> 97 \<le> c \<and> c \<le> 122 \<or> 192 \<le> c \<and> c \<le> 214 \<or> 216 \<le> c \<and> c \<le> 246 \<or>
     248 \<le> c \<and> c \<le> 255 \<or> c = 39 \<or> c = 45)"

text \<open>
  A letter under \<open>IGNORECASE\<close>: its two cases, and the three letters whose Unicode case forms fall
  on an ASCII letter (dotted and dotless i, Kelvin sign, long s).
\<close>

definition same_letter :: "nat \<Rightarrow> nat \<Rightarrow> bool" where
  "same_letter l c = (c = l \<or> c + 32 = l \<or> l = 105 \<and> (c = 304 \<or> c = 305) \<or> l = 107 \<and> c = 8490 \<or> l = 115 \<and> c = 383)"

fun word_rx :: "ustr \<Rightarrow> regex" where
  "word_rx [] = NotAhead (\<lambda>_. False)"
| "word_rx [l] = Chars (same_letter l)"
| "word_rx (l # ls) = Cat (Chars (same_letter l)) (word_rx ls)"

fun alternatives :: "ustr list \<Rightarrow> regex" where
  "alternatives [] = NotAhead (\<lambda>_. True)"
| "alternatives [w] = word_rx w"
| "alternatives (w # ws) = Alt (word_rx w) (alternatives ws)"

definition honorifics_rx :: "(nat \<Rightarrow> bool) \<Rightarrow> regex" where
  "honorifics_rx is_word =
     Cat (Boundary is_word)
       (Cat (alternatives (map lit [''mr'', ''mrs'', ''ms'', ''dr'', ''m'', ''mme'', ''mlle'', ''sayed'', ''sayyid'',
          ''sheikh'', ''madame'', ''monsieur'']))
         (Cat (Opt (Chars (\<lambda>c. c = 46))) (Repeat 1 None (Chars is_ws))))"

definition cap_word_rx :: regex where
  "cap_word_rx = Cat (Chars is_cap) (Repeat 1 None (Chars is_name_char))"

definition name_run_rx :: "(nat \<Rightarrow> bool) \<Rightarrow> regex" where
  "name_run_rx is_word =
     Cat (Boundary is_word) (Cat (Chars is_cap) (Cat (Repeat 1 None (Chars is_name_char))
       (Repeat 1 (Some 3) (Cat (Repeat 1 None (Chars is_ws)) cap_word_rx))))"

definition tail_rx :: regex where
  "tail_rx = Cat (Chars is_cap) (Cat (Repeat 1 None (Chars is_name_char))
     (Repeat 0 None (Cat (Repeat 1 None (Chars is_ws)) cap_word_rx)))"

section \<open>The heuristic detector\<close>

record ner_span =
  ns_start :: int
  ns_end :: int
  ns_text :: ustr
  ns_entity_type :: entity_type

definition person_span :: "ustr \<Rightarrow> int \<Rightarrow> int \<Rightarrow> ner_span" where
  "person_span text s e = \<lparr>ns_start = s, ns_end = e, ns_text = py_slice text s e, ns_entity_type = Person\<rparr>"

definition honorific_span :: "ustr \<Rightarrow> nat \<times> nat \<Rightarrow> ner_span list" where
  "honorific_span text m =
     (case match_at (drop (snd m) text) tail_rx 0 of None \<Rightarrow> []
      | Some j \<Rightarrow> [person_span text (int (snd m)) (int (snd m) + int j)])"

definition person_spans :: "(nat \<Rightarrow> bool) \<Rightarrow> ustr \<Rightarrow> ner_span list" where
  "person_spans is_word text =
     concat (map (honorific_span text) (find_all text (honorifics_rx is_word))) @
     map (\<lambda>m. \<lparr>ns_start = int (fst m), ns_end = int (snd m), ns_text = group text m, ns_entity_type = Person\<rparr>)
       (find_all text (name_run_rx is_word))"

text \<open>The loop of \<open>_merge_overlapping\<close>: \<open>last\<close> is the last element of the output so far.\<close>

definition extend_span :: "ner_span \<Rightarrow> ner_span \<Rightarrow> ner_span" where
  "extend_span lst s = \<lparr>ns_start = ns_start lst, ns_end = ns_end s,
     ns_text = ns_text lst @ slice_from (ns_text s) (ns_end lst - ns_start s),
     ns_entity_type = ns_entity_type lst\<rparr>"

fun merge_spans_from :: "ner_span \<Rightarrow> ner_span list \<Rightarrow> ner_span list" where
  "merge_spans_from lst [] = [lst]"
| "merge_spans_from lst (s # ss) =
     (if ns_start s < ns_end lst
      then merge_spans_from (if ns_end lst < ns_end s then extend_span lst s else lst) ss
      else lst # merge_spans_from s ss)"

definition merge_overlapping :: "ner_span list \<Rightarrow> ner_span list" where
  "merge_overlapping spans =
     (case sort_key (\<lambda>s. (ns_start s, - ns_end s)) spans of [] \<Rightarrow> [] | s # ss \<Rightarrow> merge_spans_from s ss)"

definition stub_ner_detect :: "(nat \<Rightarrow> bool) \<Rightarrow> scope \<Rightarrow> ustr \<Rightarrow> detection list res" where
  "stub_ner_detect is_word cur text =
     bindE (require_customer cur) (\<lambda>_.
       mapE (\<lambda>s. mk_detection (ns_entity_type s) (ns_start s) (ns_end s) (py_slice text (ns_start s) (ns_end s))
                   (float_lit 85 100) 2 ner_name (Some (lit ''ner.stub.person'')))
         (merge_overlapping (person_spans is_word text)))"

section \<open>The ONNX detector\<close>

definition label_map :: "(nat, entity_type option) dict" where
  "label_map = [(0, None), (1, Some Person), (2, Some Person), (3, Some Organization), (4, Some Organization),
     (5, Some Location), (6, Some Location)]"

definition label_entity :: "nat \<Rightarrow> entity_type option" where
  "label_entity l = (case map_of label_map l of None \<Rightarrow> None | Some e \<Rightarrow> e)"

type_synonym ner_token = "nat \<times> int \<times> int"

fun onnx_loop :: "ustr \<Rightarrow> ner_span option \<Rightarrow> ner_token list \<Rightarrow> ner_span list" where
  "onnx_loop text cur [] = (case cur of None \<Rightarrow> [] | Some c \<Rightarrow> [c])"
| "onnx_loop text cur ((label, s, e) # toks) =
     (case label_entity label of
        None \<Rightarrow> (case cur of None \<Rightarrow> [] | Some c \<Rightarrow> [c]) @ onnx_loop text None toks
      | Some ent \<Rightarrow>
          if e = 0 then (case cur of None \<Rightarrow> [] | Some c \<Rightarrow> [c]) @ onnx_loop text None toks
          else (case cur of
                  None \<Rightarrow> onnx_loop text (Some \<lparr>ns_start = s, ns_end = e, ns_text = py_slice text s e, ns_entity_type = ent\<rparr>) toks
                | Some c \<Rightarrow>
                    if ns_entity_type c \<noteq> ent \<or> ns_end c + 1 < s
                    then c # onnx_loop text (Some \<lparr>ns_start = s, ns_end = e, ns_text = py_slice text s e, ns_entity_type = ent\<rparr>) toks
                    else onnx_loop text (Some \<lparr>ns_start = ns_start c, ns_end = e,
                           ns_text = py_slice text (ns_start c) e, ns_entity_type = ent\<rparr>) toks))"

definition onnx_ner_detect :: "(ustr \<Rightarrow> ner_token list res) \<Rightarrow> scope \<Rightarrow> ustr \<Rightarrow> detection list res" where
  "onnx_ner_detect infer cur text =
     bindE (require_customer cur) (\<lambda>_.
     bindE (infer text) (\<lambda>toks.
       mapE (\<lambda>s. mk_detection (ns_entity_type s) (ns_start s) (ns_end s) (ns_text s) (float_lit 90 100) 2 ner_name
                   (Some (lit ''ner.onnx.'' @ entity_name (ns_entity_type s))))
         (onnx_loop text None toks)))"

datatype ner_backend =
    Stub_ner
  | Onnx_ner ustr ustr

definition make_ner :: "ustr \<Rightarrow> ustr option \<Rightarrow> ustr option \<Rightarrow> ner_backend res" where
  "make_ner backend model_path tokenizer_path =
     (if backend = lit ''onnx''
      then if \<not> truthy_str model_path \<or> \<not> truthy_str tokenizer_path then Inl ValueError
           else Inr (Onnx_ner (the model_path) (the tokenizer_path))
      else Inr Stub_ner)"

section \<open>Spans of the text\<close>

definition span_of :: "ustr \<Rightarrow> ner_span \<Rightarrow> bool" where
  "span_of text s = (0 \<le> ns_start s \<and> ns_start s < ns_end s \<and> ns_end s \<le> int (length text) \<and>
     ns_text s = py_slice text (ns_start s) (ns_end s))"

definition covers :: "ner_span list \<Rightarrow> int set" where
  "covers ss = (\<Union>s \<in> set ss. {ns_start s..<ns_end s})"

lemma covers_simps [simp]:
  "covers [] = {}" "covers (s # ss) = {ns_start s..<ns_end s} \<union> covers ss" "covers (xs @ ys) = covers xs \<union> covers ys"
  by (auto simp: covers_def)

lemma cat_chars_moves: "j \<in> set (ends s (Cat (Chars p) r) i) \<Longrightarrow> i < j \<and> j \<le> length s"
  using ends_range [of "Suc i" s j r] by (auto simp: char_at_def split: if_splits)

lemma cat_boundary: "j \<in> set (ends s (Cat (Boundary w) r) i) \<Longrightarrow> j \<in> set (ends s r i)"
  by (auto split: if_splits)

lemma match_at_mem: "match_at s r i = Some j \<Longrightarrow> j \<in> set (ends s r i)"
  by (auto simp: match_at_def split: list.splits)

lemma tail_moves: "match_at s tail_rx 0 = Some j \<Longrightarrow> 0 < j \<and> j \<le> length s"
  unfolding tail_rx_def by (drule match_at_mem) (drule cat_chars_moves, simp)

lemma name_run_moves:
  assumes "(a, b) \<in> set (find_all s (name_run_rx w))"
  shows "a < b \<and> b \<le> length s"
proof -
  have "match_at s (name_run_rx w) a = Some b"
    using assms finditer_sound unfolding find_all_def by blast
  then have "b \<in> set (ends s (name_run_rx w) a)" by (rule match_at_mem)
  then show ?thesis unfolding name_run_rx_def by (rule cat_chars_moves [OF cat_boundary])
qed

lemma group_py_slice: "a \<le> b \<Longrightarrow> b \<le> length s \<Longrightarrow> group s (a, b) = py_slice s (int a) (int b)"
  by (simp add: group_def py_slice_in_bounds)

lemma person_spans_of: "sp \<in> set (person_spans w text) \<Longrightarrow> span_of text sp \<and> ns_entity_type sp = Person"
proof -
  assume "sp \<in> set (person_spans w text)"
  then consider m where "m \<in> set (find_all text (honorifics_rx w))" "sp \<in> set (honorific_span text m)"
    | m where "m \<in> set (find_all text (name_run_rx w))"
        "sp = \<lparr>ns_start = int (fst m), ns_end = int (snd m), ns_text = group text m, ns_entity_type = Person\<rparr>"
    by (auto simp: person_spans_def)
  then show ?thesis
  proof cases
    case 1
    obtain j where j: "match_at (drop (snd m) text) tail_rx 0 = Some j"
      using 1(2) by (cases "match_at (drop (snd m) text) tail_rx 0") (auto simp: honorific_span_def)
    with 1(2) have "sp = person_span text (int (snd m)) (int (snd m) + int j)"
      by (simp add: honorific_span_def)
    with tail_moves [OF j(1)] show ?thesis by (auto simp: person_span_def span_of_def)
  next
    case 2
    obtain a b where m: "m = (a, b)" by (cases m)
    then have "a < b" "b \<le> length text" using name_run_moves 2(1) by blast+
    then show ?thesis using 2(2) m by (auto simp: span_of_def group_py_slice)
  qed
qed

section \<open>Merging overlapping spans\<close>

lemma slice_of_slice:
  assumes "0 \<le> a" "a \<le> b" "b \<le> c" "c \<le> int (length s)"
  shows "slice_from (py_slice s a c) (b - a) = py_slice s b c"
proof -
  obtain i j k where n: "a = int i" "b = int j" "c = int k"
    using assms by (metis order_trans nonneg_int_cases)
  then have "length (py_slice s a c) = k - i" "i \<le> j" "j \<le> k" "k \<le> length s"
    using assms length_py_slice [of a c s] by auto
  moreover have "nat (b - a) = j - i" using n \<open>i \<le> j\<close> by simp
  ultimately show ?thesis
    using n by (simp add: slice_from_in_bounds py_slice_in_bounds drop_take del: length_py_slice)
qed

lemma extend_span_of:
  assumes "span_of text lst" "span_of text s" "ns_start lst \<le> ns_start s" "ns_start s < ns_end lst" "ns_end lst < ns_end s"
  shows "span_of text (extend_span lst s)"
proof -
  have "slice_from (py_slice text (ns_start s) (ns_end s)) (ns_end lst - ns_start s) =
      py_slice text (ns_end lst) (ns_end s)"
    using assms by (intro slice_of_slice) (auto simp: span_of_def)
  then have "py_slice text (ns_start lst) (ns_end lst) @ slice_from (py_slice text (ns_start s) (ns_end s))
      (ns_end lst - ns_start s) = py_slice text (ns_start lst) (ns_end s)"
    using assms by (simp add: py_slice_split span_of_def)
  with assms show ?thesis by (simp add: span_of_def extend_span_def)
qed

definition apart :: "ner_span list \<Rightarrow> bool" where
  "apart ss = sorted_wrt (\<lambda>a b. ns_end a \<le> ns_start b) ss"

text \<open>
  The merge keeps spans of the text, puts them apart in ascending order, covers the same
  positions, and loses no span: each is inside one of the output.
\<close>

lemma merge_spans_from_spec:
  assumes "\<forall>s \<in> set (lst # ss). span_of text s \<and> ns_entity_type s = Person" "sorted (map ns_start (lst # ss))"
  shows "(\<forall>s \<in> set (merge_spans_from lst ss). span_of text s \<and> ns_entity_type s = Person \<and> ns_start lst \<le> ns_start s) \<and>
    apart (merge_spans_from lst ss) \<and> covers (merge_spans_from lst ss) = covers (lst # ss) \<and>
    (\<forall>s \<in> set (lst # ss). \<exists>o' \<in> set (merge_spans_from lst ss). ns_start o' \<le> ns_start s \<and> ns_end s \<le> ns_end o')"
  using assms
proof (induction ss arbitrary: lst)
  case Nil
  then show ?case by (simp add: apart_def)
next
  case (Cons s ss)
  let ?m = "if ns_end lst < ns_end s then extend_span lst s else lst"
  show ?case
  proof (cases "ns_start s < ns_end lst")
    case True
    have m: "span_of text ?m" "ns_entity_type ?m = Person" "ns_start ?m = ns_start lst"
      using Cons.prems True extend_span_of [of "text" lst s] by (auto simp: extend_span_def)
    have "\<forall>x \<in> set (?m # ss). span_of text x \<and> ns_entity_type x = Person" "sorted (map ns_start (?m # ss))"
      using Cons.prems m by auto
    note IH = Cons.IH [OF this]
    have cov: "{ns_start ?m..<ns_end ?m} = {ns_start lst..<ns_end lst} \<union> {ns_start s..<ns_end s}"
      using Cons.prems True by (auto simp: extend_span_def span_of_def)
    have m_end: "ns_end lst \<le> ns_end ?m" "ns_end s \<le> ns_end ?m" by (auto simp: extend_span_def)
    obtain o' where "o' \<in> set (merge_spans_from ?m ss)" "ns_start o' \<le> ns_start ?m" "ns_end ?m \<le> ns_end o'"
      using IH by (meson list.set_intros(1))
    then have "\<forall>x \<in> {lst, s}. \<exists>o' \<in> set (merge_spans_from ?m ss). ns_start o' \<le> ns_start x \<and> ns_end x \<le> ns_end o'"
      using m(3) m_end Cons.prems(2) by (auto intro!: bexI [of _ o'])
    then show ?thesis
      using IH True m(3) cov by (simp only: merge_spans_from.simps if_True covers_simps) (auto simp: Un_ac)
  next
    case False
    have "\<forall>x \<in> set (s # ss). span_of text x \<and> ns_entity_type x = Person" "sorted (map ns_start (s # ss))"
      using Cons.prems by auto
    note IH = Cons.IH [OF this]
    moreover have "\<forall>x \<in> set (merge_spans_from s ss). ns_end lst \<le> ns_start x"
      using IH False by force
    ultimately show ?thesis
      using False Cons.prems by (simp add: apart_def) (fastforce simp: Un_ac)
  qed
qed

lemma sorted_start_key: "sorted (map ns_start (sort_key (\<lambda>s. (ns_start s, - ns_end s)) spans))"
proof -
  have "sorted (map (\<lambda>s. (ns_start s, - ns_end s)) (sort_key (\<lambda>s. (ns_start s, - ns_end s)) spans))"
    by (rule sorted_sort_key)
  then show ?thesis
    unfolding sorted_map by (rule sorted_wrt_mono_rel [rotated]) (auto simp: less_eq_prod_def)
qed

lemma merge_overlapping_spec:
  assumes "\<forall>s \<in> set spans. span_of text s \<and> ns_entity_type s = Person"
  shows "(\<forall>s \<in> set (merge_overlapping spans). span_of text s \<and> ns_entity_type s = Person) \<and> apart (merge_overlapping spans) \<and>
    covers (merge_overlapping spans) = covers spans \<and>
    (\<forall>s \<in> set spans. \<exists>o' \<in> set (merge_overlapping spans). ns_start o' \<le> ns_start s \<and> ns_end s \<le> ns_end o')"
proof (cases "sort_key (\<lambda>s. (ns_start s, - ns_end s)) spans")
  case Nil
  then show ?thesis by (simp add: merge_overlapping_def apart_def)
next
  case (Cons s ss)
  then have set: "set (s # ss) = set spans" by (metis set_sort)
  then have cov: "covers (s # ss) = covers spans" by (simp add: covers_def del: covers_simps)
  have "sorted (map ns_start (s # ss))" using sorted_start_key [of spans] by (simp only: Cons)
  from merge_spans_from_spec [OF _ this, of "text"] assms show ?thesis
    unfolding set cov by (simp add: merge_overlapping_def Cons)
qed

section \<open>Grouping labelled tokens\<close>

text \<open>
  The loop reads the tokens labelled as an entity whose end is not \<open>0\<close>. \<open>in_order strict\<close>: those
  tokens are not empty, their starts and their ends do not descend (several tokens may have the
  same offsets), and, when \<open>strict\<close>, they do not overlap.
\<close>

definition entity_token :: "ner_token \<Rightarrow> bool" where
  "entity_token tok = (label_entity (fst tok) \<noteq> None \<and> snd (snd tok) \<noteq> 0)"

definition offsets_in :: "ustr \<Rightarrow> ner_token list \<Rightarrow> bool" where
  "offsets_in text toks = (\<forall>(l, s, e) \<in> set toks. 0 \<le> s \<and> s \<le> e \<and> e \<le> int (length text))"

definition in_order :: "bool \<Rightarrow> ner_token list \<Rightarrow> bool" where
  "in_order strict toks =
     ((\<forall>(l, s, e) \<in> set toks. entity_token (l, s, e) \<longrightarrow> s < e) \<and>
      sorted_wrt (\<lambda>(l, s, e) (l', s', e'). entity_token (l, s, e) \<and> entity_token (l', s', e') \<longrightarrow>
        s \<le> s' \<and> e \<le> e' \<and> (strict \<longrightarrow> e \<le> s')) toks)"

lemma offsets_in_Cons:
  "offsets_in text ((l, s, e) # toks) \<longleftrightarrow> 0 \<le> s \<and> s \<le> e \<and> e \<le> int (length text) \<and> offsets_in text toks"
  by (auto simp: offsets_in_def)

lemma in_order_Cons:
  "in_order strict ((l, s, e) # toks) \<longleftrightarrow> (entity_token (l, s, e) \<longrightarrow> s < e \<and>
     (\<forall>(l', s', e') \<in> set toks. entity_token (l', s', e') \<longrightarrow> s \<le> s' \<and> e \<le> e' \<and> (strict \<longrightarrow> e \<le> s'))) \<and>
   in_order strict toks"
  by (auto simp: in_order_def)

text \<open>
  Whatever the order of the tokens: a span quotes the text between the start of a token and the end
  of a token, both of its entity type.
\<close>

definition token_starts :: "ner_token list \<Rightarrow> ner_span \<Rightarrow> bool" where
  "token_starts toks sp = (\<exists>(l, s, e) \<in> set toks. label_entity l = Some (ns_entity_type sp) \<and> ns_start sp = s)"

definition token_ends :: "ner_token list \<Rightarrow> ner_span \<Rightarrow> bool" where
  "token_ends toks sp = (\<exists>(l, s, e) \<in> set toks. label_entity l = Some (ns_entity_type sp) \<and> ns_end sp = e)"

definition from_tokens :: "ustr \<Rightarrow> ner_token list \<Rightarrow> ner_span \<Rightarrow> bool" where
  "from_tokens text toks sp = (ns_text sp = py_slice text (ns_start sp) (ns_end sp) \<and> token_starts toks sp \<and> token_ends toks sp)"

lemma token_bounds_simps [simp]:
  "token_starts (pre @ toks) sp \<longleftrightarrow> token_starts pre sp \<or> token_starts toks sp"
  "token_ends (pre @ toks) sp \<longleftrightarrow> token_ends pre sp \<or> token_ends toks sp"
  "token_starts ((l, s, e) # toks) sp \<longleftrightarrow> label_entity l = Some (ns_entity_type sp) \<and> ns_start sp = s \<or> token_starts toks sp"
  "token_ends ((l, s, e) # toks) sp \<longleftrightarrow> label_entity l = Some (ns_entity_type sp) \<and> ns_end sp = e \<or> token_ends toks sp"
  by (auto simp: token_starts_def token_ends_def)

lemma onnx_loop_from_tokens:
  assumes "\<forall>c. cur = Some c \<longrightarrow> from_tokens text pre c" "sp \<in> set (onnx_loop text cur toks)"
  shows "from_tokens text (pre @ toks) sp"
  using assms
proof (induction "text" cur toks arbitrary: pre rule: onnx_loop.induct)
  case (1 tx cur)
  then show ?case by (cases cur) auto
next
  case (2 tx cur label s e toks)
  let ?pre = "pre @ [(label, s, e)]"
  let ?new = "\<lambda>ent. \<lparr>ns_start = s, ns_end = e, ns_text = py_slice tx s e, ns_entity_type = ent\<rparr>"
  have old: "from_tokens tx (pre @ (label, s, e) # toks) c" if "cur = Some c" for c
    using "2.prems"(1) that by (auto simp: from_tokens_def)
  have new: "from_tokens tx ?pre (?new ent)" if "label_entity label = Some ent" for ent
    using that by (simp add: from_tokens_def)
  show ?case
  proof (cases "label_entity label = None \<or> e = 0")
    case True
    then have "sp \<in> set (onnx_loop tx None toks) \<or> cur = Some sp"
      using "2.prems"(2) by (auto split: option.splits if_splits)
    then show ?thesis
      using True old "2.IH"(1) [of ?pre] "2.IH"(2) [of _ ?pre] by (cases "label_entity label") auto
  next
    case False
    then obtain ent where ent: "label_entity label = Some ent" and e: "e \<noteq> 0" by auto
    show ?thesis
    proof (cases cur)
      case None
      then show ?thesis using "2.IH"(3) [OF ent e None, of ?pre] "2.prems"(2) new [OF ent] ent e by simp
    next
      case (Some c)
      show ?thesis
      proof (cases "ns_entity_type c \<noteq> ent \<or> ns_end c + 1 < s")
        case True
        then have "sp = c \<or> sp \<in> set (onnx_loop tx (Some (?new ent)) toks)" using "2.prems"(2) ent e Some by simp
        then show ?thesis using "2.IH"(4) [OF ent e Some True, of ?pre] new [OF ent] old [OF Some] by auto
      next
        case False
        let ?ext = "\<lparr>ns_start = ns_start c, ns_end = e, ns_text = py_slice tx (ns_start c) e, ns_entity_type = ent\<rparr>"
        have "from_tokens tx ?pre ?ext"
          using "2.prems"(1) Some False ent by (auto simp: from_tokens_def token_starts_def)
        then show ?thesis using "2.IH"(5) [OF ent e Some False, of ?pre] "2.prems"(2) Some False ent e by simp
      qed
    qed
  qed
qed

definition cur_ok :: "bool \<Rightarrow> ustr \<Rightarrow> ner_span option \<Rightarrow> ner_token list \<Rightarrow> bool" where
  "cur_ok strict text cur toks = (\<forall>c. cur = Some c \<longrightarrow> span_of text c \<and>
     (\<forall>tok \<in> set toks. entity_token tok \<longrightarrow> ns_start c \<le> fst (snd tok) \<and> ns_end c \<le> snd (snd tok) \<and>
        (strict \<longrightarrow> ns_end c \<le> fst (snd tok))))"

definition token_in :: "ner_span list \<Rightarrow> entity_type \<Rightarrow> int \<Rightarrow> int \<Rightarrow> bool" where
  "token_in out ent s e = (\<exists>sp \<in> set out. ns_entity_type sp = ent \<and> ns_start sp \<le> s \<and> e \<le> ns_end sp)"

definition token_done :: "ner_span list \<Rightarrow> ner_token \<Rightarrow> bool" where
  "token_done out tok = (snd (snd tok) \<noteq> 0 \<longrightarrow>
     (\<forall>ent. label_entity (fst tok) = Some ent \<longrightarrow> token_in out ent (fst (snd tok)) (snd (snd tok))))"

definition starts_from :: "ner_span option \<Rightarrow> ner_token list \<Rightarrow> ner_span \<Rightarrow> bool" where
  "starts_from cur toks sp = (case cur of Some c \<Rightarrow> ns_start c \<le> ns_start sp
     | None \<Rightarrow> \<exists>tok \<in> set toks. entity_token tok \<and> fst (snd tok) \<le> ns_start sp)"

definition cur_in :: "ner_span list \<Rightarrow> ner_span \<Rightarrow> bool" where
  "cur_in out c = token_in out (ns_entity_type c) (ns_start c) (ns_end c)"

definition grouped :: "bool \<Rightarrow> ustr \<Rightarrow> ner_span option \<Rightarrow> ner_token list \<Rightarrow> ner_span list \<Rightarrow> bool" where
  "grouped strict text cur toks out =
     ((\<forall>sp \<in> set out. span_of text sp \<and> starts_from cur toks sp) \<and> (strict \<longrightarrow> apart out) \<and>
      (\<forall>c. cur = Some c \<longrightarrow> cur_in out c) \<and> (\<forall>tok \<in> set toks. token_done out tok))"

lemma token_in_Cons: "token_in (c # out) ent s e \<longleftrightarrow>
    ns_entity_type c = ent \<and> ns_start c \<le> s \<and> e \<le> ns_end c \<or> token_in out ent s e"
  by (auto simp: token_in_def)

lemma token_done_Cons: "token_done out tok \<Longrightarrow> token_done (c # out) tok"
  by (auto simp: token_done_def token_in_Cons)

lemma flush_grouped:
  assumes "cur_ok strict text cur toks" "grouped strict text None toks out"
  shows "grouped strict text cur toks ((case cur of None \<Rightarrow> [] | Some c \<Rightarrow> [c]) @ out)"
proof (cases cur)
  case (Some c)
  have behind: "ns_start c \<le> ns_start sp \<and> (strict \<longrightarrow> ns_end c \<le> ns_start sp)" if sp: "sp \<in> set out" for sp
  proof -
    obtain tok where "tok \<in> set toks" "entity_token tok" "fst (snd tok) \<le> ns_start sp"
      using assms(2) sp unfolding grouped_def starts_from_def by auto
    then show ?thesis using assms(1) unfolding cur_ok_def Some by fastforce
  qed
  have c: "span_of text c" using assms(1) Some by (simp add: cur_ok_def)
  have "starts_from (Some c) toks sp" if "sp \<in> set (c # out)" for sp
    using behind [of sp] that c by (auto simp: span_of_def starts_from_def)
  moreover have "strict \<longrightarrow> apart (c # out)" using behind assms(2) by (simp add: apart_def grouped_def)
  moreover have "cur_in (c # out) c" by (simp add: cur_in_def token_in_Cons)
  ultimately show ?thesis
    using c assms(2) unfolding grouped_def Some by (auto intro: token_done_Cons)
qed (use assms in simp)

lemma skip_grouped:
  assumes "grouped strict text None toks out" "label_entity l = None \<or> e = 0"
  shows "grouped strict text None ((l, s, e) # toks) out"
proof -
  have "starts_from None ((l, s, e) # toks) sp" if "starts_from None toks sp" for sp
    using that by (auto simp: starts_from_def)
  moreover have "token_done out (l, s, e)" using assms(2) by (auto simp: token_done_def)
  ultimately show ?thesis using assms(1) by (simp add: grouped_def)
qed

lemma token_in_within: "token_in out ent s e \<Longrightarrow> s \<le> s' \<Longrightarrow> e' \<le> e \<Longrightarrow> token_in out ent s' e'"
  unfolding token_in_def by force

lemma start_grouped:
  assumes "grouped strict text (Some c) toks out" "label_entity l = Some (ns_entity_type c)" "ns_start c \<le> s" "e \<le> ns_end c" "e \<noteq> 0"
    and "cur = None \<Longrightarrow> ns_start c = s"
    and "\<And>c'. cur = Some c' \<Longrightarrow> ns_start c' = ns_start c \<and> ns_end c' \<le> ns_end c \<and> ns_entity_type c' = ns_entity_type c"
  shows "grouped strict text cur ((l, s, e) # toks) out"
proof -
  have inside: "token_in out (ns_entity_type c) (ns_start c) (ns_end c)"
    using assms(1) by (simp add: grouped_def cur_in_def)
  have "token_done out (l, s, e)"
    using token_in_within [OF inside assms(3,4)] assms(2) by (simp add: token_done_def)
  moreover have "cur_in out c'" if "cur = Some c'" for c'
    using token_in_within [OF inside, of "ns_start c'" "ns_end c'"] assms(7) [OF that] by (simp add: cur_in_def)
  moreover have "starts_from cur ((l, s, e) # toks) sp" if "starts_from (Some c) toks sp" for sp
  proof (cases cur)
    case None
    then show ?thesis using that assms(2,5) assms(6) by (simp add: starts_from_def entity_token_def)
  next
    case (Some c')
    then show ?thesis using that assms(7) [OF Some] by (simp add: starts_from_def)
  qed
  ultimately show ?thesis
    using assms(1) by (simp add: grouped_def)
qed

lemma onnx_loop_grouped:
  "offsets_in text toks \<Longrightarrow> in_order strict toks \<Longrightarrow> cur_ok strict text cur toks \<Longrightarrow> grouped strict text cur toks (onnx_loop text cur toks)"
proof (induction "text" cur toks rule: onnx_loop.induct)
  case (1 tx cur)
  then show ?case by (cases cur) (auto simp: grouped_def cur_ok_def apart_def token_in_def cur_in_def starts_from_def)
next
  case (2 tx cur label s e toks)
  let ?new = "\<lambda>ent. \<lparr>ns_start = s, ns_end = e, ns_text = py_slice tx s e, ns_entity_type = ent\<rparr>"
  have toks: "offsets_in tx toks" "in_order strict toks"
    using "2.prems"(1,2) by (simp_all add: offsets_in_Cons in_order_Cons)
  have none: "cur_ok strict tx None toks" by (simp add: cur_ok_def)
  show ?case
  proof (cases "label_entity label = None \<or> e = 0")
    case True
    have "grouped strict tx None toks (onnx_loop tx None toks)"
      using True "2.IH"(1) [OF _ toks none] "2.IH"(2) [OF _ _ toks none] by (cases "label_entity label") auto
    note flush_grouped [OF "2.prems"(3) skip_grouped [OF this True, of s]]
    with True show ?thesis by (auto split: option.splits)
  next
    case False
    then obtain ent where ent: "label_entity label = Some ent" and e: "e \<noteq> 0" by auto
    then have tok: "entity_token (label, s, e)" by (simp add: entity_token_def)
    then have range: "0 \<le> s" "s < e" "e \<le> int (length tx)"
        "\<forall>(l', s', e') \<in> set toks. entity_token (l', s', e') \<longrightarrow> s \<le> s' \<and> e \<le> e' \<and> (strict \<longrightarrow> e \<le> s')"
      using "2.prems"(1,2) by (simp_all add: offsets_in_Cons in_order_Cons)
    then have new: "cur_ok strict tx (Some (?new ent)) toks" by (auto simp: cur_ok_def span_of_def)
    show ?thesis
    proof (cases cur)
      case None
      have "grouped strict tx (Some (?new ent)) toks (onnx_loop tx (Some (?new ent)) toks)"
        by (rule "2.IH"(3) [OF ent e None toks new])
      from start_grouped [OF this, of label s e None] show ?thesis
        by (simp add: None ent e)
    next
      case (Some c)
      have c: "span_of tx c" "ns_start c \<le> s" "ns_end c \<le> e" using "2.prems"(3) tok by (auto simp: cur_ok_def Some)
      show ?thesis
      proof (cases "ns_entity_type c \<noteq> ent \<or> ns_end c + 1 < s")
        case True
        have "grouped strict tx (Some (?new ent)) toks (onnx_loop tx (Some (?new ent)) toks)"
          by (rule "2.IH"(4) [OF ent e Some True toks new])
        from start_grouped [OF this, of label s e None]
        have "grouped strict tx None ((label, s, e) # toks) (onnx_loop tx (Some (?new ent)) toks)"
          by (simp add: ent e)
        from flush_grouped [OF "2.prems"(3) this] True show ?thesis by (simp add: Some ent e)
      next
        case False
        let ?ext = "\<lparr>ns_start = ns_start c, ns_end = e, ns_text = py_slice tx (ns_start c) e, ns_entity_type = ent\<rparr>"
        have "cur_ok strict tx (Some ?ext) toks" using c range by (fastforce simp: cur_ok_def span_of_def)
        then have "grouped strict tx (Some ?ext) toks (onnx_loop tx (Some ?ext) toks)"
          by (rule "2.IH"(5) [OF ent e Some False toks])
        then have "grouped strict tx cur ((label, s, e) # toks) (onnx_loop tx (Some ?ext) toks)"
          by (rule start_grouped) (use False c range e ent Some in \<open>auto simp: span_of_def\<close>)
        with False show ?thesis by (simp add: Some ent e)
      qed
    qed
  qed
qed

section \<open>The detectors keep the contract\<close>

lemma spans_to_detections:
  assumes "\<forall>sp \<in> set sps. span_of text sp" "0 \<le> c" "c \<le> 1"
    and "out = map (\<lambda>sp. \<lparr>d_entity_type = ns_entity_type sp, d_start = ns_start sp, d_end = ns_end sp,
      d_text = py_slice text (ns_start sp) (ns_end sp), d_confidence = c, d_tier = 2, d_detector = ner_name,
      d_rule_id = Some (rid sp), d_metadata = []\<rparr>) sps"
  shows "mapE (\<lambda>s. mk_detection (ns_entity_type s) (ns_start s) (ns_end s) (py_slice text (ns_start s) (ns_end s)) c 2
      ner_name (Some (rid s))) sps = Inr out \<and> (\<forall>d \<in> set out. wf_detection d \<and> span_in text d)"
proof
  show "\<forall>d \<in> set out. wf_detection d \<and> span_in text d"
    using assms by (auto simp: wf_detection_def span_in_def span_of_def)
  show "mapE (\<lambda>s. mk_detection (ns_entity_type s) (ns_start s) (ns_end s) (py_slice text (ns_start s) (ns_end s)) c 2
      ner_name (Some (rid s))) sps = Inr out"
    unfolding assms(4) using assms(1-3)
    by (intro mapE_total) (auto simp: mk_detection_def post_init_def span_of_def)
qed

lemma ner_confidences: "0 \<le> float_lit 85 100" "float_lit 85 100 \<le> 1" "0 \<le> float_lit 90 100" "float_lit 90 100 \<le> 1"
proof -
  have "float_lit 90 100 = float_lit 9 10" by (simp add: float_lit_def)
  then show "0 \<le> float_lit 85 100" "float_lit 85 100 \<le> 1" "0 \<le> float_lit 90 100" "float_lit 90 100 \<le> 1"
    by (simp_all add: float_lits)
qed

lemma stub_merged:
  "(\<forall>s \<in> set (merge_overlapping (person_spans w text)). span_of text s \<and> ns_entity_type s = Person) \<and>
   apart (merge_overlapping (person_spans w text)) \<and>
   (\<forall>s \<in> set (person_spans w text). \<exists>o' \<in> set (merge_overlapping (person_spans w text)).
      ns_start o' \<le> ns_start s \<and> ns_end s \<le> ns_end o') \<and>
   covers (merge_overlapping (person_spans w text)) = covers (person_spans w text)"
  using merge_overlapping_spec [of "person_spans w text" "text"] person_spans_of by blast

lemma stub_ner_total:
  "\<exists>ds. stub_ner_detect w (Some ctx) text = Inr ds \<and> (\<forall>d \<in> set ds. wf_detection d \<and> span_in text d) \<and>
     map (\<lambda>d. (d_start d, d_end d, d_entity_type d)) ds =
       map (\<lambda>s. (ns_start s, ns_end s, ns_entity_type s)) (merge_overlapping (person_spans w text))"
proof -
  have spans: "\<forall>s \<in> set (merge_overlapping (person_spans w text)). span_of text s"
    using stub_merged by blast
  from spans_to_detections [OF this ner_confidences(1,2) refl, of "\<lambda>_. lit ''ner.stub.person''"]
  show ?thesis unfolding stub_ner_detect_def by (simp only: require_customer_simps bindE_simps) auto
qed

lemma stub_ner_detector: "scoped_detector (stub_ner_detect w)"
proof
  fix cur s ds d
  assume "stub_ner_detect w cur s = Inr ds" "d \<in> set ds"
  then show "wf_detection d" "span_in s d"
    using stub_ner_total [of w _ s] by (cases cur; fastforce simp: stub_ner_detect_def)+
qed (simp add: stub_ner_detect_def)

interpretation stub_ner: scoped_detector "stub_ner_detect w"
  by (rule stub_ner_detector)

section \<open>The detections of the ONNX detector\<close>

lemma onnx_detect_eq:
  assumes "infer text = Inr toks"
  shows "onnx_ner_detect infer (Some ctx) text = mapE (\<lambda>s. mk_detection (ns_entity_type s) (ns_start s) (ns_end s)
    (py_slice text (ns_start s) (ns_end s)) (float_lit 90 100) 2 ner_name
    (Some (lit ''ner.onnx.'' @ entity_name (ns_entity_type s)))) (onnx_loop text None toks)"
proof -
  have "ns_text s = py_slice text (ns_start s) (ns_end s)" if "s \<in> set (onnx_loop text None toks)" for s
    using onnx_loop_from_tokens [OF _ that, of "[]"] by (simp add: from_tokens_def)
  then show ?thesis using assms by (simp add: onnx_ner_detect_def cong: mapE_cong)
qed

lemma onnx_detect_error:
  assumes "infer text = Inr toks" "onnx_ner_detect infer (Some ctx) text = Inl e"
  shows "e = ValueError"
proof -
  have "mapE f sps = Inl e \<Longrightarrow> \<exists>s \<in> set sps. f s = Inl e" for f :: "ner_span \<Rightarrow> detection res" and sps
    by (induction sps) (auto simp: bindE_eq_Inl)
  from this [OF assms(2) [unfolded onnx_detect_eq [of infer "text" toks, OF assms(1)]]] show ?thesis
    by (auto simp: mk_detection_def post_init_error)
qed

lemma onnx_detect_from_tokens:
  assumes "infer text = Inr toks" "offsets_in text toks" "onnx_ner_detect infer (Some ctx) text = Inr ds" "d \<in> set ds"
  shows "wf_detection d \<and> span_in text d \<and>
    (\<exists>(l, s, e) \<in> set toks. label_entity l = Some (d_entity_type d) \<and> d_start d = s) \<and>
    (\<exists>(l, s, e) \<in> set toks. label_entity l = Some (d_entity_type d) \<and> d_end d = e)"
proof -
  obtain sp where sp: "sp \<in> set (onnx_loop text None toks)" "mk_detection (ns_entity_type sp) (ns_start sp) (ns_end sp)
      (py_slice text (ns_start sp) (ns_end sp)) (float_lit 90 100) 2 ner_name
      (Some (lit ''ner.onnx.'' @ entity_name (ns_entity_type sp))) = Inr d"
    using mapE_member [OF assms(3) [unfolded onnx_detect_eq [of infer "text" toks, OF assms(1)]] assms(4)] by blast
  have quoted: "from_tokens text toks sp" using onnx_loop_from_tokens [OF _ sp(1), of "[]"] by simp
  have wf: "wf_detection d" and d: "d_entity_type d = ns_entity_type sp" "d_start d = ns_start sp" "d_end d = ns_end sp"
      "d_text d = py_slice text (ns_start sp) (ns_end sp)"
    using sp(2) by (auto simp: mk_detection_def post_init_iff)
  have "ns_end sp \<le> int (length text)"
    using quoted assms(2) by (auto simp: from_tokens_def token_ends_def offsets_in_def)
  then show ?thesis
    using quoted wf d by (simp add: from_tokens_def token_starts_def token_ends_def span_in_def wf_detection_def)
qed

lemma onnx_detect_in_order:
  assumes "infer text = Inr toks" "offsets_in text toks" "in_order strict toks"
  shows "\<exists>ds. onnx_ner_detect infer (Some ctx) text = Inr ds \<and>
    (\<forall>(l, s, e) \<in> set toks. \<forall>ent. label_entity l = Some ent \<and> e \<noteq> 0 \<longrightarrow>
      (\<exists>d \<in> set ds. d_entity_type d = ent \<and> d_start d \<le> s \<and> e \<le> d_end d)) \<and>
    (strict \<longrightarrow> disjoint_spans ds)"
proof -
  let ?sps = "onnx_loop text None toks"
  let ?rid = "\<lambda>s. lit ''ner.onnx.'' @ entity_name (ns_entity_type s)"
  let ?ds = "map (\<lambda>sp. \<lparr>d_entity_type = ns_entity_type sp, d_start = ns_start sp, d_end = ns_end sp,
      d_text = py_slice text (ns_start sp) (ns_end sp), d_confidence = float_lit 90 100, d_tier = 2, d_detector = ner_name,
      d_rule_id = Some (?rid sp), d_metadata = []\<rparr>) ?sps"
  have "grouped strict text None toks ?sps"
    by (rule onnx_loop_grouped [OF assms(2,3)]) (simp add: cur_ok_def)
  then have spans: "\<forall>s \<in> set ?sps. span_of text s" and apart: "strict \<longrightarrow> apart ?sps"
      and finished: "\<forall>tok \<in> set toks. token_done ?sps tok"
    by (simp_all add: grouped_def)
  note made = spans_to_detections [OF spans ner_confidences(3,4) refl, of ?rid]
  then have "onnx_ner_detect infer (Some ctx) text = Inr ?ds" by (simp add: onnx_detect_eq [of infer "text" toks, OF assms(1)])
  moreover have "strict \<longrightarrow> disjoint_spans ?ds"
    using apart by (simp add: disjoint_spans_def apart_def sorted_wrt_map)
  moreover have "\<exists>d \<in> set ?ds. d_entity_type d = ent \<and> d_start d \<le> s \<and> e \<le> d_end d"
    if "(l, s, e) \<in> set toks" "label_entity l = Some ent" "e \<noteq> 0" for l s e ent
    using finished that by (fastforce simp: token_done_def token_in_def)
  ultimately show ?thesis by (intro exI [of _ ?ds]) blast
qed

section \<open>Properties\<close>

text \<open>
  The heuristic detector never raises for a customer in scope; its detections are persons that
  quote the text, ascending and disjoint, and cover exactly the characters of the spans the two
  patterns find: merging overlapping spans loses nothing and adds nothing.
\<close>

theorem stub_ner_spec:
  "\<exists>ds. stub_ner_detect w (Some ctx) text = Inr ds \<and> disjoint_spans ds \<and>
     (\<forall>d \<in> set ds. span_in text d \<and> d_entity_type d = Person \<and> d_tier d = 2) \<and>
     (\<Union>d \<in> set ds. {d_start d..<d_end d}) = covers (person_spans w text) \<and>
     (\<forall>sp \<in> set (person_spans w text). \<exists>d \<in> set ds. d_start d \<le> ns_start sp \<and> ns_end sp \<le> d_end d)"
proof -
  let ?sps = "merge_overlapping (person_spans w text)"
  let ?ds = "map (\<lambda>sp. \<lparr>d_entity_type = ns_entity_type sp, d_start = ns_start sp, d_end = ns_end sp,
      d_text = py_slice text (ns_start sp) (ns_end sp), d_confidence = float_lit 85 100, d_tier = 2, d_detector = ner_name,
      d_rule_id = Some (lit ''ner.stub.person''), d_metadata = []\<rparr>) ?sps"
  have merged: "\<forall>s \<in> set ?sps. span_of text s" "\<forall>s \<in> set ?sps. ns_entity_type s = Person" "apart ?sps"
      "\<forall>s \<in> set (person_spans w text). \<exists>o' \<in> set ?sps. ns_start o' \<le> ns_start s \<and> ns_end s \<le> ns_end o'"
      "covers ?sps = covers (person_spans w text)"
    using stub_merged [of w "text"] by blast+
  note made = spans_to_detections [OF merged(1) ner_confidences(1,2) refl, of "\<lambda>_. lit ''ner.stub.person''"]
  have "stub_ner_detect w (Some ctx) text = Inr ?ds" using made by (simp add: stub_ner_detect_def)
  moreover have "disjoint_spans ?ds" using merged(3) by (simp add: disjoint_spans_def apart_def sorted_wrt_map)
  moreover have "\<forall>d \<in> set ?ds. span_in text d" using made by blast
  moreover have "(\<Union>d \<in> set ?ds. {d_start d..<d_end d}) = covers ?sps" by (simp add: covers_def)
  moreover have "\<exists>d \<in> set ?ds. d_start d \<le> ns_start sp \<and> ns_end sp \<le> d_end d" if "sp \<in> set (person_spans w text)" for sp
    using merged(4) that by fastforce
  ultimately show ?thesis using merged(2,5) by (intro exI [of _ ?ds]) auto
qed

text \<open>
  C33. The grouping of the labelled tokens. When each pair of offsets lies in the text, as the
  tokenizer documents, the detector answers or raises \<open>ValueError\<close>, and every detection it
  answers with is valid, quotes the text, starts where a token labelled with its entity type starts
  and ends where one ends. When moreover the entity tokens are not empty and their starts and ends
  do not descend, which the documentation does not say, it does not raise and every entity token
  lies inside a detection of its type; and when those tokens do not overlap either, the detections
  ascend and are disjoint.
\<close>

theorem onnx_ner_spec:
  assumes "infer text = Inr toks" and "offsets_in text toks"
  shows "(\<forall>e. onnx_ner_detect infer (Some ctx) text = Inl e \<longrightarrow> e = ValueError) \<and>
    (\<forall>ds. onnx_ner_detect infer (Some ctx) text = Inr ds \<longrightarrow> (\<forall>d \<in> set ds. wf_detection d \<and> span_in text d \<and>
      (\<exists>(l, s, e) \<in> set toks. label_entity l = Some (d_entity_type d) \<and> d_start d = s) \<and>
      (\<exists>(l, s, e) \<in> set toks. label_entity l = Some (d_entity_type d) \<and> d_end d = e))) \<and>
    (\<forall>strict. in_order strict toks \<longrightarrow> (\<exists>ds. onnx_ner_detect infer (Some ctx) text = Inr ds \<and>
      (\<forall>(l, s, e) \<in> set toks. \<forall>ent. label_entity l = Some ent \<and> e \<noteq> 0 \<longrightarrow>
        (\<exists>d \<in> set ds. d_entity_type d = ent \<and> d_start d \<le> s \<and> e \<le> d_end d)) \<and>
      (strict \<longrightarrow> disjoint_spans ds)))"
proof (intro conjI allI impI)
  fix e assume "onnx_ner_detect infer (Some ctx) text = Inl e"
  then show "e = ValueError" by (rule onnx_detect_error [of infer "text" toks, OF assms(1)])
next
  fix ds assume "onnx_ner_detect infer (Some ctx) text = Inr ds"
  then show "\<forall>d \<in> set ds. wf_detection d \<and> span_in text d \<and>
      (\<exists>(l, s, e) \<in> set toks. label_entity l = Some (d_entity_type d) \<and> d_start d = s) \<and>
      (\<exists>(l, s, e) \<in> set toks. label_entity l = Some (d_entity_type d) \<and> d_end d = e)"
    using onnx_detect_from_tokens [of infer "text" toks, OF assms] by blast
next
  fix strict assume "in_order strict toks"
  then show "\<exists>ds. onnx_ner_detect infer (Some ctx) text = Inr ds \<and>
      (\<forall>(l, s, e) \<in> set toks. \<forall>ent. label_entity l = Some ent \<and> e \<noteq> 0 \<longrightarrow>
        (\<exists>d \<in> set ds. d_entity_type d = ent \<and> d_start d \<le> s \<and> e \<le> d_end d)) \<and>
      (strict \<longrightarrow> disjoint_spans ds)"
    by (rule onnx_detect_in_order [of infer "text" toks, OF assms])
qed

section \<open>Witnesses\<close>

definition ner_sample :: customer_context where
  "ner_sample = \<lparr>cc_customer_id = lit ''acme'', cc_country_code = lit ''DZ'', cc_plan = Starter\<rparr>"

lemma stub_ner_spec_witness:
  "\<exists>ds. stub_ner_detect (\<lambda>c. 65 \<le> c) (Some ner_sample) (lit ''Dr Ali'') = Inr ds \<and> disjoint_spans ds"
  using stub_ner_spec [of "\<lambda>c. 65 \<le> c" ner_sample "lit ''Dr Ali''"] by blast

text \<open>Two tokens with the same offsets, of two entity types: nothing raises, and the detections overlap.\<close>

lemma onnx_ner_spec_witness:
  "(\<exists>ds. onnx_ner_detect (\<lambda>_. Inr [(0, 0, 0), (1, 0, 3), (3, 0, 3), (3, 4, 7)]) (Some ner_sample) (lit ''Ali Ben'') = Inr ds \<and>
     (\<exists>d \<in> set ds. d_entity_type d = Person \<and> d_start d \<le> 0 \<and> 3 \<le> d_end d) \<and>
     (\<exists>d \<in> set ds. d_entity_type d = Organization \<and> d_start d \<le> 4 \<and> 7 \<le> d_end d)) \<and>
   (\<exists>ds. onnx_ner_detect (\<lambda>_. Inr [(0, 0, 0), (1, 0, 3), (2, 4, 7)]) (Some ner_sample) (lit ''Ali Ben'') = Inr ds \<and>
     disjoint_spans ds)"
proof
  let ?toks = "[(0, 0, 0), (1, 0, 3), (3, 0, 3), (3, 4, 7)] :: ner_token list"
  have "offsets_in (lit ''Ali Ben'') ?toks" "in_order False ?toks"
    by (simp_all add: offsets_in_def in_order_def entity_token_def)
  then obtain ds where ds: "onnx_ner_detect (\<lambda>_. Inr ?toks) (Some ner_sample) (lit ''Ali Ben'') = Inr ds"
      "\<forall>(l, s, e) \<in> set ?toks. \<forall>ent. label_entity l = Some ent \<and> e \<noteq> 0 \<longrightarrow>
        (\<exists>d \<in> set ds. d_entity_type d = ent \<and> d_start d \<le> s \<and> e \<le> d_end d)"
    using onnx_ner_spec [of "\<lambda>_. Inr ?toks" "lit ''Ali Ben''" ?toks ner_sample] by blast
  have "label_entity 1 = Some Person" "label_entity 3 = Some Organization"
    by (simp_all add: label_entity_def label_map_def)
  with ds(2) have "(\<exists>d \<in> set ds. d_entity_type d = Person \<and> d_start d \<le> 0 \<and> 3 \<le> d_end d)"
      "(\<exists>d \<in> set ds. d_entity_type d = Organization \<and> d_start d \<le> 4 \<and> 7 \<le> d_end d)" by simp_all
  with ds(1) show "\<exists>ds. onnx_ner_detect (\<lambda>_. Inr ?toks) (Some ner_sample) (lit ''Ali Ben'') = Inr ds \<and>
     (\<exists>d \<in> set ds. d_entity_type d = Person \<and> d_start d \<le> 0 \<and> 3 \<le> d_end d) \<and>
     (\<exists>d \<in> set ds. d_entity_type d = Organization \<and> d_start d \<le> 4 \<and> 7 \<le> d_end d)" by blast
next
  have "offsets_in (lit ''Ali Ben'') [(0, 0, 0), (1, 0, 3), (2, 4, 7)]" "in_order True [(0, 0, 0), (1, 0, 3), (2, 4, 7)]"
    by (simp_all add: offsets_in_def in_order_def entity_token_def label_entity_def label_map_def)
  then show "\<exists>ds. onnx_ner_detect (\<lambda>_. Inr [(0, 0, 0), (1, 0, 3), (2, 4, 7)]) (Some ner_sample) (lit ''Ali Ben'') = Inr ds \<and>
     disjoint_spans ds"
    using onnx_ner_spec [of "\<lambda>_. Inr [(0, 0, 0), (1, 0, 3), (2, 4, 7)]" "lit ''Ali Ben''"
      "[(0, 0, 0), (1, 0, 3), (2, 4, 7)]" ner_sample] by blast
qed

end
