(* ===== verification/ProxyAuth.thy ===== *)
theory ProxyAuth
  imports Tenancy
begin

text \<open>
  \<open>src/proxy/auth.py\<close>: the directory of API keys and the dependency that resolves a request's key
  and binds its customer to the context variable. \<open>lower\<close> is \<open>str.lower\<close> and \<open>isalpha\<close> the table
  behind \<open>str.isalpha\<close>.
\<close>

record customer_record =
  cr_customer_id :: ustr
  cr_country_code :: ustr
  cr_plan :: ustr
  cr_upstream_provider_key :: ustr

type_synonym customer_directory = "(ustr, customer_record) dict"

definition register :: "ustr \<Rightarrow> customer_record \<Rightarrow> customer_directory \<Rightarrow> customer_directory" where
  "register api_key rec dir = dict_set api_key rec dir"

definition lookup_key :: "ustr \<Rightarrow> customer_directory \<Rightarrow> customer_record option" where
  "lookup_key api_key dir = map_of dir api_key"

definition bearer_prefix :: ustr where
  "bearer_prefix = lit ''Bearer ''"

definition parse_bearer :: "ustr option \<Rightarrow> ustr res" where
  "parse_bearer authorization =
     (if \<not> truthy_str authorization \<or> \<not> starts_with (the authorization) bearer_prefix
      then Inl (HTTPException 401)
      else Inr (py_strip (drop (length bearer_prefix) (the authorization))))"

definition plan_of :: "ustr \<Rightarrow> plan_tier option" where
  "plan_of s = map_of [(lit ''starter'', Starter), (lit ''professional'', Professional),
     (lit ''enterprise'', Enterprise), (lit ''sovereign'', Sovereign)] s"

definition authenticate ::
    "(ustr \<Rightarrow> ustr) \<Rightarrow> (nat \<Rightarrow> bool) \<Rightarrow> ustr option \<Rightarrow> customer_directory \<Rightarrow> context_var \<Rightarrow>
      (customer_record \<times> context_var) res" where
  "authenticate lower isalpha authorization dir v =
     bindE (parse_bearer authorization) (\<lambda>api_key.
       case lookup_key api_key dir of None \<Rightarrow> Inl (HTTPException 401)
       | Some rec \<Rightarrow>
           (case plan_of (lower (cr_plan rec)) of None \<Rightarrow> Inl (HTTPException 500)
            | Some plan \<Rightarrow>
                bindE (mk_customer_context isalpha (cr_customer_id rec) (cr_country_code rec) plan) (\<lambda>ctx.
                  Inr (rec, snd (bind_customer ctx v)))))"

section \<open>Lemmas\<close>

lemma lookup_after_registrations:
  "lookup_key k (fold (\<lambda>(k, r). register k r) regs dir) =
     (case find (\<lambda>(k', r). k' = k) (rev regs) of Some (k', r) \<Rightarrow> Some r | None \<Rightarrow> lookup_key k dir)"
proof (induction regs rule: rev_induct)
  case (snoc x regs)
  then show ?case by (cases x) (auto simp: lookup_key_def register_def)
qed simp

lemma lookup_empty: "lookup_key k [] = None"
  by (simp add: lookup_key_def)

lemma authenticate_Inr:
  "authenticate lower isalpha authorization dir v = Inr (rec, v') \<longleftrightarrow>
     (\<exists>key plan ctx. parse_bearer authorization = Inr key \<and> lookup_key key dir = Some rec \<and>
        plan_of (lower (cr_plan rec)) = Some plan \<and>
        mk_customer_context isalpha (cr_customer_id rec) (cr_country_code rec) plan = Inr ctx \<and>
        v' = snd (bind_customer ctx v))"
proof (cases "parse_bearer authorization")
  case (Inr key)
  then show ?thesis
    by (cases "lookup_key key dir"; cases "plan_of (lower (cr_plan (the (lookup_key key dir))))")
      (auto simp: authenticate_def bindE_eq_Inr)
qed (simp add: authenticate_def)

lemma plan_of_names:
  "plan_of s = Some p \<Longrightarrow> s \<in> {lit ''starter'', lit ''professional'', lit ''enterprise'', lit ''sovereign''}"
  by (auto simp: plan_of_def split: if_splits)

lemma dropWhile_ws: "s = [] \<or> \<not> is_ws (hd s) \<Longrightarrow> dropWhile is_ws s = s"
  by (cases s) auto

lemma py_strip_trimmed:
  assumes "k \<noteq> []" "\<not> is_ws (hd k)" "\<not> is_ws (last k)"
  shows "py_strip k = k"
  using assms by (simp add: py_strip_def dropWhile_ws hd_rev)

section \<open>Properties\<close>

text \<open>
  A request runs as a customer only with the key of that customer: when authentication
  succeeds, the header carried a key whose last registration is the returned record, and the
  customer bound to the context is that record's, in a valid context.
\<close>

theorem authenticated_as_registered:
  assumes "dir = fold (\<lambda>(k, r). register k r) regs []"
    and "authenticate lower isalpha authorization dir v = Inr (rec, v')"
  shows "\<exists>k ctx. authorization = Some (bearer_prefix @ k) \<and>
    (\<exists>k'. find (\<lambda>(k', r). k' = py_strip k) (rev regs) = Some (k', rec)) \<and>
    require_current v' = Inr ctx \<and> cc_customer_id ctx = cr_customer_id rec \<and> cc_customer_id ctx \<noteq> [] \<and>
    cc_country_code ctx = cr_country_code rec \<and> length (cc_country_code ctx) = 2"
proof -
  obtain key plan ctx where key: "parse_bearer authorization = Inr key" "lookup_key key dir = Some rec"
    and ctx: "mk_customer_context isalpha (cr_customer_id rec) (cr_country_code rec) plan = Inr ctx"
      "v' = snd (bind_customer ctx v)"
    using assms(2) unfolding authenticate_Inr by blast
  from key(1) obtain k where k: "authorization = Some (bearer_prefix @ k)" "key = py_strip k"
    by (auto simp: parse_bearer_def truthy_str_def prefix_def split: if_splits)
  have "\<exists>k'. find (\<lambda>(k', r). k' = py_strip k) (rev regs) = Some (k', rec)"
    using key(2) k(2) by (auto simp: assms(1) lookup_after_registrations lookup_empty split: option.splits)
  with k(1) ctx show ?thesis
    by (auto simp: mk_customer_context_Inr bind_customer_def require_current_def)
qed

text \<open>
  A registered key works: the record registered last under a key without surrounding white
  space, with a valid customer, country and plan, is returned for the header that carries it; a
  missing or unknown key is an HTTP 401.
\<close>

theorem registered_key_accepted:
  assumes "k \<noteq> []" and "\<not> is_ws (hd k)" and "\<not> is_ws (last k)"
    and "plan_of (lower (cr_plan rec)) = Some plan"
    and "mk_customer_context isalpha (cr_customer_id rec) (cr_country_code rec) plan = Inr ctx"
  shows "authenticate lower isalpha (Some (bearer_prefix @ k)) (register k rec dir) v =
      Inr (rec, snd (bind_customer ctx v)) \<and>
    authenticate lower isalpha None (register k rec dir) v = Inl (HTTPException 401) \<and>
    (lookup_key k dir = None \<longrightarrow>
      authenticate lower isalpha (Some (bearer_prefix @ k)) dir v = Inl (HTTPException 401))"
proof -
  have "parse_bearer (Some (bearer_prefix @ k)) = Inr k"
    by (simp add: parse_bearer_def truthy_str_def py_strip_trimmed assms(1-3))
  then show ?thesis
    using assms(4,5) by (simp add: authenticate_def lookup_key_def register_def parse_bearer_def truthy_str_def)
qed

section \<open>Witnesses\<close>

definition sample_record :: customer_record where
  "sample_record = \<lparr>cr_customer_id = lit ''acme'', cr_country_code = lit ''DZ'', cr_plan = lit ''starter'',
     cr_upstream_provider_key = lit ''up''\<rparr>"

definition acme_context :: customer_context where
  "acme_context = \<lparr>cc_customer_id = lit ''acme'', cc_country_code = lit ''DZ'', cc_plan = Starter\<rparr>"

lemma registered_key_accepted_witness:
  "authenticate id (\<lambda>_. True) (Some (lit ''Bearer sk-1'')) [(lit ''sk-1'', sample_record)] init_context_var =
    Inr (sample_record, snd (bind_customer acme_context init_context_var))"
  using registered_key_accepted [of "lit ''sk-1''" id sample_record Starter "\<lambda>_. True" acme_context "[]" init_context_var]
  by (simp add: is_ws_ascii plan_of_def sample_record_def mk_customer_context_def acme_context_def register_def bearer_prefix_def)

lemma authenticated_as_registered_witness:
  "\<exists>v' ctx. authenticate id (\<lambda>_. True) (Some (lit ''Bearer sk-1'')) [(lit ''sk-1'', sample_record)] init_context_var =
      Inr (sample_record, v') \<and> require_current v' = Inr ctx \<and> cc_customer_id ctx = lit ''acme''"
proof -
  have key: "parse_bearer (Some (lit ''Bearer sk-1'')) = Inr (lit ''sk-1'')"
    using py_strip_trimmed [of "lit ''sk-1''"]
    by (simp add: parse_bearer_def truthy_str_def bearer_prefix_def is_ws_ascii)
  have "authenticate id (\<lambda>_. True) (Some (lit ''Bearer sk-1'')) [(lit ''sk-1'', sample_record)] init_context_var =
      Inr (sample_record, snd (bind_customer acme_context init_context_var))"
    unfolding authenticate_def key
    by (simp add: lookup_key_def plan_of_def sample_record_def mk_customer_context_def acme_context_def)
  from authenticated_as_registered [OF _ this, of "[(lit ''sk-1'', sample_record)]"] this
  show ?thesis by (auto simp: register_def sample_record_def)
qed

end
