(* ===== verification/Pipeline.thy ===== *)
theory Pipeline
  imports Substitution AuditLog Retrieval Algeria Ner ProxyAuth
begin

text \<open>
  \<open>src/proxy/pipeline.py\<close>, \<open>upstream.py\<close>, \<open>schemas.py\<close> and \<open>routes.py\<close>: the request handler, from the
  authenticated request to the answer. A \<open>pipeline\<close> holds what the application wires together at
  start-up, a \<open>gateway\<close> the state that requests share, \<open>request_draws\<close> what a request draws from the
  clock and the random generators. The handler returns the answer or the exception, the new
  state, and the bodies it sent to the upstream provider.
\<close>

section \<open>Messages and responses\<close>

fun message_parts :: "json list \<Rightarrow> ustr list res" where
  "message_parts [] = Inr []"
| "message_parts (m # ms) =
     bindE (get_default m (lit ''content'') JNull) (\<lambda>content.
     bindE (message_parts ms) (\<lambda>parts.
       Inr (case content of JStr s \<Rightarrow> s # parts | _ \<Rightarrow> parts)))"

definition flatten_messages :: "json list \<Rightarrow> ustr res" where
  "flatten_messages messages = bindE (message_parts messages) (\<lambda>parts. Inr (join [10] parts))"

definition user_message :: "ustr \<Rightarrow> json" where
  "user_message content = JObj [(lit ''role'', JStr (lit ''user'')), (lit ''content'', JStr content)]"

definition replace_messages :: "(ustr, json) dict \<Rightarrow> ustr \<Rightarrow> (ustr, json) dict" where
  "replace_messages body sanitised = dict_set (lit ''messages'') (JList [user_message sanitised]) body"

definition extract_response_text :: "runtime \<Rightarrow> json \<Rightarrow> ustr" where
  "extract_response_text rt response =
     (case answer_content response of
        Inl e \<Rightarrow> []
      | Inr content \<Rightarrow> if truthy content then py_str rt content else [])"

definition replace_response_text :: "runtime \<Rightarrow> json \<Rightarrow> ustr \<Rightarrow> json res" where
  "replace_response_text rt response new_text =
     bindE (py_dict rt response) (\<lambda>cloned.
     bindE (case map_of cloned (lit ''choices'') of None \<Rightarrow> Inr []
            | Some v \<Rightarrow> if truthy v then py_iter v else Inr []) (\<lambda>choices.
       case choices of [] \<Rightarrow> Inr (JObj cloned)
       | c # rest \<Rightarrow>
           bindE (py_dict rt c) (\<lambda>first.
           bindE (case map_of first (lit ''message'') of None \<Rightarrow> Inr []
                  | Some v \<Rightarrow> if truthy v then py_dict rt v else Inr []) (\<lambda>message.
             let message' = dict_set (lit ''content'') (JStr new_text) message;
                 first' = dict_set (lit ''message'') (JObj message') first
             in Inr (JObj (dict_set (lit ''choices'') (JList (JObj first' # rest)) cloned))))))"

section \<open>The upstream forwarder\<close>

text \<open>The HTTP client: the status and the parsed body of a \<open>POST\<close> with the given headers.\<close>

type_synonym http_post = "ustr \<Rightarrow> (ustr, ustr) dict \<Rightarrow> json \<Rightarrow> http_response res"

definition rstrip_slash :: "ustr \<Rightarrow> ustr" where
  "rstrip_slash s = rev (dropWhile (\<lambda>c. c = 47) (rev s))"

definition upstream_chat :: "http_post \<Rightarrow> ustr \<Rightarrow> json \<Rightarrow> ustr \<Rightarrow> json res" where
  "upstream_chat post base_url body api_key =
     bindE (post (rstrip_slash base_url @ lit ''/chat/completions'')
        [(lit ''Authorization'', lit ''Bearer '' @ api_key), (lit ''Content-Type'', lit ''application/json'')] body)
       response_json"

section \<open>The pipeline\<close>

datatype failure_mode = Strict | Audit_only | Fallback

record pipeline =
  pl_aead :: aead
  pl_packs :: packs
  pl_writer :: audit_writer
  pl_float_repr :: "pyfloat \<Rightarrow> ustr"
  pl_runtime :: runtime
  pl_merge :: merge_config
  pl_failure_mode :: failure_mode
  pl_lower :: "ustr \<Rightarrow> ustr"
  pl_is_word :: "nat \<Rightarrow> bool"
  pl_top_k :: int
  pl_log :: "ustr \<Rightarrow> py_error \<Rightarrow> unit res"
  pl_structural :: "scope \<Rightarrow> ustr \<Rightarrow> detection list res"
  pl_ner :: "scope \<Rightarrow> ustr \<Rightarrow> detection list res"
  pl_contextual :: "rule_snippet list option \<Rightarrow> scope \<Rightarrow> ustr \<Rightarrow> detection list res"
  pl_upstream :: "json \<Rightarrow> ustr \<Rightarrow> json res"

text \<open>
  The state that requests share; the state of the audit backend is a parameter, and a \<open>gateway\<close> without
  further mention is one with the in-memory log.
\<close>

record 'b gateway_on =
  gw_store :: session_store
  gw_audit :: 'b
  gw_rules :: rule_store
  gw_exceptions :: rule_exception_store

type_synonym gateway = "audit_log gateway_on"

record request_draws =
  rq_uuid_hex :: ustr
  rq_salt :: ustr
  rq_opened_at :: rat
  rq_draws :: draws
  rq_clock :: "nat \<Rightarrow> rat"
  rq_audit :: audit_draws
  rq_latency_ms :: int

definition invoke_contextual :: "pipeline \<Rightarrow> scope \<Rightarrow> ustr \<Rightarrow> rule_snippet list \<Rightarrow> detection list res" where
  [simp]: "invoke_contextual P cur text rules = pl_contextual P (Some rules) cur text"

text \<open>The results of \<open>asyncio.gather(..., return_exceptions=True)\<close> in the order of the tasks.\<close>

definition detector_results :: "pipeline \<Rightarrow> scope \<Rightarrow> ustr \<Rightarrow> rule_snippet list \<Rightarrow> detection list res list" where
  "detector_results P cur text rules =
     [pl_structural P cur text, pl_ner P cur text, invoke_contextual P cur text rules]"

text \<open>\<open>log.warning\<close> is the pipeline's \<open>pl_log\<close>: what it raises leaves the loop.\<close>

fun collect_detections ::
    "(ustr \<Rightarrow> py_error \<Rightarrow> unit res) \<Rightarrow> failure_mode \<Rightarrow> detection list res list \<Rightarrow> detection list res" where
  "collect_detections log_warn mode [] = Inr []"
| "collect_detections log_warn mode (Inl e # rs) =
     (if mode = Strict then Inl e
      else bindE (log_warn (lit ''detector_failed'') e) (\<lambda>_. collect_detections log_warn mode rs))"
| "collect_detections log_warn mode (Inr ds # rs) =
     bindE (collect_detections log_warn mode rs) (\<lambda>rest. Inr (ds @ rest))"

definition active_exceptions :: "scope \<Rightarrow> rule_exception_store \<Rightarrow> exception_entry list res" where
  "active_exceptions cur xs = (case list_active cur xs of Inl AttributeError \<Rightarrow> Inr [] | r \<Rightarrow> r)"

definition post_response_entities :: "pipeline \<Rightarrow> scope \<Rightarrow> ustr \<Rightarrow> ustr list res" where
  "post_response_entities P cur text =
     bindE (require_customer cur) (\<lambda>_.
       case pl_ner P cur text of
         Inl e \<Rightarrow> bindE (pl_log P (lit ''post_ner_failed'') e) (\<lambda>_. Inr [])
       | Inr ds \<Rightarrow> Inr (map d_text ds))"

definition audit_payload :: "merge_result \<Rightarrow> nat \<Rightarrow> reverse_result \<Rightarrow> int \<Rightarrow> json" where
  "audit_payload m found rr latency_ms =
     JObj [(lit ''detection_total'', JInt (int found)), (lit ''accepted'', JInt (int (length (accepted m)))),
       (lit ''below_threshold'', JInt (int (length (below_threshold m)))),
       (lit ''exception_suppressed'', JInt (int (length (exception_suppressed m)))),
       (lit ''span_invalid'', JInt (int (length (span_invalid m)))),
       (lit ''novel_in_response'', JInt (int (length (rr_novel_entities rr)))),
       (lit ''latency_ms'', JInt latency_ms)]"

text \<open>
  The body of the \<open>try\<close>: the request's session map is passed through. \<open>latest\<close> and \<open>put\<close> are the
  operations of the audit backend.
\<close>

definition exchange_on ::
    "('b \<Rightarrow> (ustr \<times> 'b) res) \<Rightarrow> (audit_record \<Rightarrow> 'b \<Rightarrow> 'b res) \<Rightarrow> pipeline \<Rightarrow> request_draws \<Rightarrow> customer_context \<Rightarrow> ustr \<Rightarrow> (ustr, json) dict \<Rightarrow> ustr \<Rightarrow> ustr \<Rightarrow> merge_result \<Rightarrow> nat \<Rightarrow>
      session_map \<Rightarrow> 'b \<Rightarrow> json res \<times> session_map \<times> 'b \<times> json list" where
  "exchange_on latest put P q ctx rid body api_key original_text m found sm recs =
     (case apply_substitution (pl_aead P) (pl_packs P) (rq_draws q) original_text (accepted m) sm
             (cc_country_code ctx) (rq_salt q) of
        (Inl e, sm1) \<Rightarrow> (Inl e, sm1, recs, [])
      | (Inr forward, sm1) \<Rightarrow>
          let sanitised = JObj (replace_messages body (fr_sanitised_text forward))
          in case pl_upstream P sanitised api_key of
               Inl e \<Rightarrow> (Inl e, sm1, recs, [sanitised])
             | Inr response \<Rightarrow>
                 let response_text = extract_response_text (pl_runtime P) response
                 in case post_response_entities P (Some ctx) response_text of
                      Inl e \<Rightarrow> (Inl e, sm1, recs, [sanitised])
                    | Inr entities \<Rightarrow>
                        (case reverse_substitution (pl_aead P) (rq_clock q) response_text sm1
                                (fr_components_by_synthetic forward) entities of
                           (Inl e, sm2) \<Rightarrow> (Inl e, sm2, recs, [sanitised])
                         | (Inr rr, sm2) \<Rightarrow>
                             (case replace_response_text (pl_runtime P) response (rr_text rr) of
                                Inl e \<Rightarrow> (Inl e, sm2, recs, [sanitised])
                              | Inr final_response \<Rightarrow>
                                  (case writer_record latest put (pl_aead P) (pl_float_repr P)
                                          (pl_writer P) (Some ctx) (rq_audit q) rid (lit ''request'')
                                          (audit_payload m found rr (rq_latency_ms q)) recs of
                                     Inl e \<Rightarrow> (Inl e, sm2, failed_record latest (pl_aead P) (pl_float_repr P)
                                         (pl_writer P) (Some ctx) (rq_audit q) rid (lit ''request'')
                                         (audit_payload m found rr (rq_latency_ms q)) recs, [sanitised])
                                   | Inr (rec, recs') \<Rightarrow> (Inr final_response, sm2, recs', [sanitised])))))"

abbreviation exchange ::
    "pipeline \<Rightarrow> request_draws \<Rightarrow> customer_context \<Rightarrow> ustr \<Rightarrow> (ustr, json) dict \<Rightarrow> ustr \<Rightarrow> ustr \<Rightarrow> merge_result \<Rightarrow> nat \<Rightarrow>
      session_map \<Rightarrow> audit_log \<Rightarrow> json res \<times> session_map \<times> audit_log \<times> json list" where
  "exchange \<equiv> exchange_on memory_latest_hash memory_append"

definition request_text :: "(ustr, json) dict \<Rightarrow> ustr res" where
  "request_text body =
     bindE (case map_of body (lit ''messages'') of None \<Rightarrow> Inr []
            | Some v \<Rightarrow> if truthy v then py_iter v else Inr []) flatten_messages"

text \<open>What happens before the session is opened: the detections and the merge.\<close>

definition analyse ::
    "pipeline \<Rightarrow> scope \<Rightarrow> (ustr, json) dict \<Rightarrow> 'b gateway_on \<Rightarrow> (ustr \<times> nat \<times> merge_result) res" where
  "analyse P cur body gw =
     bindE (request_text body) (\<lambda>original_text.
     bindE (retrieve list_for_customer (pl_lower P) (pl_is_word P) (pl_top_k P) cur original_text None (gw_rules gw)) (\<lambda>rules.
     bindE (collect_detections (pl_log P) (pl_failure_mode P) (detector_results P cur original_text rules)) (\<lambda>all_detections.
     bindE (active_exceptions cur (gw_exceptions gw)) (\<lambda>exceptions.
     bindE (merge (pl_merge P) original_text all_detections exceptions) (\<lambda>m.
       Inr (original_text, length all_detections, m))))))"

definition request_id :: "request_draws \<Rightarrow> ustr" where
  "request_id q = lit ''chatcmpl-'' @ rq_uuid_hex q"

definition handle_chat_on ::
    "('b \<Rightarrow> (ustr \<times> 'b) res) \<Rightarrow> (audit_record \<Rightarrow> 'b \<Rightarrow> 'b res) \<Rightarrow> pipeline \<Rightarrow> request_draws \<Rightarrow> scope \<Rightarrow> (ustr, json) dict \<Rightarrow> ustr \<Rightarrow> 'b gateway_on \<Rightarrow>
      json res \<times> 'b gateway_on \<times> json list" where
  "handle_chat_on latest put P q cur body api_key gw =
     (case require_customer cur of
        Inl e \<Rightarrow> (Inl e, gw, [])
      | Inr ctx \<Rightarrow>
          (case analyse P cur body gw of
             Inl e \<Rightarrow> (Inl e, gw, [])
           | Inr (original_text, found, m) \<Rightarrow>
               (case store_open cur (rq_opened_at q) (request_id q) (gw_store gw) of
                  Inl e \<Rightarrow> (Inl e, gw, [])
                | Inr (r, store) \<Rightarrow>
                    (case exchange_on latest put P q ctx (request_id q) body api_key original_text m found
                            (ss_heap store ! r) (gw_audit gw) of
                       (result, sm, recs, sent) \<Rightarrow>
                         (result,
                          gw\<lparr>gw_store := store_close (request_id q) (store\<lparr>ss_heap := (ss_heap store)[r := sm]\<rparr>),
                             gw_audit := recs\<rparr>,
                          sent)))))"

abbreviation handle_chat ::
    "pipeline \<Rightarrow> request_draws \<Rightarrow> scope \<Rightarrow> (ustr, json) dict \<Rightarrow> ustr \<Rightarrow> gateway \<Rightarrow> json res \<times> gateway \<times> json list" where
  "handle_chat \<equiv> handle_chat_on memory_latest_hash memory_append"

end
