(* ===== verification/PipelineProps.thy ===== *)
theory PipelineProps
  imports Pipeline
begin

text \<open>
  What the request handler guarantees: what the upstream provider sees, when nothing is sent,
  what remains of the session, what is audited, what the caller gets back, and which other
  customers can influence it.
\<close>

section \<open>The exchange\<close>

text \<open>The stages of an exchange that sent a body, and those of one that succeeded.\<close>

lemma exchange_sent:
  assumes "exchange P q ctx rid body key tx m n sm recs = (res, sm', recs', sent)"
  shows "(sent = [] \<and> recs' = recs \<and> (\<exists>e. res = Inl e \<and>
      apply_substitution (pl_aead P) (pl_packs P) (rq_draws q) tx (accepted m) sm (cc_country_code ctx) (rq_salt q) = (Inl e, sm'))) \<or>
    (\<exists>fr sm1. apply_substitution (pl_aead P) (pl_packs P) (rq_draws q) tx (accepted m) sm (cc_country_code ctx) (rq_salt q) = (Inr fr, sm1) \<and>
      sent = [JObj (replace_messages body (fr_sanitised_text fr))])"
  using assms unfolding exchange_on_def
  by (auto split: prod.splits sum.splits simp: Let_def)

lemma exchange_ok:
  assumes "exchange P q ctx rid body key tx m n sm recs = (Inr final, sm', recs', sent)"
  shows "\<exists>fr sm1 resp rr rec. apply_substitution (pl_aead P) (pl_packs P) (rq_draws q) tx (accepted m) sm
        (cc_country_code ctx) (rq_salt q) = (Inr fr, sm1) \<and>
      pl_upstream P (JObj (replace_messages body (fr_sanitised_text fr))) key = Inr resp \<and>
      (\<exists>ents. reverse_substitution (pl_aead P) (rq_clock q) (extract_response_text (pl_runtime P) resp) sm1
        (fr_components_by_synthetic fr) ents = (Inr rr, sm')) \<and>
      replace_response_text (pl_runtime P) resp (rr_text rr) = Inr final \<and>
      writer_record memory_latest_hash memory_append (pl_aead P) (pl_float_repr P) (pl_writer P) (Some ctx) (rq_audit q)
        rid (lit ''request'') (audit_payload m n rr (rq_latency_ms q)) recs = Inr (rec, recs')"
  using assms unfolding exchange_on_def
  by (auto split: prod.splits sum.splits simp: Let_def)

lemma exchange_failed:
  assumes "exchange P q ctx rid body key tx m n sm recs = (Inl e, sm', recs', sent)"
  shows "recs' = recs"
  using assms unfolding exchange_on_def
  by (auto split: prod.splits sum.splits simp: Let_def)

section \<open>The handler\<close>

lemma handle_chat_cases:
  assumes "handle_chat P q cur body key gw = (res, gw', sent)"
  obtains (early) e where "res = Inl e" "gw' = gw" "sent = []"
  | (ran) ctx tx n m r store sm recs where "cur = Some ctx" "analyse P (Some ctx) body gw = Inr (tx, n, m)"
      "store_open (Some ctx) (rq_opened_at q) (request_id q) (gw_store gw) = Inr (r, store)"
      "exchange P q ctx (request_id q) body key tx m n (ss_heap store ! r) (gw_audit gw) = (res, sm, recs, sent)"
      "gw' = gw\<lparr>gw_store := store_close (request_id q) (store\<lparr>ss_heap := (ss_heap store)[r := sm]\<rparr>), gw_audit := recs\<rparr>"
proof (cases cur)
  case None
  then show ?thesis using assms by (intro early [of MissingTenantScopeError]) (simp_all add: handle_chat_on_def)
next
  case ctx: (Some ctx)
  show ?thesis
  proof (cases "analyse P (Some ctx) body gw")
    case (Inl e)
    then show ?thesis using assms ctx by (intro early [of e]) (simp_all add: handle_chat_on_def)
  next
    case (Inr a)
    obtain tx n m where a: "a = (tx, n, m)" by (cases a)
    show ?thesis
    proof (cases "store_open (Some ctx) (rq_opened_at q) (request_id q) (gw_store gw)")
      case (Inl e)
      then show ?thesis using assms ctx Inr a by (intro early [of e]) (simp_all add: handle_chat_on_def)
    next
      case opened: (Inr b)
      obtain r store where b: "b = (r, store)" by (cases b)
      obtain res' sm recs sent' where ex: "exchange P q ctx (request_id q) body key tx m n (ss_heap store ! r)
          (gw_audit gw) = (res', sm, recs, sent')" by (rule prod_cases4)
      have "res = res'" "sent = sent'"
        "gw' = gw\<lparr>gw_store := store_close (request_id q) (store\<lparr>ss_heap := (ss_heap store)[r := sm]\<rparr>), gw_audit := recs\<rparr>"
        using assms Inr opened ex by (simp_all add: handle_chat_on_def ctx a b)
      then show ?thesis using ran [OF ctx, of tx n m r store sm recs] Inr opened ex a b by simp
    qed
  qed
qed

lemma store_open_Inr:
  "store_open (Some ctx) t rid st = Inr (r, store) \<longleftrightarrow> length (ss_key st) = 32 \<and> r = length (ss_heap st) \<and>
     (\<exists>sm. new_session_map (Some ctx) t (ss_key st) (cc_customer_id ctx) rid = Inr sm \<and>
       store = st\<lparr>ss_maps := dict_set rid r (ss_maps st), ss_heap := ss_heap st @ [sm]\<rparr>)"
  by (auto simp: store_open_def bindE_eq_Inr new_session_map_def Let_def)

lemma dict_pop_fresh: "k \<notin> fst ` set d \<Longrightarrow> dict_pop k (dict_set k v d) = d"
  by (induction d) (auto simp: AList.delete_eq intro!: filter_True)

text \<open>Closing what the handler opened leaves one more purged map in the heap, and the registry as it was.\<close>

lemma close_opened:
  assumes "store_open (Some ctx) t rid st = Inr (r, store)" and "rid \<notin> fst ` set (ss_maps st)"
  shows "store_close rid (store\<lparr>ss_heap := (ss_heap store)[r := sm]\<rparr>) = st\<lparr>ss_heap := ss_heap st @ [sm_purge sm]\<rparr>"
  using assms by (auto simp: store_open_Inr store_close_def store_purge_def dict_pop_fresh)

lemma analyse_merge:
  assumes "analyse P cur body gw = Inr (tx, n, m)"
  shows "\<exists>ds xs. merge (pl_merge P) tx ds xs = Inr m"
  using assms by (auto simp: analyse_def bindE_eq_Inr)

lemma merged_apply:
  assumes "merge cfg tx ds xs = Inr m"
    and "apply_substitution A packs g tx (accepted m) sm cc salt = (Inr fr, sm')"
  shows "\<exists>syns. synthetic_values packs g cc salt (accepted m) syns \<and> fr_sanitised_text fr = weave tx 0 (zip (accepted m) syns) \<and>
    tx = weave tx 0 (zip (accepted m) (map d_text (accepted m)))"
proof -
  have m: "merge_accepted cfg xs tx ds = Inr (accepted m)"
    using assms(1) by (simp add: merge_accepted_def)
  have "tx = weave tx 0 (zip (accepted m) (map d_text (accepted m)))"
    using weave_originals [OF merge_resolver.resolved_spans [OF m]] by (simp add: slice_from_in_bounds)
  with merge_resolver.resolved_weave [OF m assms(2)] show ?thesis by blast
qed

text \<open>What a request sends, and what it adds to the audit log.\<close>

lemma handle_chat_sent:
  assumes "handle_chat P q (Some ctx) body key gw = (res, gw', sent)" and "b \<in> set sent"
  shows "sent = [b] \<and> (\<exists>tx n m syns b'. analyse P (Some ctx) body gw = Inr (tx, n, m) \<and>
    synthetic_values (pl_packs P) (rq_draws q) (cc_country_code ctx) (rq_salt q) (accepted m) syns \<and> tx = weave tx 0 (zip (accepted m) (map d_text (accepted m))) \<and>
    b = JObj b' \<and> map_of b' (lit ''messages'') = Some (JList [user_message (weave tx 0 (zip (accepted m) syns))]) \<and>
    (\<forall>k. k \<noteq> lit ''messages'' \<longrightarrow> map_of b' k = map_of body k))"
  using assms(1)
proof (cases rule: handle_chat_cases)
  case (early e)
  with assms(2) show ?thesis by simp
next
  case (ran ctx' tx n m r store sm recs)
  then have ctx: "ctx' = ctx" by simp
  from exchange_sent [OF ran(4)] assms(2) obtain fr sm1 where
    fr: "apply_substitution (pl_aead P) (pl_packs P) (rq_draws q) tx (accepted m) (ss_heap store ! r)
        (cc_country_code ctx') (rq_salt q) = (Inr fr, sm1)"
      "sent = [JObj (replace_messages body (fr_sanitised_text fr))]" by auto
  obtain ds xs where "merge (pl_merge P) tx ds xs = Inr m" using analyse_merge [OF ran(2)] by blast
  from merged_apply [OF this fr(1)] show ?thesis
    using ran(2) fr(2) assms(2) ctx by (auto simp: replace_messages_def)
qed

lemma handle_chat_audited:
  assumes "handle_chat P q (Some ctx) body key gw = (res, gw', sent)"
    and "verify_chain (pl_float_repr P) (pl_writer P) (gw_audit gw) = Inr ()"
  shows "(case res of
      Inl e \<Rightarrow> gw_audit gw' = gw_audit gw
    | Inr final \<Rightarrow> (\<exists>rec. gw_audit gw' = gw_audit gw @ [rec] \<and> ar_request_id rec = request_id q \<and>
        ar_customer_id rec = cc_customer_id ctx)) \<and>
    verify_chain (pl_float_repr P) (pl_writer P) (gw_audit gw') = Inr ()"
  using assms(1)
proof (cases rule: handle_chat_cases)
  case (early e)
  with assms(2) show ?thesis by simp
next
  case (ran ctx' tx n m r store sm recs)
  show ?thesis
  proof (cases res)
    case (Inl e)
    with exchange_failed [OF ran(4) [unfolded Inl]] ran(5) assms(2) show ?thesis by simp
  next
    case (Inr final)
    from exchange_ok [OF ran(4) [unfolded Inr]] obtain rr rec where
      w: "writer_record memory_latest_hash memory_append (pl_aead P) (pl_float_repr P) (pl_writer P) (Some ctx') (rq_audit q)
        (request_id q) (lit ''request'') (audit_payload m n rr (rq_latency_ms q)) (gw_audit gw) = Inr (rec, recs)"
      by blast
    have "ar_request_id rec = request_id q" "ar_customer_id rec = cc_customer_id ctx'"
      using w by (auto simp: writer_record_def prepare_record_def seal_record_def bindE_eq_Inr Let_def)
    with memory_backend.record_extends [OF TrueI w] ran(1,5) assms(2) Inr show ?thesis
      by (auto simp: verify_chain_def verify_from_iff memory_all_def)
  qed
qed

section \<open>Properties\<close>

text \<open>
  C1. What the upstream provider sees: at most one body per request, and it is the caller's body
  with the messages replaced by one user message, the joined texts with the generator's
  synthetic value in place of every accepted span; every other field of the body is passed on as the caller sent it.
\<close>

theorem upstream_sees_sanitised:
  assumes "handle_chat P q (Some ctx) body key gw = (res, gw', sent)" and "b \<in> set sent"
  shows "sent = [b] \<and> (\<exists>tx n m syns b'. analyse P (Some ctx) body gw = Inr (tx, n, m) \<and>
    synthetic_values (pl_packs P) (rq_draws q) (cc_country_code ctx) (rq_salt q) (accepted m) syns \<and> tx = weave tx 0 (zip (accepted m) (map d_text (accepted m))) \<and>
    b = JObj b' \<and> map_of b' (lit ''messages'') = Some (JList [user_message (weave tx 0 (zip (accepted m) syns))]) \<and>
    (\<forall>k. k \<noteq> lit ''messages'' \<longrightarrow> map_of b' k = map_of body k))"
  using assms by (rule handle_chat_sent)

text \<open>
  C7. The session is purged on every outcome: with a fresh request id, an answered request and a
  failed one both leave the registry and all other maps as they were; the request's own map, if
  one was opened, is purged and empty.
\<close>

theorem session_purged_on_every_outcome:
  assumes "handle_chat P q cur body key gw = (res, gw', sent)"
    and "request_id q \<notin> fst ` set (ss_maps (gw_store gw))"
  shows "gw_store gw' = gw_store gw \<and> sent = [] \<and> \<not> isOk res \<or>
    (\<exists>sm. gw_store gw' = (gw_store gw)\<lparr>ss_heap := ss_heap (gw_store gw) @ [sm]\<rparr> \<and> sm_purged sm \<and> sm_encrypted sm = [] \<and>
      sm_len sm = 0 \<and> fst (sm_reverse A t s sm) = Inl SessionPurgedError)"
  using assms(1)
proof (cases rule: handle_chat_cases)
  case (ran ctx tx n m r store sm recs)
  have "gw_store gw' = (gw_store gw)\<lparr>ss_heap := ss_heap (gw_store gw) @ [sm_purge sm]\<rparr>"
    using close_opened [OF ran(3) assms(2)] ran(5) by simp
  moreover have "fst (sm_reverse A t s (sm_purge sm)) = Inl SessionPurgedError"
    by (rule session_store.purge_reverse)
  ultimately show ?thesis by (auto simp: sm_len_def)
qed simp

text \<open>
  C10. Audit follows success: an answered request appends exactly one record, of its own customer
  and request, and a chain that verified still verifies; a request that fails, also after its text
  was sent upstream, leaves no record.
\<close>

theorem audited_exactly_on_success:
  assumes "handle_chat P q (Some ctx) body key gw = (res, gw', sent)"
    and "verify_chain (pl_float_repr P) (pl_writer P) (gw_audit gw) = Inr ()"
  shows "(case res of
      Inl e \<Rightarrow> gw_audit gw' = gw_audit gw
    | Inr final \<Rightarrow> (\<exists>rec. gw_audit gw' = gw_audit gw @ [rec] \<and> ar_request_id rec = request_id q \<and>
        ar_customer_id rec = cc_customer_id ctx)) \<and>
    verify_chain (pl_float_repr P) (pl_writer P) (gw_audit gw') = Inr ()"
  using assms by (rule handle_chat_audited)

section \<open>Failing detectors\<close>

lemma collect_strict:
  "collect_detections log_warn Strict rs =
     (case find (\<lambda>r. \<not> isOk r) rs of Some (Inl e) \<Rightarrow> Inl e | _ \<Rightarrow> Inr (concat (map projr rs)))"
proof (induction rs)
  case (Cons r rs)
  then show ?case by (cases r) (auto split: option.splits sum.splits dest!: find_SomeD)
qed simp

lemma collect_lenient:
  "mode \<noteq> Strict \<Longrightarrow> (\<And>e. Inl e \<in> set rs \<Longrightarrow> log_warn (lit ''detector_failed'') e = Inr ()) \<Longrightarrow>
    collect_detections log_warn mode rs = Inr (concat (map (case_sum (\<lambda>_. []) id) rs))"
proof (induction rs)
  case (Cons r rs)
  then show ?case by (cases r) auto
qed simp

text \<open>
  C19. Strict mode fails closed: when any detector raises, the caller gets the exception of the
  first of them in the order structural, NER, contextual; nothing is sent upstream, no session is
  opened and nothing is audited.
\<close>

theorem strict_fails_closed:
  assumes "pl_failure_mode P = Strict" and "request_text body = Inr tx"
    and "retrieve list_for_customer (pl_lower P) (pl_is_word P) (pl_top_k P) (Some ctx) tx None (gw_rules gw) = Inr rules"
    and "Inl e \<in> set (detector_results P (Some ctx) tx rules)"
  shows "\<exists>e'. handle_chat P q (Some ctx) body key gw = (Inl e', gw, []) \<and>
    find (\<lambda>r. \<not> isOk r) (detector_results P (Some ctx) tx rules) = Some (Inl e')"
proof -
  obtain r where r: "find (\<lambda>r. \<not> isOk r) (detector_results P (Some ctx) tx rules) = Some r"
    using assms(4) by (cases "find (\<lambda>r. \<not> isOk r) (detector_results P (Some ctx) tx rules)")
      (auto simp: find_None_iff)
  then obtain e' where "r = Inl e'" by (cases r) (auto dest: find_SomeD)
  with r have "analyse P (Some ctx) body gw = Inl e'"
    using assms(1-3) by (simp add: analyse_def collect_strict)
  then show ?thesis using r \<open>r = Inl e'\<close> by (simp add: handle_chat_on_def)
qed

lemma merge_nothing: "merge cfg tx [] xs = Inr \<lparr>accepted = [], below_threshold = [], exception_suppressed = [], span_invalid = []\<rparr>"
  by (simp add: merge_def resolve_overlaps_def clusters_def)

lemma apply_nothing:
  "apply_substitution A packs g tx [] sm cc salt =
     (Inr \<lparr>fr_sanitised_text = tx, fr_components_by_synthetic = [], fr_detection_count = 0\<rparr>, sm)"
  by (simp add: apply_substitution_def slice_from_in_bounds)

text \<open>
  The other two modes fail open, and alike: when all detectors raise, and the failures can be
  logged, the caller's text is sent upstream in clear.
\<close>

theorem lenient_forwards_in_clear:
  assumes "pl_failure_mode P = Audit_only \<or> pl_failure_mode P = Fallback" and "request_text body = Inr tx"
    and "retrieve list_for_customer (pl_lower P) (pl_is_word P) (pl_top_k P) (Some ctx) tx None (gw_rules gw) = Inr rules"
    and "\<forall>r \<in> set (detector_results P (Some ctx) tx rules). \<not> isOk r"
    and "length (ss_key (gw_store gw)) = 32" and "\<And>e. pl_log P (lit ''detector_failed'') e = Inr ()"
  shows "snd (snd (handle_chat P q (Some ctx) body key gw)) = [JObj (replace_messages body tx)]"
proof -
  have "collect_detections (pl_log P) (pl_failure_mode P) (detector_results P (Some ctx) tx rules) = Inr []"
    using assms(1,4,6) collect_lenient [of "pl_failure_mode P" "detector_results P (Some ctx) tx rules" "pl_log P"]
    by (auto simp: isOk_def split: sum.splits)
  moreover obtain xs where "active_exceptions (Some ctx) (gw_exceptions gw) = Inr xs"
    by (auto simp: active_exceptions_def list_active_def)
  ultimately have a: "analyse P (Some ctx) body gw = Inr (tx, 0,
      \<lparr>accepted = [], below_threshold = [], exception_suppressed = [], span_invalid = []\<rparr>)"
    using assms(2,3) by (simp add: analyse_def merge_nothing)
  obtain r store where o: "store_open (Some ctx) (rq_opened_at q) (request_id q) (gw_store gw) = Inr (r, store)"
    using assms(5) by (auto simp: store_open_def new_session_map_def Let_def)
  let ?m = "\<lparr>accepted = [], below_threshold = [], exception_suppressed = [], span_invalid = []\<rparr> :: merge_result"
  obtain res sm recs sent where x: "exchange P q ctx (request_id q) body key tx ?m 0 (ss_heap store ! r) (gw_audit gw) =
      (res, sm, recs, sent)" by (rule prod_cases4)
  from exchange_sent [OF x] have "sent = [JObj (replace_messages body tx)]" by (auto simp: apply_nothing)
  then show ?thesis by (simp add: handle_chat_on_def a o x)
qed

lemma collect_log_raises:
  assumes "mode \<noteq> Strict" "Inl e \<in> set rs" "\<And>e. log_warn (lit ''detector_failed'') e = Inl e'"
  shows "collect_detections log_warn mode rs = Inl e'"
  using assms(2)
proof (induction rs)
  case (Cons r rs)
  then show ?case by (cases r) (auto simp: assms(1) assms(3)[simplified])
qed simp

text \<open>
  The lenient modes lean on the log: when a detector raises and its failure cannot be logged, the
  caller gets what the logger raised, and the request ends like in strict mode.
\<close>

lemma lenient_needs_log:
  assumes "pl_failure_mode P \<noteq> Strict" and "request_text body = Inr tx"
    and "retrieve list_for_customer (pl_lower P) (pl_is_word P) (pl_top_k P) (Some ctx) tx None (gw_rules gw) = Inr rules"
    and "Inl e \<in> set (detector_results P (Some ctx) tx rules)" and "\<And>e. pl_log P (lit ''detector_failed'') e = Inl e'"
  shows "handle_chat P q (Some ctx) body key gw = (Inl e', gw, [])"
proof -
  have "collect_detections (pl_log P) (pl_failure_mode P) (detector_results P (Some ctx) tx rules) = Inl e'"
    by (rule collect_log_raises [OF assms(1,4)]) (rule assms(5))
  then have "analyse P (Some ctx) body gw = Inl e'" using assms(2,3) by (simp add: analyse_def)
  then show ?thesis by (simp add: handle_chat_on_def)
qed

text \<open>
  The same in the answer: when the NER raises on it and this cannot be logged, the request fails
  although the provider has answered.
\<close>

lemma answer_needs_log:
  assumes "pl_ner P (Some ctx) text = Inl e" "pl_log P (lit ''post_ner_failed'') e = Inl e'"
  shows "post_response_entities P (Some ctx) text = Inl e'"
  using assms by (simp add: post_response_entities_def)

section \<open>The answer\<close>

lemma handle_chat_ok:
  assumes "handle_chat P q (Some ctx) body key gw = (Inr final, gw', sent)"
  obtains tx n m fr sm0 sm1 sm2 resp rr ents where "analyse P (Some ctx) body gw = Inr (tx, n, m)"
    "apply_substitution (pl_aead P) (pl_packs P) (rq_draws q) tx (accepted m) sm0 (cc_country_code ctx) (rq_salt q) = (Inr fr, sm1)"
    "sent = [JObj (replace_messages body (fr_sanitised_text fr))]" "pl_upstream P (hd sent) key = Inr resp"
    "reverse_substitution (pl_aead P) (rq_clock q) (extract_response_text (pl_runtime P) resp) sm1
        (fr_components_by_synthetic fr) ents = (Inr rr, sm2)"
    "replace_response_text (pl_runtime P) resp (rr_text rr) = Inr final"
  using assms
proof (cases rule: handle_chat_cases)
  case (ran ctx' tx n m r store sm recs)
  from exchange_ok [OF ran(4)] exchange_sent [OF ran(4)] ran(1,2) that show ?thesis by fastforce
qed simp

text \<open>
  C2. The round trip of a request: when the provider answers with the text it was sent, the caller
  gets the answer with the original text, if no synthetic value is shared by two different
  originals and the sent text is unambiguous for the candidates.
\<close>

theorem echo_end_to_end:
  assumes "handle_chat P q (Some ctx) body key gw = (Inr final, gw', sent)"
    and "analyse P (Some ctx) body gw = Inr (tx, n, m)"
    and "\<And>u. hd sent = JObj (replace_messages body u) \<Longrightarrow> pl_upstream P (hd sent) key = Inr (answer_with (JStr u))"
    and "list_all2 (\<lambda>(j, d) s. synthetic_for (pl_packs P) (dr_token (rq_draws q) j) (d_entity_type d) (d_text d)
      (cc_country_code ctx) (Some (rq_salt q)) = Inr s) (enumerate 0 (accepted m)) syns"
    and "\<forall>(d, s) \<in> set (zip (accepted m) syns). \<forall>(d', s') \<in> set (zip (accepted m) syns). s = s' \<longrightarrow> d_text d = d_text d'"
    and "cs = longest_first (all_candidates (components_for (zip (accepted m) syns) []))"
    and "\<forall>c \<in> set cs. fst c \<noteq> []" and "unambiguous cs (echo_pieces cs tx 0 (zip (accepted m) syns))"
  shows "final = answer_with (JStr tx)"
proof -
  from assms(1) obtain fr sm0 sm1 sm2 resp rr ents where h:
    "apply_substitution (pl_aead P) (pl_packs P) (rq_draws q) tx (accepted m) sm0 (cc_country_code ctx) (rq_salt q) = (Inr fr, sm1)"
    "sent = [JObj (replace_messages body (fr_sanitised_text fr))]" "pl_upstream P (hd sent) key = Inr resp"
    "reverse_substitution (pl_aead P) (rq_clock q) (extract_response_text (pl_runtime P) resp) sm1
        (fr_components_by_synthetic fr) ents = (Inr rr, sm2)"
    "replace_response_text (pl_runtime P) resp (rr_text rr) = Inr final"
    by (rule handle_chat_ok) (use assms(2) in auto)
  obtain ds xs where mm: "merge (pl_merge P) tx ds xs = Inr m" using analyse_merge [OF assms(2)] by blast
  then have acc: "merge_accepted (pl_merge P) xs tx ds = Inr (accepted m)" by (simp add: merge_accepted_def)
  have spans: "disjoint_spans (accepted m)" "\<forall>d \<in> set (accepted m). span_in tx d"
    using merge_resolver.resolve_disjoint [OF acc] merge_resolver.resolve_span [OF acc] by blast+
  from apply_substitution_Inr [OF merge_resolver.resolved_spans [OF acc] spans(1) h(1)] obtain syns' where
    s: "list_all2 (\<lambda>(j, d) s. synthetic_for (pl_packs P) (dr_token (rq_draws q) j) (d_entity_type d) (d_text d)
      (cc_country_code ctx) (Some (rq_salt q)) = Inr s) (enumerate 0 (accepted m)) syns'"
    "fr_components_by_synthetic fr = components_for (zip (accepted m) syns') []" by blast
  have "syns' = syns" by (rule list_all2_functional [OF s(1) assms(4)]) auto
  then have c: "cs = longest_first (all_candidates (fr_components_by_synthetic fr))" using s(2) assms(6) by simp
  have resp: "resp = answer_with (JStr (fr_sanitised_text fr))" using h(2,3) assms(3) by simp
  then have "extract_response_text (pl_runtime P) resp = fr_sanitised_text fr"
    by (simp add: extract_response_text_def answer_content_with)
  moreover obtain r where "reverse_substitution (pl_aead P) (rq_clock q) (fr_sanitised_text fr) sm1
      (fr_components_by_synthetic fr) ents = (Inr r, sm1)" "rr_text r = tx"
    using echo_reverse [OF spans h(1) assms(4,5) c assms(7,8)] by blast
  ultimately have "rr_text rr = tx" using h(4) by simp
  then show ?thesis using h(5) resp by (simp add: replace_response_text_def answer_with_def)
qed

text \<open>
  Only the content of the first choice is restored: every other choice, and every other field of
  the answer, reaches the caller as the provider sent it, synthetic values included.
\<close>

theorem only_first_choice_restored:
  assumes "handle_chat P q (Some ctx) body key gw = (Inr final, gw', sent)"
    and "pl_upstream P (hd sent) key = Inr (JObj d)" and "map_of d (lit ''choices'') = Some (JList (JObj c # others))"
    and "map_of c (lit ''message'') = Some (JObj msg)"
  shows "\<exists>restored. final = JObj (dict_set (lit ''choices'') (JList (JObj (dict_set (lit ''message'')
    (JObj (dict_set (lit ''content'') (JStr restored) msg)) c) # others)) d)"
  using assms(1)
proof (rule handle_chat_ok)
  fix resp rr
  assume "pl_upstream P (hd sent) key = Inr resp" "replace_response_text (pl_runtime P) resp (rr_text rr) = Inr final"
  with assms(2-4) show ?thesis
    by (intro exI [of _ "rr_text rr"]) (cases msg, simp_all add: replace_response_text_def)
qed

section \<open>Other customers\<close>

text \<open>
  Whatever exceptions other customers add or remove, a customer's request has the same answer,
  sends the same body and leaves the same session store and audit log.
\<close>

theorem others_exceptions_irrelevant:
  assumes "foldE memory_exceptions.run_op ops (gw_exceptions gw) = Inr xs"
    and "\<forall>op \<in> set ops. op_customer op \<noteq> cc_customer_id ctx"
    and "handle_chat P q (Some ctx) body key gw = (res, gw', sent)"
  shows "handle_chat P q (Some ctx) body key (gw\<lparr>gw_exceptions := xs\<rparr>) = (res, gw'\<lparr>gw_exceptions := xs\<rparr>, sent)"
proof -
  have "filter (\<lambda>op. op_customer op = cc_customer_id ctx) ops = []"
    using assms(2) by (simp add: filter_empty_conv)
  with memory_exceptions.run_refines [OF assms(1), of "cc_customer_id ctx"]
  have "list_active (Some ctx) xs = list_active (Some ctx) (gw_exceptions gw)"
    by (simp add: list_active_def)
  then have "analyse P (Some ctx) body (gw\<lparr>gw_exceptions := xs\<rparr>) = analyse P (Some ctx) body gw"
    by (simp add: analyse_def active_exceptions_def)
  then show ?thesis
    using assms(3) by (auto simp: handle_chat_on_def split: sum.splits prod.splits)
qed

section \<open>The handler as steps of the session store\<close>

definition at_slot :: "nat \<Rightarrow> session_store \<Rightarrow> session_map \<Rightarrow> session_store" where
  "at_slot r st sm = st\<lparr>ss_heap := (ss_heap st)[r := sm]\<rparr>"

lemma at_slot_again: "r < length (ss_heap st) \<Longrightarrow> ss_heap (at_slot r st sm) ! r = sm"
  "at_slot r (at_slot r st sm) sm' = at_slot r st sm'" "length (ss_heap (at_slot r st sm)) = length (ss_heap st)"
  by (simp_all add: at_slot_def)

lemma add_reaches:
  assumes "store_reachable A st0 (at_slot r st sm)" "r < length (ss_heap st)" "sm_add A n t e sm = Inr sm'"
  shows "store_reachable A st0 (at_slot r st sm')"
  using store_reachable.step [OF assms(1) store_step.adds [of r "at_slot r st sm" A n t e sm']] assms(2,3)
  by (simp add: at_slot_def)

lemma reverse_reaches:
  assumes "store_reachable A st0 (at_slot r st sm)" "r < length (ss_heap st)" "sm_reverse A t s sm = (res, sm')"
  shows "store_reachable A st0 (at_slot r st sm')"
  using store_reachable.step [OF assms(1) store_step.reverses [of r "at_slot r st sm" A t s res sm']] assms(2,3)
  by (simp add: at_slot_def)

lemma apply_loop_reaches:
  "store_reachable A st0 (at_slot r st sm) \<Longrightarrow> r < length (ss_heap st) \<Longrightarrow>
   apply_loop A packs g tx cc salt ds i c parts comps sm = (res, sm') \<Longrightarrow> store_reachable A st0 (at_slot r st sm')"
proof (induction ds arbitrary: i c parts comps sm)
  case (Cons d ds)
  show ?case
  proof (cases "d_start d < c")
    case True
    with Cons show ?thesis by simp
  next
    case False
    show ?thesis
    proof (cases "synthetic_for packs (dr_token g i) (d_entity_type d) (d_text d) cc (Some salt)")
      case (Inl e)
      with Cons.prems False show ?thesis by simp
    next
      case (Inr s)
      show ?thesis
      proof (cases "sm_add A (dr_nonce g i) (dr_clock g i) \<lparr>e_original = d_text d, e_synthetic = s,
          e_entity_type = entity_name (d_entity_type d)\<rparr> sm")
        case (Inl e)
        with Cons.prems False Inr show ?thesis by simp
      next
        case (Inr sm1)
        from Cons.IH [OF add_reaches [OF Cons.prems(1,2) Inr] Cons.prems(2)] Cons.prems(3) False
          \<open>synthetic_for _ _ _ _ _ _ = Inr s\<close> Inr show ?thesis by simp
      qed
    qed
  qed
qed simp

lemma candidates_reaches:
  "store_reachable A st0 (at_slot r st sm) \<Longrightarrow> r < length (ss_heap st) \<Longrightarrow>
   candidates_loop A clock i comps sm = (res, sm') \<Longrightarrow> store_reachable A st0 (at_slot r st sm')"
proof (induction comps arbitrary: i sm res)
  case (Cons x comps)
  obtain s cs where x: "x = (s, cs)" by (cases x)
  show ?case
  proof (cases "cs = []")
    case True
    obtain e sm1 where rev: "sm_reverse A (clock i) s sm = (e, sm1)" by (cases "sm_reverse A (clock i) s sm")
    note IH = Cons.IH [OF reverse_reaches [OF Cons.prems(1,2) rev] Cons.prems(2)]
    show ?thesis using Cons.prems(3) True x rev IH reverse_reaches [OF Cons.prems(1,2) rev]
      by (auto split: sum.splits prod.splits)
  next
    case False
    with Cons.prems x show ?thesis by (auto split: sum.splits prod.splits intro: Cons.IH)
  qed
qed simp

lemma reverse_map_after:
  "snd (reverse_substitution A clock resp sm comps ents) = snd (candidates_loop A clock 0 comps sm)"
  by (simp add: reverse_substitution_def Let_def split: prod.split sum.split)

lemma exchange_reaches:
  assumes "store_reachable (pl_aead P) st0 (at_slot r st sm)" "r < length (ss_heap st)"
    and "exchange P q ctx rid body key tx m n sm recs = (res, sm', recs', sent)"
  shows "store_reachable (pl_aead P) st0 (at_slot r st sm')"
proof -
  obtain a sm1 where a: "apply_substitution (pl_aead P) (pl_packs P) (rq_draws q) tx (accepted m) sm
      (cc_country_code ctx) (rq_salt q) = (a, sm1)" by (rule prod.exhaust)
  have one: "store_reachable (pl_aead P) st0 (at_slot r st sm1)"
    using apply_loop_reaches [OF assms(1,2)] a
    by (auto simp: apply_substitution_def split: prod.splits sum.splits)
  have "sm' = sm1 \<or> (\<exists>clock resp comps ents rr. reverse_substitution (pl_aead P) clock resp sm1 comps ents = (rr, sm'))"
    using assms(3) a unfolding exchange_on_def by (auto split: prod.splits sum.splits simp: Let_def)
  then show ?thesis
  proof
    assume "\<exists>clock resp comps ents rr. reverse_substitution (pl_aead P) clock resp sm1 comps ents = (rr, sm')"
    then obtain clock comps c where "candidates_loop (pl_aead P) clock 0 comps sm1 = (c, sm')"
      using reverse_map_after by (metis prod.collapse snd_conv)
    with candidates_reaches [OF one assms(2)] show ?thesis by blast
  qed (use one in simp)
qed

text \<open>
  The handler refines the session registry: whatever the outcome, what a request with a fresh id
  does to the store is a sequence of steps of the registry, so all that holds of reachable stores
  holds after any number of requests.
\<close>

theorem requests_are_store_steps:
  assumes "store_reachable (pl_aead P) st0 (gw_store gw)" and "request_id q \<notin> fst ` set (ss_maps (gw_store gw))"
    and "handle_chat P q cur body key gw = (res, gw', sent)"
  shows "store_reachable (pl_aead P) st0 (gw_store gw')"
  using assms(3)
proof (cases rule: handle_chat_cases)
  case (early e)
  with assms(1) show ?thesis by simp
next
  case (ran ctx tx n m r store sm recs)
  have opened: "store_reachable (pl_aead P) st0 store"
    by (rule store_reachable.step [OF assms(1) store_step.opens [OF assms(2) ran(3)]])
  have r: "r < length (ss_heap store)" using ran(3) by (auto simp: store_open_Inr)
  have "at_slot r store (ss_heap store ! r) = store" by (simp add: at_slot_def)
  with opened have "store_reachable (pl_aead P) st0 (at_slot r store sm)"
    using exchange_reaches [OF _ r ran(4), of st0] by simp
  then show ?thesis
    using store_reachable.step [OF _ store_step.closes, of "pl_aead P" st0 "at_slot r store sm" "request_id q"] ran(5)
    by (simp add: at_slot_def)
qed

section \<open>Answering\<close>

definition scalar_str :: "ustr \<Rightarrow> bool" where
  "scalar_str s = (\<forall>c \<in> set s. scalar c)"

text \<open>An answer in the shape of the provider's API: an object whose first choice has a message object.\<close>

definition completion_shape :: "json \<Rightarrow> bool" where
  "completion_shape resp = (\<exists>d c msg others. resp = JObj d \<and> map_of d (lit ''choices'') = Some (JList (JObj c # others)) \<and>
     map_of c (lit ''message'') = Some (JObj msg))"

text \<open>What the handler needs of its environment to answer.\<close>

definition ready :: "pipeline \<Rightarrow> request_draws \<Rightarrow> customer_context \<Rightarrow> gateway \<Rightarrow> bool" where
  "ready P q ctx gw = (length (ss_key (gw_store gw)) = 32 \<and> rq_salt q \<noteq> [] \<and>
     scalar_str (cc_customer_id ctx) \<and> scalar_str (request_id q) \<and> scalar_str (cc_country_code ctx) \<and> scalar_str (rq_salt q) \<and>
     float_repr_ok (pl_float_repr P) \<and> verify_chain (pl_float_repr P) (pl_writer P) (gw_audit gw) = Inr ())"

lemma replace_total:
  assumes "completion_shape resp"
  shows "\<exists>final. replace_response_text rt resp s = Inr final"
proof -
  from assms obtain d c msg others where r: "resp = JObj d" "map_of d (lit ''choices'') = Some (JList (JObj c # others))"
      "map_of c (lit ''message'') = Some (JObj msg)"
    by (auto simp: completion_shape_def)
  then show ?thesis by (cases msg) (simp_all add: replace_response_text_def)
qed

lemma exchange_total:
  assumes "ready P q ctx gw" and "scalar_str tx" and "merge (pl_merge P) tx ds xs = Inr m"
    and "new_session_map (Some ctx) t (ss_key (gw_store gw)) (cc_customer_id ctx) (request_id q) = Inr sm"
    and "\<And>b. \<exists>resp. pl_upstream P b key = Inr resp \<and> completion_shape resp"
    and "\<And>t. isOk (pl_ner P (Some ctx) t)"
  shows "\<exists>final sm' recs' sent. exchange P q ctx (request_id q) body key tx m n sm (gw_audit gw) = (Inr final, sm', recs', sent)"
proof -
  have acc: "merge_accepted (pl_merge P) xs tx ds = Inr (accepted m)" using assms(3) by (simp add: merge_accepted_def)
  have spans: "disjoint_spans (accepted m)" "\<forall>d \<in> set (accepted m). span_in tx d"
    using merge_resolver.resolve_disjoint [OF acc] merge_resolver.resolve_span [OF acc] by blast+
  have sm: "\<not> sm_purged sm" "sm_bound_customer sm = cc_customer_id ctx" "sm_request_id sm = request_id q"
    using assms(4) by (auto simp: new_session_map_def bindE_eq_Inr split: if_splits)
  have "\<forall>c \<in> set (cc_customer_id ctx @ [124] @ request_id q). scalar c"
    using assms(1) by (auto simp: ready_def scalar_str_def scalar_ascii)
  then obtain a where "utf8_encode (cc_customer_id ctx @ [124] @ request_id q) = Inr a" using utf8_encode_scalar by blast
  then have aad: "sm_aad sm = Inr a" using sm by (simp add: sm_aad_def)
  have "\<forall>d \<in> set (accepted m). \<forall>x \<in> set (d_text d). scalar x"
    using spans(2) span_in_chars assms(2) unfolding scalar_str_def by blast
  moreover have "\<forall>x \<in> set (cc_country_code ctx @ rq_salt q). scalar x" "rq_salt q \<noteq> []"
    using assms(1) by (auto simp: ready_def scalar_str_def)
  ultimately obtain fr sm1 where f: "apply_substitution (pl_aead P) (pl_packs P) (rq_draws q) tx (accepted m) sm
      (cc_country_code ctx) (rq_salt q) = (Inr fr, sm1)"
    using apply_total [OF spans sm(1) aad] by blast
  obtain syns where "fr_components_by_synthetic fr = components_for (zip (accepted m) syns) []"
    using apply_substitution_Inr [OF merge_resolver.resolved_spans [OF acc] spans(1) f] by blast
  then have comps: "\<forall>(s, l) \<in> set (fr_components_by_synthetic fr). l \<noteq> []"
    using components_for_nonempty [of "[]"] by simp
  obtain resp where u: "pl_upstream P (JObj (replace_messages body (fr_sanitised_text fr))) key = Inr resp" "completion_shape resp"
    using assms(5) by blast
  obtain ents where e: "post_response_entities P (Some ctx) (extract_response_text (pl_runtime P) resp) = Inr ents"
    using assms(6) [of "extract_response_text (pl_runtime P) resp"] by (auto simp: post_response_entities_def isOk_iff)
  obtain rr where r: "reverse_substitution (pl_aead P) (rq_clock q) (extract_response_text (pl_runtime P) resp) sm1
      (fr_components_by_synthetic fr) ents = (Inr rr, sm1)"
    using reverse_text [OF comps] by blast
  obtain final where "replace_response_text (pl_runtime P) resp (rr_text rr) = Inr final" using replace_total [OF u(2)] by blast
  moreover obtain rec where "writer_record memory_latest_hash memory_append (pl_aead P) (pl_float_repr P) (pl_writer P) (Some ctx)
      (rq_audit q) (request_id q) (lit ''request'') (audit_payload m n rr (rq_latency_ms q)) (gw_audit gw) =
      Inr (rec, gw_audit gw @ [rec])"
    using record_total assms(1) unfolding ready_def scalar_str_def by blast
  ultimately show ?thesis using f u(1) e r by (simp add: exchange_on_def Let_def)
qed

lemma answered:
  assumes "ready P q ctx gw" and "request_text body = Inr tx" and "scalar_str tx"
    and "retrieve list_for_customer (pl_lower P) (pl_is_word P) (pl_top_k P) (Some ctx) tx None (gw_rules gw) = Inr rules"
    and "\<forall>r \<in> set (detector_results P (Some ctx) tx rules). \<exists>ds. r = Inr ds \<and> (\<forall>d \<in> set ds. wf_detection d)"
    and "\<And>b. \<exists>resp. pl_upstream P b key = Inr resp \<and> completion_shape resp"
    and "\<And>t. isOk (pl_ner P (Some ctx) t)"
  shows "\<exists>final. fst (handle_chat P q (Some ctx) body key gw) = Inr final"
proof -
  obtain a b c where abc: "detector_results P (Some ctx) tx rules = [Inr a, Inr b, Inr c]"
      "\<forall>d \<in> set (a @ b @ c). wf_detection d"
    using assms(5) by (fastforce simp: detector_results_def)
  obtain xs where x: "active_exceptions (Some ctx) (gw_exceptions gw) = Inr xs"
    by (auto simp: active_exceptions_def list_active_def)
  obtain out where "merge_accepted (pl_merge P) xs tx (a @ b @ c) = Inr out"
    using merge_resolver.resolve_total [OF abc(2), of "pl_merge P" xs tx] unfolding isOk_iff by blast
  then obtain m where m: "merge (pl_merge P) tx (a @ b @ c) xs = Inr m"
    by (auto simp: merge_accepted_def bindE_eq_Inr)
  have an: "analyse P (Some ctx) body gw = Inr (tx, length (a @ b @ c), m)"
    using assms(2,4) abc(1) x m by (simp add: analyse_def)
  have "length (ss_key (gw_store gw)) = 32" using assms(1) by (simp add: ready_def)
  then obtain sm where sm: "new_session_map (Some ctx) (rq_opened_at q) (ss_key (gw_store gw)) (cc_customer_id ctx) (request_id q) = Inr sm"
    by (simp add: new_session_map_def)
  from exchange_total [OF assms(1,3) m sm assms(6,7)] obtain final sm' recs' sent where
    "exchange P q ctx (request_id q) body key tx m (length (a @ b @ c)) sm (gw_audit gw) = (Inr final, sm', recs', sent)" by blast
  then show ?thesis using an sm by (simp add: handle_chat_on_def store_open_def Let_def)
qed

text \<open>
  Answering: a request in a ready gateway, whose messages have a text, whose detectors return
  constructed detections (the NER for the answer, too) and whose provider answers in the shape
  of its API, gets an answer.
\<close>

theorem request_answered:
  assumes "ready P q ctx gw" and "request_text body = Inr tx" and "scalar_str tx"
    and "retrieve list_for_customer (pl_lower P) (pl_is_word P) (pl_top_k P) (Some ctx) tx None (gw_rules gw) = Inr rules"
    and "\<forall>r \<in> set (detector_results P (Some ctx) tx rules). \<exists>ds. r = Inr ds \<and> (\<forall>d \<in> set ds. wf_detection d)"
    and "\<And>b. \<exists>resp. pl_upstream P b key = Inr resp \<and> completion_shape resp"
    and "\<And>t. isOk (pl_ner P (Some ctx) t)"
  shows "\<exists>final. fst (handle_chat P q (Some ctx) body key gw) = Inr final"
  using assms by (rule answered)

section \<open>Witnesses\<close>

text \<open>A provider that answers with the content it was sent, and a gateway around it.\<close>

fun echo_upstream :: "json \<Rightarrow> ustr \<Rightarrow> json res" where
  "echo_upstream (JObj b) key =
     (case map_of b (lit ''messages'') of
        Some (JList (JObj msg # _)) \<Rightarrow>
          Inr (answer_with (case map_of msg (lit ''content'') of Some c \<Rightarrow> c | None \<Rightarrow> JNull))
      | _ \<Rightarrow> Inr (answer_with JNull))"
| "echo_upstream _ key = Inr (answer_with JNull)"

definition sample_pipeline :: "failure_mode \<Rightarrow> detection list res \<Rightarrow> detection list res \<Rightarrow> pipeline" where
  "sample_pipeline mode others found = \<lparr>pl_aead = sample_aead, pl_packs = initial_packs, pl_writer = sample_writer,
     pl_float_repr = sample_float, pl_runtime = sample_runtime JNull, pl_merge = sample_config,
     pl_failure_mode = mode, pl_lower = id, pl_is_word = (\<lambda>c. 97 \<le> c), pl_top_k = 10, pl_log = (\<lambda>_ _. Inr ()),
     pl_structural = (\<lambda>_ _. others), pl_ner = (\<lambda>_ _. others), pl_contextual = (\<lambda>_ _ _. found),
     pl_upstream = echo_upstream\<rparr>"

definition sample_request :: request_draws where
  "sample_request = \<lparr>rq_uuid_hex = lit ''0'', rq_salt = sample_salt, rq_opened_at = 0, rq_draws = sample_draws,
     rq_clock = (\<lambda>_. 0), rq_audit = sample_audit (lit ''u1''), rq_latency_ms = 5\<rparr>"

definition sample_gateway :: gateway where
  "sample_gateway = \<lparr>gw_store = empty_store (replicate 32 7) 1800, gw_audit = [], gw_rules = new_rule_store [],
     gw_exceptions = new_exception_store\<rparr>"

definition sample_body :: "(ustr, json) dict" where
  "sample_body = [(lit ''model'', JStr (lit ''m'')), (lit ''messages'', JList [user_message two_words])]"

lemma sample_text_of: "request_text sample_body = Inr two_words"
  by (simp add: request_text_def sample_body_def flatten_messages_def user_message_def)

lemma sample_retrieve: "retrieve list_for_customer id (\<lambda>c. 97 \<le> c) 10 (Some sample_customer) two_words None
    (new_rule_store []) = Inr []"
  by (simp add: retrieve_def list_for_customer_def new_rule_store_def Let_def rank_by_keyword_def ranked_def py_slice_def)

lemma answer_shape: "completion_shape (answer_with c)"
  by (auto simp: completion_shape_def answer_with_def)

lemma echo_shape: "\<exists>resp. echo_upstream b key = Inr resp \<and> completion_shape resp"
  by (cases "(b, key)" rule: echo_upstream.cases)
    (auto split: option.split json.split list.split intro: answer_shape)

lemma sample_ready: "ready (sample_pipeline mode others found) sample_request sample_customer sample_gateway"
  by (simp add: ready_def sample_pipeline_def sample_request_def sample_customer_def sample_gateway_def empty_store_def
      sample_salt_def scalar_str_def request_id_def scalar_ascii sample_float_ok verify_chain_def)

lemma two_words_scalar: "scalar_str two_words"
  by (simp add: scalar_str_def two_words_def scalar_ascii)

lemma sample_answered:
  assumes "\<forall>d \<in> set ds. wf_detection d"
  shows "\<exists>final. fst (handle_chat (sample_pipeline mode (Inr []) (Inr ds)) sample_request (Some sample_customer) sample_body key
    sample_gateway) = Inr final"
proof (rule answered [OF sample_ready sample_text_of two_words_scalar])
  show "retrieve list_for_customer (pl_lower (sample_pipeline mode (Inr []) (Inr ds))) (pl_is_word (sample_pipeline mode (Inr []) (Inr ds)))
      (pl_top_k (sample_pipeline mode (Inr []) (Inr ds))) (Some sample_customer) two_words None (gw_rules sample_gateway) = Inr []"
    using sample_retrieve by (simp add: sample_pipeline_def sample_gateway_def)
qed (use assms echo_shape in \<open>auto simp: detector_results_def sample_pipeline_def\<close>)

lemma sample_outcome:
  obtains final gw' sent where "handle_chat (sample_pipeline Strict (Inr []) (Inr [custom_at 2 4])) sample_request (Some sample_customer) sample_body key
    sample_gateway = (Inr final, gw', sent)"
proof -
  obtain r gw' sent where h: "handle_chat (sample_pipeline Strict (Inr []) (Inr [custom_at 2 4])) sample_request (Some sample_customer) sample_body key
    sample_gateway = (r, gw', sent)" by (rule prod_cases3)
  with sample_answered [of "[custom_at 2 4]" Strict key] obtain final where "r = Inr final"
    by (auto simp: wf_detection_def custom_at_def)
  with h that show ?thesis by blast
qed

lemma request_answered_witness:
  "\<exists>final. fst (handle_chat (sample_pipeline Strict (Inr []) (Inr [custom_at 2 4])) sample_request (Some sample_customer) sample_body []
    sample_gateway) = Inr final"
proof (rule request_answered [OF sample_ready sample_text_of two_words_scalar])
  show "retrieve list_for_customer (pl_lower (sample_pipeline Strict (Inr []) (Inr [custom_at 2 4])))
      (pl_is_word (sample_pipeline Strict (Inr []) (Inr [custom_at 2 4]))) (pl_top_k (sample_pipeline Strict (Inr []) (Inr [custom_at 2 4])))
      (Some sample_customer) two_words None (gw_rules sample_gateway) = Inr []"
    using sample_retrieve by (simp add: sample_pipeline_def sample_gateway_def)
qed (use echo_shape in \<open>auto simp: detector_results_def sample_pipeline_def wf_detection_def custom_at_def\<close>)

lemma audited_exactly_on_success_witness:
  "\<exists>(rec :: audit_record) (gw' :: gateway). gw_audit gw' = [rec] \<and> ar_customer_id rec = lit ''acme'' \<and>
    verify_chain sample_float sample_writer (gw_audit gw') = Inr ()"
proof -
  obtain final gw' sent where h: "handle_chat (sample_pipeline Strict (Inr []) (Inr [custom_at 2 4])) sample_request
    (Some sample_customer) sample_body [] sample_gateway = (Inr final, gw', sent)" by (rule sample_outcome)
  have "verify_chain sample_float sample_writer [] = Inr ()" by (simp add: verify_chain_def)
  with audited_exactly_on_success [OF h] obtain rec where
    "gw_audit gw' = [rec]" "ar_customer_id rec = lit ''acme''" "verify_chain sample_float sample_writer (gw_audit gw') = Inr ()"
    by (auto simp: sample_pipeline_def sample_gateway_def sample_customer_def)
  then show ?thesis by blast
qed

lemma session_purged_on_every_outcome_witness:
  "\<exists>res gw' sent. handle_chat (sample_pipeline Strict (Inr []) (Inr [custom_at 2 4])) sample_request (Some sample_customer)
      sample_body [] sample_gateway = (res, gw', sent) \<and> ss_maps (gw_store gw') = []"
proof -
  obtain res gw' sent where h: "handle_chat (sample_pipeline Strict (Inr []) (Inr [custom_at 2 4])) sample_request
    (Some sample_customer) sample_body [] sample_gateway = (res, gw', sent)" by (rule prod_cases3)
  from session_purged_on_every_outcome [OF h, of sample_aead 0 "[]"]
  have "ss_maps (gw_store gw') = []" by (auto simp: sample_gateway_def empty_store_def)
  with h show ?thesis by blast
qed

lemma upstream_sees_sanitised_witness:
  "\<exists>b b' gw' res. handle_chat (sample_pipeline Strict (Inr []) (Inr [custom_at 2 4])) sample_request (Some sample_customer)
      sample_body [] sample_gateway = (res, gw', [b]) \<and> b = JObj b' \<and> map_of b' (lit ''model'') = Some (JStr (lit ''m''))"
proof -
  obtain final gw' sent where h: "handle_chat (sample_pipeline Strict (Inr []) (Inr [custom_at 2 4])) sample_request
    (Some sample_customer) sample_body [] sample_gateway = (Inr final, gw', sent)" by (rule sample_outcome)
  obtain b where "b \<in> set sent" using h by (rule handle_chat_ok) auto
  from upstream_sees_sanitised [OF h this] h show ?thesis by (fastforce simp: sample_body_def)
qed

lemma strict_fails_closed_witness:
  "handle_chat (sample_pipeline Strict (Inr []) (Inl KeyError)) sample_request (Some sample_customer) sample_body []
     sample_gateway = (Inl KeyError, sample_gateway, [])"
  using strict_fails_closed [of "sample_pipeline Strict (Inr []) (Inl KeyError)" sample_body two_words sample_customer
      sample_gateway "[]" KeyError sample_request "[]"] sample_retrieve sample_text_of
  by (auto simp: sample_pipeline_def sample_gateway_def detector_results_def)

lemma lenient_forwards_in_clear_witness:
  "snd (snd (handle_chat (sample_pipeline Fallback (Inl KeyError) (Inl KeyError)) sample_request (Some sample_customer)
     sample_body [] sample_gateway)) = [JObj (replace_messages sample_body two_words)]"
proof (rule lenient_forwards_in_clear [OF _ sample_text_of])
  show "retrieve list_for_customer (pl_lower (sample_pipeline Fallback (Inl KeyError) (Inl KeyError)))
      (pl_is_word (sample_pipeline Fallback (Inl KeyError) (Inl KeyError)))
      (pl_top_k (sample_pipeline Fallback (Inl KeyError) (Inl KeyError))) (Some sample_customer) two_words None
      (gw_rules sample_gateway) = Inr []"
    using sample_retrieve by (simp add: sample_pipeline_def sample_gateway_def)
qed (simp_all add: sample_pipeline_def sample_gateway_def empty_store_def detector_results_def)

lemma only_first_choice_restored_witness:
  "\<exists>final gw' sent restored. handle_chat (sample_pipeline Strict (Inr []) (Inr [custom_at 2 4])) sample_request
      (Some sample_customer) sample_body [] sample_gateway = (Inr final, gw', sent) \<and> final = answer_with (JStr restored)"
proof -
  obtain final gw' sent where h: "handle_chat (sample_pipeline Strict (Inr []) (Inr [custom_at 2 4])) sample_request
    (Some sample_customer) sample_body [] sample_gateway = (Inr final, gw', sent)" by (rule sample_outcome)
  obtain u where "hd sent = JObj (replace_messages sample_body u)" using h by (rule handle_chat_ok) auto
  then have "pl_upstream (sample_pipeline Strict (Inr []) (Inr [custom_at 2 4])) (hd sent) [] = Inr (answer_with (JStr u))"
    by (simp add: sample_pipeline_def replace_messages_def user_message_def)
  from only_first_choice_restored [OF h this [unfolded answer_with_def]] h show ?thesis
    by (fastforce simp: answer_with_def)
qed

lemma others_exceptions_irrelevant_witness:
  "\<exists>xs res gw' sent. xs \<noteq> new_exception_store \<and>
    handle_chat (sample_pipeline Strict (Inr []) (Inr [])) sample_request (Some sample_customer) sample_body []
      (sample_gateway\<lparr>gw_exceptions := xs\<rparr>) = (res, gw'\<lparr>gw_exceptions := xs\<rparr>, sent)"
proof -
  let ?ops = "[Add_exc (tenant 1) (tenant_exception 1 (lit ''a''))]"
  obtain xs where xs: "foldE memory_exceptions.run_op ?ops (gw_exceptions sample_gateway) = Inr xs" "xs \<noteq> new_exception_store"
    by (simp add: add_exception_def tenant_def tenant_exception_def sample_gateway_def new_exception_store_def)
  obtain res gw' sent where h: "handle_chat (sample_pipeline Strict (Inr []) (Inr [])) sample_request (Some sample_customer)
    sample_body [] sample_gateway = (res, gw', sent)" by (rule prod_cases3)
  from others_exceptions_irrelevant [OF xs(1) _ h] xs(2) show ?thesis
    by (auto simp: tenant_def sample_customer_def)
qed

lemma requests_are_store_steps_witness:
  "\<exists>res gw' sent. handle_chat (sample_pipeline Strict (Inr []) (Inr [])) sample_request (Some sample_customer) sample_body []
      sample_gateway = (res, gw', sent) \<and> store_reachable sample_aead (empty_store (replicate 32 7) 1800) (gw_store gw')"
proof -
  obtain res gw' sent where h: "handle_chat (sample_pipeline Strict (Inr []) (Inr [])) sample_request (Some sample_customer)
    sample_body [] sample_gateway = (res, gw', sent)" by (rule prod_cases3)
  from requests_are_store_steps [OF _ _ h, of "empty_store (replicate 32 7) 1800"] h show ?thesis
    by (auto simp: sample_gateway_def sample_pipeline_def empty_store_def intro: store_reachable.start)
qed

lemma custom_config: "above_threshold sample_config (custom_at 2 4)"
  by (simp add: above_threshold_def threshold_def sample_config_def custom_at_def)

lemma sample_custom_merge:
  "merge sample_config two_words [custom_at 2 4] [] = Inr \<lparr>accepted = [custom_at 2 4], below_threshold = [],
     exception_suppressed = [], span_invalid = []\<rparr>"
proof -
  have "span_matches two_words (custom_at 2 4)"
    using custom_at_spans(1) by (simp add: span_matches_iff)
  moreover have "resolve_overlaps [custom_at 2 4] = Inr [custom_at 2 4]"
    by (simp add: resolve_overlaps_def clusters_def pick_cluster_winner_def)
  ultimately show ?thesis using custom_config by (simp add: merge_def exempt_def)
qed

lemma sample_analyse:
  "analyse (sample_pipeline Strict (Inr []) (Inr [custom_at 2 4])) (Some sample_customer) sample_body sample_gateway =
     Inr (two_words, 1, \<lparr>accepted = [custom_at 2 4], below_threshold = [], exception_suppressed = [], span_invalid = []\<rparr>)"
  using sample_text_of sample_retrieve sample_custom_merge
  by (simp add: analyse_def sample_pipeline_def sample_gateway_def detector_results_def active_exceptions_def
      list_active_def entries_of_def new_exception_store_def)

lemma echo_end_to_end_witness:
  "\<exists>gw' sent. handle_chat (sample_pipeline Strict (Inr []) (Inr [custom_at 2 4])) sample_request (Some sample_customer)
      sample_body [] sample_gateway = (Inr (answer_with (JStr two_words)), gw', sent)"
proof -
  let ?P = "sample_pipeline Strict (Inr []) (Inr [custom_at 2 4])"
  let ?m = "\<lparr>accepted = [custom_at 2 4], below_threshold = [], exception_suppressed = [], span_invalid = []\<rparr> :: merge_result"
  obtain final gw' sent where h: "handle_chat ?P sample_request (Some sample_customer) sample_body [] sample_gateway =
      (Inr final, gw', sent)" by (rule sample_outcome)
  have echo: "pl_upstream ?P (hd sent) [] = Inr (answer_with (JStr u))" if "hd sent = JObj (replace_messages sample_body u)" for u
    using that by (simp add: sample_pipeline_def replace_messages_def user_message_def)
  have l: "list_all2 (\<lambda>(j, d) s. synthetic_for (pl_packs ?P) (dr_token (rq_draws sample_request) j) (d_entity_type d) (d_text d)
      (cc_country_code sample_customer) (Some (rq_salt sample_request)) = Inr s) (enumerate 0 (accepted ?m)) [sample_value]"
    using sample_synthetics by (simp add: sample_pipeline_def sample_request_def sample_customer_def)
  have "final = answer_with (JStr two_words)"
  proof (rule echo_end_to_end [OF h sample_analyse echo l])
    show "[(sample_value, lit ''ab'', True)] =
        longest_first (all_candidates (components_for (zip (accepted ?m) [sample_value]) []))"
      using sample_custom_candidates by simp
    show "unambiguous [(sample_value, lit ''ab'', True)]
        (echo_pieces [(sample_value, lit ''ab'', True)] two_words 0 (zip (accepted ?m) [sample_value]))"
      using sample_unambiguous by simp
  qed simp_all
  with h show ?thesis by blast
qed

end
