(* ===== verification/Web.thy ===== *)
theory Web
  imports PipelineProps
begin

text \<open>
  \<open>src/proxy/schemas.py\<close>, \<open>src/proxy/routes.py\<close> and \<open>src/dashboard/routes.py\<close>: the request models, the
  chat route, and the data of the dashboard's pages. The framework authenticates before it validates
  the body. The conversions pydantic makes of scalar JSON values to \<open>bool\<close>, \<open>float\<close> and \<open>int\<close> are
  parameters; the rendering of the pages is not modelled.
\<close>

section \<open>Request models\<close>

datatype role = System | User | Assistant | Tool | Developer

fun role_name :: "role \<Rightarrow> ustr" where
  "role_name System = lit ''system''"
| "role_name User = lit ''user''"
| "role_name Assistant = lit ''assistant''"
| "role_name Tool = lit ''tool''"
| "role_name Developer = lit ''developer''"

record chat_message =
  cm_role :: role
  cm_content :: "ustr option"
  cm_extra :: "(ustr, json) dict"

record chat_request =
  cq_model :: ustr
  cq_messages :: "chat_message list"
  cq_stream :: bool
  cq_temperature :: "pyfloat option"
  cq_max_tokens :: "int option"
  cq_extra :: "(ustr, json) dict"

record coercions =
  co_bool :: "json \<Rightarrow> bool option"
  co_float :: "json \<Rightarrow> pyfloat option"
  co_int :: "json \<Rightarrow> int option"

definition invalid_unless :: "'a option \<Rightarrow> 'a res" where
  "invalid_unless v = (case v of None \<Rightarrow> Inl ValidationError | Some x \<Rightarrow> Inr x)"

fun as_str :: "json \<Rightarrow> ustr option" where
  "as_str (JStr s) = Some s"
| "as_str _ = None"

definition role_of :: "json \<Rightarrow> role option" where
  "role_of v = (case as_str v of None \<Rightarrow> None
     | Some s \<Rightarrow> find (\<lambda>r. role_name r = s) [System, User, Assistant, Tool, Developer])"

text \<open>A field that may be missing or null.\<close>

definition optional_field :: "(json \<Rightarrow> 'a option) \<Rightarrow> ustr \<Rightarrow> (ustr, json) dict \<Rightarrow> 'a option res" where
  "optional_field co k d =
     (case map_of d k of None \<Rightarrow> Inr None
      | Some v \<Rightarrow> if v = JNull then Inr None else bindE (invalid_unless (co v)) (\<lambda>x. Inr (Some x)))"

definition required_field :: "(json \<Rightarrow> 'a option) \<Rightarrow> ustr \<Rightarrow> (ustr, json) dict \<Rightarrow> 'a res" where
  "required_field co k d = bindE (invalid_unless (map_of d k)) (\<lambda>v. invalid_unless (co v))"

definition extra_fields :: "ustr list \<Rightarrow> (ustr, json) dict \<Rightarrow> (ustr, json) dict" where
  "extra_fields declared d = filter (\<lambda>(k, _). k \<notin> set declared) d"

definition message_fields :: "ustr list" where
  "message_fields = [lit ''role'', lit ''content'']"

definition request_fields :: "ustr list" where
  "request_fields = [lit ''model'', lit ''messages'', lit ''stream'', lit ''temperature'', lit ''max_tokens'']"

fun validate_message :: "json \<Rightarrow> chat_message res" where
  "validate_message (JObj d) =
     bindE (required_field role_of (lit ''role'') d) (\<lambda>r.
     bindE (optional_field as_str (lit ''content'') d) (\<lambda>c.
       Inr \<lparr>cm_role = r, cm_content = c, cm_extra = extra_fields message_fields d\<rparr>))"
| "validate_message _ = Inl ValidationError"

fun as_list :: "json \<Rightarrow> json list option" where
  "as_list (JList xs) = Some xs"
| "as_list _ = None"

fun validate_request :: "coercions \<Rightarrow> json \<Rightarrow> chat_request res" where
  "validate_request co (JObj d) =
     bindE (required_field as_str (lit ''model'') d) (\<lambda>model.
     bindE (required_field as_list (lit ''messages'') d) (\<lambda>ms.
     bindE (mapE validate_message ms) (\<lambda>messages.
     bindE (case map_of d (lit ''stream'') of None \<Rightarrow> Inr False | Some v \<Rightarrow> invalid_unless (co_bool co v)) (\<lambda>stream.
     bindE (optional_field (co_float co) (lit ''temperature'') d) (\<lambda>temperature.
     bindE (optional_field (\<lambda>v. case co_int co v of None \<Rightarrow> None | Some i \<Rightarrow> if 1 \<le> i then Some i else None)
              (lit ''max_tokens'') d) (\<lambda>max_tokens.
       Inr \<lparr>cq_model = model, cq_messages = messages, cq_stream = stream, cq_temperature = temperature,
         cq_max_tokens = max_tokens, cq_extra = extra_fields request_fields d\<rparr>))))))"
| "validate_request co _ = Inl ValidationError"

text \<open>\<open>model_dump(exclude_none=True)\<close>: declared fields first, then the others, without nulls.\<close>

definition drop_none :: "(ustr, json) dict \<Rightarrow> (ustr, json) dict" where
  "drop_none d = filter (\<lambda>(_, v). v \<noteq> JNull) d"

definition dump_opt :: "ustr \<Rightarrow> ('a \<Rightarrow> json) \<Rightarrow> 'a option \<Rightarrow> (ustr, json) dict" where
  "dump_opt k f v = (case v of None \<Rightarrow> [] | Some x \<Rightarrow> [(k, f x)])"

definition dump_message :: "chat_message \<Rightarrow> json" where
  "dump_message m = JObj ((lit ''role'', JStr (role_name (cm_role m))) # dump_opt (lit ''content'') JStr (cm_content m) @
     drop_none (cm_extra m))"

definition dump_request :: "chat_request \<Rightarrow> (ustr, json) dict" where
  "dump_request r =
     [(lit ''model'', JStr (cq_model r)), (lit ''messages'', JList (map dump_message (cq_messages r))),
      (lit ''stream'', JBool (cq_stream r))] @
     dump_opt (lit ''temperature'') JFloat (cq_temperature r) @ dump_opt (lit ''max_tokens'') JInt (cq_max_tokens r) @
     drop_none (cq_extra r)"

section \<open>The chat route\<close>

record web =
  wb_coercions :: coercions
  wb_lower :: "ustr \<Rightarrow> ustr"
  wb_isalpha :: "nat \<Rightarrow> bool"
  wb_directory :: customer_directory

abbreviation web_authenticate :: "web \<Rightarrow> ustr option \<Rightarrow> context_var \<Rightarrow> (customer_record \<times> context_var) res" where
  "web_authenticate W authorization v \<equiv> authenticate (wb_lower W) (wb_isalpha W) authorization (wb_directory W) v"

definition chat_completions ::
    "web \<Rightarrow> pipeline \<Rightarrow> request_draws \<Rightarrow> context_var \<Rightarrow> ustr option \<Rightarrow> json \<Rightarrow> gateway \<Rightarrow>
      json res \<times> gateway \<times> json list" where
  "chat_completions W P q v authorization body gw =
     (case web_authenticate W authorization v of
        Inl e \<Rightarrow> (Inl e, gw, [])
      | Inr (customer, v') \<Rightarrow>
          (case validate_request (wb_coercions W) body of
             Inl e \<Rightarrow> (Inl e, gw, [])
           | Inr r \<Rightarrow>
               if cq_stream r then (Inl (HTTPException 400), gw, [])
               else handle_chat P q (current_customer v') (dump_request r) (cr_upstream_provider_key customer) gw))"

section \<open>The dashboard\<close>

definition own_records :: "ustr \<Rightarrow> audit_log \<Rightarrow> audit_record list" where
  "own_records cid recs = filter (\<lambda>r. ar_customer_id r = cid) (memory_all recs)"

definition activity_records :: "ustr \<Rightarrow> audit_log \<Rightarrow> audit_record list" where
  "activity_records cid recs = rev (slice_from (own_records cid recs) (- 50))"

definition activity :: "web \<Rightarrow> context_var \<Rightarrow> ustr option \<Rightarrow> gateway \<Rightarrow> (customer_record \<times> audit_record list) res" where
  "activity W v authorization gw =
     bindE (web_authenticate W authorization v) (\<lambda>(customer, v').
       Inr (customer, activity_records (cr_customer_id customer) (gw_audit gw)))"

definition audit_view :: "web \<Rightarrow> context_var \<Rightarrow> ustr option \<Rightarrow> gateway \<Rightarrow> (customer_record \<times> audit_record list) res" where
  "audit_view W v authorization gw =
     bindE (web_authenticate W authorization v) (\<lambda>(customer, v').
       Inr (customer, rev (slice_from (own_records (cr_customer_id customer) (gw_audit gw)) (- 200))))"

fun group_by_tier :: "rule list \<Rightarrow> (int, rule list) dict \<Rightarrow> (int, rule list) dict" where
  "group_by_tier [] by_tier = by_tier"
| "group_by_tier (r # rs) by_tier =
     group_by_tier rs (dict_set (r_tier r)
       ((case map_of by_tier (r_tier r) of None \<Rightarrow> [] | Some old \<Rightarrow> old) @ [r]) by_tier)"

definition rules_page :: "web \<Rightarrow> context_var \<Rightarrow> ustr option \<Rightarrow> gateway \<Rightarrow> (customer_record \<times> (int, rule list) dict) res" where
  "rules_page W v authorization gw =
     bindE (web_authenticate W authorization v) (\<lambda>(customer, v').
     bindE (list_for_customer (current_customer v') None (gw_rules gw)) (\<lambda>rules.
       Inr (customer, group_by_tier rules [(1, []), (2, []), (3, [])])))"

definition list_exceptions :: "web \<Rightarrow> context_var \<Rightarrow> ustr option \<Rightarrow> gateway \<Rightarrow> (customer_record \<times> exception_entry list) res" where
  "list_exceptions W v authorization gw =
     bindE (web_authenticate W authorization v) (\<lambda>(customer, v').
     bindE (list_active (current_customer v') (gw_exceptions gw)) (\<lambda>entries. Inr (customer, entries)))"

definition or_none :: "ustr \<Rightarrow> ustr option" where
  "or_none s = (if s = [] then None else Some s)"

record exception_form =
  xf_rule_id :: ustr
  xf_entity_type :: ustr
  xf_text_match :: ustr
  xf_note :: ustr

definition form_exception :: "ustr \<Rightarrow> ustr \<Rightarrow> exception_form \<Rightarrow> rule_exception" where
  "form_exception uuid_hex cid f =
     \<lparr>x_exception_id = lit ''exc-'' @ take 12 uuid_hex, x_customer_id = cid, x_rule_id = or_none (xf_rule_id f),
      x_entity_type = or_none (xf_entity_type f), x_text_match = or_none (xf_text_match f), x_note = or_none (xf_note f)\<rparr>"

definition post_exception ::
    "web \<Rightarrow> context_var \<Rightarrow> ustr option \<Rightarrow> ustr \<Rightarrow> exception_form \<Rightarrow> gateway \<Rightarrow> (exception_entry list \<times> gateway) res" where
  "post_exception W v authorization uuid_hex f gw =
     bindE (web_authenticate W authorization v) (\<lambda>(customer, v').
     bindE (add_exception (current_customer v') (form_exception uuid_hex (cr_customer_id customer) f) (gw_exceptions gw)) (\<lambda>xs.
     bindE (list_active (current_customer v') xs) (\<lambda>entries. Inr (entries, gw\<lparr>gw_exceptions := xs\<rparr>))))"

section \<open>Lemmas\<close>

lemma invalid_unless_Inr [simp]: "invalid_unless v = Inr x \<longleftrightarrow> v = Some x"
  by (cases v) (simp_all add: invalid_unless_def)

lemma extra_declared: "k \<in> set declared \<Longrightarrow> map_of (drop_none (extra_fields declared d)) k = None"
  by (auto simp: map_of_eq_None_iff drop_none_def extra_fields_def)

lemma extra_kept:
  "dict_ok d \<Longrightarrow> k \<notin> set declared \<Longrightarrow> map_of (drop_none (extra_fields declared d)) k =
     (case map_of d k of None \<Rightarrow> None | Some v \<Rightarrow> if v = JNull then None else Some v)"
  by (induction d) (auto simp: drop_none_def extra_fields_def map_of_eq_None_iff split: option.splits)

lemma validated_extra:
  assumes "validate_request co (JObj d) = Inr r"
  shows "cq_extra r = extra_fields request_fields d" "list_all (\<lambda>m. \<exists>e. cm_extra m = extra_fields message_fields e) (cq_messages r)"
proof -
  have "\<exists>e. cm_extra m = extra_fields message_fields e" if "validate_message j = Inr m" for j m
    using that by (cases j) (auto simp: bindE_eq_Inr)
  with assms show "cq_extra r = extra_fields request_fields d"
    "list_all (\<lambda>m. \<exists>e. cm_extra m = extra_fields message_fields e) (cq_messages r)"
    by (auto simp: bindE_eq_Inr mapE_eq_Inr list_all2_conv_all_nth list_all_length)
qed

lemma dumped_content:
  assumes "cm_extra m = extra_fields message_fields e"
  shows "get_default (dump_message m) (lit ''content'') JNull =
    Inr (case cm_content m of None \<Rightarrow> JNull | Some s \<Rightarrow> JStr s)"
proof -
  have "map_of (drop_none (extra_fields message_fields e)) (lit ''content'') = None"
    by (rule extra_declared) (simp add: message_fields_def)
  then show ?thesis using assms by (auto simp: dump_message_def dump_opt_def map_add_def split: option.splits)
qed

definition message_texts :: "chat_request \<Rightarrow> ustr list" where
  "message_texts r = List.map_filter cm_content (cq_messages r)"

lemma message_parts_dumped:
  "list_all (\<lambda>m. \<exists>e. cm_extra m = extra_fields message_fields e) ms \<Longrightarrow>
     message_parts (map dump_message ms) = Inr (List.map_filter cm_content ms)"
  by (induction ms) (auto simp: dumped_content [simplified] map_filter_simps split: option.splits)

text \<open>The text of a validated request is that of its messages; flattening it cannot fail.\<close>

lemma validated_text:
  assumes "validate_request co (JObj d) = Inr r"
  shows "request_text (dump_request r) = Inr (join [10] (message_texts r))"
  using message_parts_dumped [OF validated_extra(2) [OF assms]]
  by (cases "cq_messages r") (simp_all add: request_text_def dump_request_def flatten_messages_def message_texts_def map_filter_simps)

lemma dumped_field:
  assumes "validate_request co (JObj d) = Inr r" "dict_ok d" "k \<notin> set request_fields"
  shows "map_of (dump_request r) k = (case map_of d k of None \<Rightarrow> None | Some v \<Rightarrow> if v = JNull then None else Some v)"
proof -
  have "map_of (dump_request r) k = map_of (drop_none (extra_fields request_fields d)) k"
    using assms(3) validated_extra(1) [OF assms(1)]
    by (auto simp: dump_request_def request_fields_def dump_opt_def map_add_def split: option.splits)
  then show ?thesis by (simp add: extra_kept [OF assms(2,3)])
qed

text \<open>A request that changes anything or sends anything went through authentication and validation.\<close>

lemma chat_completions_ran:
  assumes "chat_completions W P q v authorization body gw = (res, gw', sent)" "gw' \<noteq> gw \<or> sent \<noteq> []"
  obtains customer v' r where "web_authenticate W authorization v = Inr (customer, v')"
    "validate_request (wb_coercions W) body = Inr r" "\<not> cq_stream r"
    "handle_chat P q (current_customer v') (dump_request r) (cr_upstream_provider_key customer) gw = (res, gw', sent)"
proof (cases "web_authenticate W authorization v")
  case (Inl e)
  then show ?thesis using assms by (simp add: chat_completions_def)
next
  case (Inr a)
  obtain customer v' where a: "a = (customer, v')" by (cases a)
  show ?thesis
  proof (cases "validate_request (wb_coercions W) body")
    case (Inl e)
    then show ?thesis using assms Inr a by (simp add: chat_completions_def)
  next
    case valid: (Inr r)
    show ?thesis
    proof (cases "cq_stream r")
      case True
      then show ?thesis using assms Inr a valid by (simp add: chat_completions_def)
    next
      case False
      have "handle_chat P q (current_customer v') (dump_request r) (cr_upstream_provider_key customer) gw = (res, gw', sent)"
        using assms(1) Inr a valid False by (simp add: chat_completions_def)
      then show ?thesis by (rule that [OF Inr [unfolded a] valid False])
    qed
  qed
qed

lemma authenticated_context:
  assumes "authenticate lower isalpha authorization dir v = Inr (rec, v')"
  shows "\<exists>ctx. current_customer v' = Some ctx \<and> cc_customer_id ctx = cr_customer_id rec"
  using assms unfolding authenticate_Inr
  by (auto simp: mk_customer_context_Inr bind_customer_def current_customer_def)

section \<open>Only the customer's own provider key\<close>

lemma analyse_upstream: "analyse (P\<lparr>pl_upstream := f\<rparr>) cur body gw = analyse P cur body gw"
  by (simp add: analyse_def detector_results_def)

lemma exchange_upstream:
  assumes "\<And>b. f b key = pl_upstream P b key"
  shows "exchange (P\<lparr>pl_upstream := f\<rparr>) q ctx rid body key tx m n sm recs = exchange P q ctx rid body key tx m n sm recs"
  by (simp add: exchange_on_def assms post_response_entities_def Let_def cong: sum.case_cong prod.case_cong)

lemma handle_chat_upstream:
  assumes "\<And>b. f b key = pl_upstream P b key"
  shows "handle_chat (P\<lparr>pl_upstream := f\<rparr>) q cur body key gw = handle_chat P q cur body key gw"
  by (simp add: handle_chat_on_def analyse_upstream exchange_upstream [of f key P, OF assms] cong: sum.case_cong prod.case_cong)

section \<open>A dump is a valid request\<close>

text \<open>What is relied on of the conversions: values that have the type already are kept.\<close>

definition keeps_scalars :: "coercions \<Rightarrow> bool" where
  "keeps_scalars co = ((\<forall>b. co_bool co (JBool b) = Some b) \<and> (\<forall>x. co_float co (JFloat x) = Some x) \<and>
     (\<forall>i. co_int co (JInt i) = Some i))"

definition message_without_nulls :: "chat_message \<Rightarrow> chat_message" where
  "message_without_nulls m = m\<lparr>cm_extra := drop_none (cm_extra m)\<rparr>"

definition without_nulls :: "chat_request \<Rightarrow> chat_request" where
  "without_nulls r = r\<lparr>cq_messages := map message_without_nulls (cq_messages r), cq_extra := drop_none (cq_extra r)\<rparr>"

lemma extra_fields_append: "extra_fields fs (a @ b) = extra_fields fs a @ extra_fields fs b"
  by (simp add: extra_fields_def)

lemma extra_again: "extra_fields fs (drop_none (extra_fields fs d)) = drop_none (extra_fields fs d)"
  by (simp add: extra_fields_def drop_none_def) (rule filter_cong, auto)

lemma extra_opt: "k \<in> set fs \<Longrightarrow> extra_fields fs (dump_opt k f v) = []"
  by (cases v) (simp_all add: extra_fields_def dump_opt_def)

lemma extra_Cons: "k \<in> set fs \<Longrightarrow> extra_fields fs ((k, v) # d) = extra_fields fs d"
  by (simp add: extra_fields_def)

lemma role_of_name: "role_of (JStr (role_name r)) = Some r"
  by (cases r) (simp_all add: role_of_def)

lemma message_revalidates:
  assumes "cm_extra m = extra_fields message_fields e"
  shows "validate_message (dump_message m) = Inr (message_without_nulls m)"
proof -
  have "map_of (drop_none (cm_extra m)) k = None" if "k \<in> set message_fields" for k
    using extra_declared [OF that] assms by simp
  then have n: "map_of (drop_none (cm_extra m)) (lit ''content'') = None" by (simp add: message_fields_def)
  have "extra_fields message_fields ((lit ''role'', JStr (role_name (cm_role m))) # dump_opt (lit ''content'') JStr (cm_content m) @
     drop_none (cm_extra m)) = drop_none (cm_extra m)"
    by (simp add: extra_Cons extra_fields_append extra_opt message_fields_def assms extra_again [unfolded message_fields_def])
  then show ?thesis
    using n by (cases "cm_content m")
      (simp_all add: dump_message_def required_field_def optional_field_def invalid_unless_def role_of_name dump_opt_def
        message_without_nulls_def)
qed

lemma messages_revalidate:
  "list_all (\<lambda>m. \<exists>e. cm_extra m = extra_fields message_fields e) ms \<Longrightarrow>
     mapE validate_message (map dump_message ms) = Inr (map message_without_nulls ms)"
  by (induction ms) (auto simp: message_revalidates)

lemma dump_extra:
  assumes "validate_request co (JObj d) = Inr r"
  shows "extra_fields request_fields (dump_request r) = drop_none (cq_extra r)"
  unfolding validated_extra(1) [OF assms] dump_request_def
  by (simp add: extra_Cons extra_fields_append extra_opt request_fields_def extra_again [unfolded request_fields_def])

lemma dump_distinct:
  assumes "validate_request co (JObj d) = Inr r" "dict_ok d"
  shows "dict_ok (dump_request r)"
proof -
  have "dict_ok (drop_none (extra_fields request_fields d))"
    using assms(2) by (simp add: drop_none_def extra_fields_def distinct_map_filter)
  moreover have "k \<notin> fst ` set (drop_none (extra_fields request_fields d))" if "k \<in> set request_fields" for k
    using extra_declared [OF that, of d] by (simp add: map_of_eq_None_iff)
  ultimately show ?thesis
    unfolding dump_request_def validated_extra(1) [OF assms(1)]
    by (cases "cq_temperature r"; cases "cq_max_tokens r") (simp_all add: dump_opt_def request_fields_def)
qed

lemma dumped_lookup:
  assumes "\<And>k. k \<in> set request_fields \<Longrightarrow> map_of (drop_none (cq_extra r)) k = None"
  shows "map_of (dump_request r) (lit ''model'') = Some (JStr (cq_model r))"
    "map_of (dump_request r) (lit ''messages'') = Some (JList (map dump_message (cq_messages r)))"
    "map_of (dump_request r) (lit ''stream'') = Some (JBool (cq_stream r))"
    "map_of (dump_request r) (lit ''temperature'') = map_option JFloat (cq_temperature r)"
    "map_of (dump_request r) (lit ''max_tokens'') = map_option JInt (cq_max_tokens r)"
proof -
  have "map_of (drop_none (cq_extra r)) (lit ''temperature'') = None" "map_of (drop_none (cq_extra r)) (lit ''max_tokens'') = None"
    by (rule assms, simp add: request_fields_def)+
  then show "map_of (dump_request r) (lit ''temperature'') = map_option JFloat (cq_temperature r)"
    "map_of (dump_request r) (lit ''max_tokens'') = map_option JInt (cq_max_tokens r)"
    by (cases "cq_temperature r"; cases "cq_max_tokens r"; simp add: dump_request_def dump_opt_def)+
qed (simp_all add: dump_request_def)

section \<open>Properties\<close>

text \<open>
  C11. A request runs as the holder of its key, and as nobody else: if it changed the gateway or sent
  anything, the header carried a key whose last registration is some customer record; at most one
  audit record was added, for that customer; and only that customer's provider key was used: the
  outcome does not depend on what the provider does for any other key.
\<close>

theorem request_runs_as_key_holder:
  assumes "wb_directory W = fold (\<lambda>(k, r). register k r) regs []"
    and "chat_completions W P q v authorization body gw = (res, gw', sent)" and "gw' \<noteq> gw \<or> sent \<noteq> []"
    and "verify_chain (pl_float_repr P) (pl_writer P) (gw_audit gw) = Inr ()"
  shows "\<exists>k k' rec. authorization = Some (bearer_prefix @ k) \<and>
    find (\<lambda>(k', r). k' = py_strip k) (rev regs) = Some (k', rec) \<and>
    (gw_audit gw' = gw_audit gw \<or> (\<exists>a. gw_audit gw' = gw_audit gw @ [a] \<and> ar_customer_id a = cr_customer_id rec)) \<and>
    (\<forall>other. chat_completions W
        (P\<lparr>pl_upstream := \<lambda>b key. if key = cr_upstream_provider_key rec then pl_upstream P b key else other b key\<rparr>)
        q v authorization body gw = (res, gw', sent))"
  using assms(2,3)
proof (rule chat_completions_ran)
  fix rec v' r
  assume run: "web_authenticate W authorization v = Inr (rec, v')" "validate_request (wb_coercions W) body = Inr r"
    "\<not> cq_stream r"
    "handle_chat P q (current_customer v') (dump_request r) (cr_upstream_provider_key rec) gw = (res, gw', sent)"
  obtain ctx where ctx: "current_customer v' = Some ctx" "cc_customer_id ctx = cr_customer_id rec"
    using authenticated_context [OF run(1)] by blast
  have "gw_audit gw' = gw_audit gw \<or> (\<exists>a. gw_audit gw' = gw_audit gw @ [a] \<and> ar_customer_id a = cr_customer_id rec)"
    using handle_chat_audited [OF run(4) [unfolded ctx(1)] assms(4)] ctx(2) by (cases res) auto
  moreover have "chat_completions W
        (P\<lparr>pl_upstream := \<lambda>b key. if key = cr_upstream_provider_key rec then pl_upstream P b key else other b key\<rparr>)
        q v authorization body gw = (res, gw', sent)" for other
    using run by (simp add: chat_completions_def handle_chat_upstream)
  ultimately show ?thesis
    using authenticated_as_registered [OF assms(1) run(1)] by blast
qed

text \<open>
  C21. What leaves the gateway for a validated request: the messages become one user message, the
  joined message texts with synthetic values in place of the accepted spans, and every field the
  request model does not declare is forwarded as the caller sent it, unless it is null: text in such
  a field reaches the provider in clear.
\<close>

theorem extra_fields_in_clear:
  assumes "chat_completions W P q v authorization (JObj d) gw = (res, gw', sent)" and "b \<in> set sent" and "dict_ok d"
  shows "\<exists>ctx r tx n m syns b'. validate_request (wb_coercions W) (JObj d) = Inr r \<and> \<not> cq_stream r \<and>
    tx = join [10] (message_texts r) \<and> analyse P (Some ctx) (dump_request r) gw = Inr (tx, n, m) \<and>
    synthetic_values (pl_packs P) (rq_draws q) (cc_country_code ctx) (rq_salt q) (accepted m) syns \<and>
    sent = [JObj b'] \<and>
    map_of b' (lit ''messages'') = Some (JList [user_message (weave tx 0 (zip (accepted m) syns))]) \<and>
    map_of b' (lit ''model'') = Some (JStr (cq_model r)) \<and>
    (\<forall>k. k \<notin> set request_fields \<longrightarrow>
      map_of b' k = (case map_of d k of None \<Rightarrow> None | Some x \<Rightarrow> if x = JNull then None else Some x))"
proof -
  have "sent \<noteq> []" using assms(2) by auto
  then obtain rec v' r where run: "web_authenticate W authorization v = Inr (rec, v')"
      "validate_request (wb_coercions W) (JObj d) = Inr r" "\<not> cq_stream r"
      "handle_chat P q (current_customer v') (dump_request r) (cr_upstream_provider_key rec) gw = (res, gw', sent)"
    using chat_completions_ran [OF assms(1)] by blast
  obtain ctx where ctx: "current_customer v' = Some ctx" using authenticated_context [OF run(1)] by blast
  from handle_chat_sent [OF run(4) [unfolded ctx] assms(2)] obtain tx n m syns b' where
    b': "sent = [JObj b']" "analyse P (Some ctx) (dump_request r) gw = Inr (tx, n, m)"
      "synthetic_values (pl_packs P) (rq_draws q) (cc_country_code ctx) (rq_salt q) (accepted m) syns"
      "map_of b' (lit ''messages'') = Some (JList [user_message (weave tx 0 (zip (accepted m) syns))])"
      "\<forall>k. k \<noteq> lit ''messages'' \<longrightarrow> map_of b' k = map_of (dump_request r) k" by blast
  have "tx = join [10] (message_texts r)"
    using b'(2) validated_text [OF run(2)] by (auto simp: analyse_def bindE_eq_Inr)
  moreover have "map_of b' (lit ''model'') = Some (JStr (cq_model r))"
    using b'(5) by (simp add: dump_request_def)
  moreover have "map_of b' k = (case map_of d k of None \<Rightarrow> None | Some x \<Rightarrow> if x = JNull then None else Some x)"
    if "k \<notin> set request_fields" for k
  proof -
    have "k \<noteq> lit ''messages''" using that by (auto simp: request_fields_def)
    with b'(5) dumped_field [OF run(2) assms(3) that] show ?thesis by simp
  qed
  ultimately show ?thesis using run(2,3) b' by blast
qed

lemma newest_first:
  assumes "0 < n"
  shows "rev (slice_from xs (- int n)) = take n (rev xs)"
proof -
  have "nat (slice_bound (int (length xs)) (- int n)) = length xs - n" using assms by (simp add: slice_bound_def)
  then show ?thesis by (simp add: slice_from_def take_rev)
qed

lemma activity_page: "activity_records cid recs = take 50 (rev (own_records cid recs))"
  using newest_first [of 50 "own_records cid recs"] by (simp add: activity_records_def)

text \<open>
  The activity page follows the audit log: an answered request of a customer becomes the first
  row of that customer's page, before the 49 newest earlier ones, and leaves every other customer's
  page as it was.
\<close>

theorem activity_follows_audit:
  assumes "handle_chat P q (Some ctx) body key gw = (Inr final, gw', sent)"
    and "verify_chain (pl_float_repr P) (pl_writer P) (gw_audit gw) = Inr ()"
  shows "\<exists>a. ar_request_id a = request_id q \<and> (\<forall>cid. activity_records cid (gw_audit gw') =
    (if cid = cc_customer_id ctx then a # take 49 (activity_records cid (gw_audit gw))
     else activity_records cid (gw_audit gw)))"
proof -
  obtain a where "gw_audit gw' = gw_audit gw @ [a]" "ar_request_id a = request_id q" "ar_customer_id a = cc_customer_id ctx"
    using handle_chat_audited [OF assms] by auto
  then show ?thesis
    by (intro exI [of _ a]) (auto simp: activity_page own_records_def memory_all_def)
qed

text \<open>A detection that meets every criterion that was filled in.\<close>

definition meets_form :: "exception_form \<Rightarrow> detection \<Rightarrow> bool" where
  "meets_form f d = ((xf_rule_id f = [] \<or> d_rule_id d = Some (xf_rule_id f)) \<and>
     (xf_entity_type f = [] \<or> entity_name (d_entity_type d) = xf_entity_type f) \<and>
     (xf_text_match f = [] \<or> d_text d = xf_text_match f))"

definition blank_form :: "exception_form \<Rightarrow> bool" where
  "blank_form f = (xf_rule_id f = [] \<and> xf_entity_type f = [] \<and> xf_text_match f = [])"

lemma form_applies:
  "exception_applies (to_entry (form_exception hex cid f)) d \<longleftrightarrow> \<not> blank_form f \<and> meets_form f d"
  by (cases "d_rule_id d") (auto simp: exception_applies_def matches_anything_def to_entry_def form_exception_def or_none_def truthy_str_def
      blank_form_def meets_form_def)

lemma kept_entry:
  "x \<in> set es \<Longrightarrow> \<forall>op \<in> set ops. \<exists>ctx y. op = Add_exc ctx y \<Longrightarrow> x \<in> set (fold spec_step ops es)"
  by (induction ops arbitrary: es) auto

lemma accepted_not_exempt:
  "merge cfg tx ds xs = Inr m \<Longrightarrow> d \<in> set (accepted m) \<Longrightarrow> \<not> exempt xs d"
  by (auto simp: merge_Inr dest: survivor_again(2))

lemma merge_inert:
  assumes "\<And>d. exempt xs d = exempt ys d"
  shows "merge cfg tx ds xs = merge cfg tx ds ys"
  by (simp add: merge_def assms cong: filter_cong)

text \<open>The post is an \<open>add\<close> of the form's exception by the customer the key belongs to.\<close>

lemma posted_entry:
  assumes "post_exception W v authorization hex f gw = Inr (entries, gw1)" "web_authenticate W authorization v = Inr (rec, v')"
  shows "gw1 = gw\<lparr>gw_exceptions := gw_exceptions gw1\<rparr>"
    and "entries_of c (gw_exceptions gw1) = (if c = cr_customer_id rec
      then entries_of c (gw_exceptions gw) @ [form_exception hex (cr_customer_id rec) f] else entries_of c (gw_exceptions gw))"
proof -
  obtain ctx where ctx: "current_customer v' = Some ctx" "cc_customer_id ctx = cr_customer_id rec"
    using authenticated_context [OF assms(2)] by blast
  have "memory_exceptions.run_op (Add_exc ctx (form_exception hex (cr_customer_id rec) f)) (gw_exceptions gw) =
      Inr (gw_exceptions gw1)"
    using assms ctx by (auto simp: post_exception_def bindE_eq_Inr)
  from memory_exceptions.run_op_entries [OF this, of c] ctx(2)
  show "entries_of c (gw_exceptions gw1) = (if c = cr_customer_id rec
      then entries_of c (gw_exceptions gw) @ [form_exception hex (cr_customer_id rec) f] else entries_of c (gw_exceptions gw))"
    by auto
  show "gw1 = gw\<lparr>gw_exceptions := gw_exceptions gw1\<rparr>"
    using assms(1) by (auto simp: post_exception_def bindE_eq_Inr)
qed

lemma posted_unseen:
  assumes "post_exception W v authorization hex f gw = Inr (entries, gw1)" "web_authenticate W authorization v = Inr (rec, v')"
    and "blank_form f \<or> cc_customer_id ctx \<noteq> cr_customer_id rec"
  shows "analyse P (Some ctx) body gw1 = analyse P (Some ctx) body gw"
proof -
  have "merge (pl_merge P) tx ds (map to_entry (entries_of (cc_customer_id ctx) (gw_exceptions gw1))) =
      merge (pl_merge P) tx ds (map to_entry (entries_of (cc_customer_id ctx) (gw_exceptions gw)))" for tx ds
    using assms(3) by (intro merge_inert) (auto simp: posted_entry(2) [OF assms(1,2)] exempt_def form_applies)
  moreover have "gw_rules gw1 = gw_rules gw"
    by (subst posted_entry(1) [OF assms(1,2)]) simp
  ultimately show ?thesis by (simp add: analyse_def active_exceptions_def list_active_def)
qed

lemma posted_kept:
  assumes "post_exception W v authorization hex f gw = Inr (entries, gw1)" "web_authenticate W authorization v = Inr (rec, v')"
    and "foldE memory_exceptions.run_op ops (gw_exceptions gw1) = Inr xs"
    and "\<forall>op \<in> set ops. op_customer op = cr_customer_id rec \<longrightarrow> (\<exists>c x. op = Add_exc c x)"
  shows "form_exception hex (cr_customer_id rec) f \<in> set (entries_of (cr_customer_id rec) xs)"
proof -
  have "\<forall>op \<in> set (filter (\<lambda>op. op_customer op = cr_customer_id rec) ops). \<exists>c x. op = Add_exc c x"
    using assms(4) by simp
  then show ?thesis
    unfolding memory_exceptions.run_refines [OF assms(3)]
    by (intro kept_entry) (simp_all add: posted_entry(2) [OF assms(1,2)])
qed

text \<open>
  C22. An exception a customer posts takes effect at once and stays: as long as that customer removes
  none, whatever anybody adds and other customers remove in between, no accepted detection of a
  later request of that customer meets all the criteria that were filled in. A form with none
  filled in exempts nothing: the analysis of every request is what it was before the post, and so
  is, whatever the form, that of a request of another customer.
\<close>

theorem posted_exception_effective:
  assumes "post_exception W v authorization hex f gw = Inr (entries, gw1)"
    and "web_authenticate W authorization v = Inr (rec, v')"
  shows "(\<forall>ctx body. blank_form f \<or> cc_customer_id ctx \<noteq> cr_customer_id rec \<longrightarrow>
      analyse P (Some ctx) body gw1 = analyse P (Some ctx) body gw) \<and>
    (\<forall>ctx ops gw2 body tx n m d. \<not> blank_form f \<and> cc_customer_id ctx = cr_customer_id rec \<and>
      foldE memory_exceptions.run_op ops (gw_exceptions gw1) = Inr (gw_exceptions gw2) \<and>
      (\<forall>op \<in> set ops. op_customer op = cr_customer_id rec \<longrightarrow> (\<exists>c x. op = Add_exc c x)) \<and>
      analyse P (Some ctx) body gw2 = Inr (tx, n, m) \<and> d \<in> set (accepted m) \<longrightarrow> \<not> meets_form f d)"
proof (intro conjI allI impI; (elim conjE)?)
  fix ctx :: customer_context and body assume "blank_form f \<or> cc_customer_id ctx \<noteq> cr_customer_id rec"
  then show "analyse P (Some ctx) body gw1 = analyse P (Some ctx) body gw" by (rule posted_unseen [OF assms])
next
  fix ctx :: customer_context and ops gw2 body tx n m d
  assume h: "\<not> blank_form f" "cc_customer_id ctx = cr_customer_id rec" "d \<in> set (accepted m)"
    and run: "foldE memory_exceptions.run_op ops (gw_exceptions gw1) = Inr (gw_exceptions gw2)"
      "\<forall>op \<in> set ops. op_customer op = cr_customer_id rec \<longrightarrow> (\<exists>c x. op = Add_exc c x)"
    and "analyse P (Some ctx) body gw2 = Inr (tx, n, m)"
  then obtain ds where "merge (pl_merge P) tx ds (map to_entry (entries_of (cr_customer_id rec) (gw_exceptions gw2))) = Inr m"
    by (auto simp: analyse_def bindE_eq_Inr active_exceptions_def list_active_def)
  from accepted_not_exempt [OF this h(3)] posted_kept [OF assms run] h(1) show "\<not> meets_form f d"
    by (fastforce simp: exempt_def list_ex_iff form_applies)
qed

text \<open>
  What the pipeline is given is again a valid request: the dump of a validated request has
  distinct keys and validates to the same request without its null extra fields.
\<close>

theorem dump_revalidates:
  assumes "validate_request co (JObj d) = Inr r" and "dict_ok d" and "keeps_scalars co"
  shows "dict_ok (dump_request r) \<and> validate_request co (JObj (dump_request r)) = Inr (without_nulls r)"
proof
  show "dict_ok (dump_request r)" by (rule dump_distinct [OF assms(1,2)])
  have x: "map_of (drop_none (cq_extra r)) k = None" if "k \<in> set request_fields" for k
    using extra_declared [OF that] validated_extra(1) [OF assms(1)] by simp
  have k: "1 \<le> i" if "cq_max_tokens r = Some i" for i
    using assms(1) that by (auto simp: bindE_eq_Inr optional_field_def split: option.splits if_splits)
  note facts = dumped_lookup [OF x] messages_revalidate [OF validated_extra(2) [OF assms(1)]] dump_extra [OF assms(1)]
  show "validate_request co (JObj (dump_request r)) = Inr (without_nulls r)"
    using assms(3) k
    by (cases "cq_temperature r"; cases "cq_max_tokens r")
      (simp_all add: required_field_def optional_field_def invalid_unless_def keeps_scalars_def without_nulls_def
        facts [simplified])
qed

section \<open>Witnesses\<close>

definition sample_web :: web where
  "sample_web = \<lparr>wb_coercions = \<lparr>co_bool = (\<lambda>_. None), co_float = (\<lambda>_. None), co_int = (\<lambda>_. None)\<rparr>,
     wb_lower = id, wb_isalpha = (\<lambda>_. True), wb_directory = [(lit ''sk-1'', sample_record)]\<rparr>"

definition sample_json :: "(ustr, json) dict" where
  "sample_json = [(lit ''model'', JStr (lit ''m'')), (lit ''user'', JStr (lit ''alice'')),
     (lit ''messages'', JList [user_message two_words])]"

definition sample_chat :: chat_request where
  "sample_chat = \<lparr>cq_model = lit ''m'',
     cq_messages = [\<lparr>cm_role = User, cm_content = Some two_words, cm_extra = []\<rparr>], cq_stream = False,
     cq_temperature = None, cq_max_tokens = None, cq_extra = [(lit ''user'', JStr (lit ''alice''))]\<rparr>"

abbreviation sample_P :: pipeline where
  "sample_P \<equiv> sample_pipeline Strict (Inr []) (Inr [custom_at 2 4])"

lemma sample_validated: "validate_request (wb_coercions sample_web) (JObj sample_json) = Inr sample_chat"
  by (simp add: sample_json_def sample_chat_def required_field_def optional_field_def invalid_unless_def user_message_def
      role_of_def extra_fields_def request_fields_def message_fields_def)

lemma sample_authenticated:
  "web_authenticate sample_web (Some (lit ''Bearer sk-1'')) init_context_var =
     Inr (sample_record, snd (bind_customer sample_customer init_context_var))"
proof -
  have key: "parse_bearer (Some (lit ''Bearer sk-1'')) = Inr (lit ''sk-1'')"
    using py_strip_trimmed [of "lit ''sk-1''"]
    by (simp add: parse_bearer_def truthy_str_def bearer_prefix_def is_ws_ascii)
  show ?thesis
    unfolding authenticate_def key
    by (simp add: sample_web_def lookup_key_def plan_of_def sample_record_def mk_customer_context_def sample_customer_def)
qed

lemma sample_current: "current_customer (snd (bind_customer sample_customer init_context_var)) = Some sample_customer"
  by (simp add: bind_customer_def current_customer_def)

lemma sample_chat_answered:
  obtains final gw' sent where "handle_chat sample_P sample_request (Some sample_customer) (dump_request sample_chat) (lit ''up'') sample_gateway =
    (Inr final, gw', sent)"
proof -
  obtain r gw' sent where h: "handle_chat sample_P sample_request (Some sample_customer) (dump_request sample_chat) (lit ''up'')
    sample_gateway = (r, gw', sent)" by (rule prod_cases3)
  have t: "request_text (dump_request sample_chat) = Inr two_words"
    using validated_text [OF sample_validated] by (simp add: message_texts_def sample_chat_def map_filter_simps)
  have "\<exists>final. fst (handle_chat sample_P sample_request (Some sample_customer) (dump_request sample_chat) (lit ''up'')
    sample_gateway) = Inr final"
  proof (rule answered [OF sample_ready t two_words_scalar])
    show "retrieve list_for_customer (pl_lower sample_P) (pl_is_word sample_P) (pl_top_k sample_P) (Some sample_customer) two_words None
        (gw_rules sample_gateway) = Inr []"
      using sample_retrieve by (simp add: sample_pipeline_def sample_gateway_def)
  qed (use echo_shape in \<open>auto simp: detector_results_def sample_pipeline_def wf_detection_def custom_at_def\<close>)
  then obtain final where "r = Inr final" using h by auto
  with h that show ?thesis by blast
qed

abbreviation sample_route :: "json res \<times> gateway \<times> json list" where
  "sample_route \<equiv> chat_completions sample_web sample_P sample_request init_context_var (Some (lit ''Bearer sk-1''))
     (JObj sample_json) sample_gateway"

lemma sample_routed:
  obtains final gw' sent where "sample_route = (Inr final, gw', sent)"
    "handle_chat sample_P sample_request (Some sample_customer) (dump_request sample_chat) (lit ''up'') sample_gateway =
      (Inr final, gw', sent)"
proof -
  obtain final gw' sent where h: "handle_chat sample_P sample_request (Some sample_customer) (dump_request sample_chat) (lit ''up'')
    sample_gateway = (Inr final, gw', sent)" by (rule sample_chat_answered)
  have "cr_upstream_provider_key sample_record = lit ''up''" "\<not> cq_stream sample_chat"
    by (simp_all add: sample_record_def sample_chat_def)
  then have "sample_route = (Inr final, gw', sent)"
    unfolding chat_completions_def sample_authenticated sample_validated by (simp only: sum.case prod.case if_False sample_current h)
  then show ?thesis using h by (rule that)
qed

lemma sample_empty_chain: "verify_chain (pl_float_repr sample_P) (pl_writer sample_P) (gw_audit sample_gateway) = Inr ()"
  by (simp add: verify_chain_def sample_gateway_def)

lemma request_runs_as_key_holder_witness:
  "\<exists>final gw' sent (rec :: customer_record). sample_route = (Inr final, gw', sent) \<and> cr_customer_id rec = lit ''acme'' \<and>
    (gw_audit gw' = [] \<or> (\<exists>a :: audit_record. gw_audit gw' = [a] \<and> ar_customer_id a = cr_customer_id rec))"
proof -
  obtain final gw' sent where h: "sample_route = (Inr final, gw', sent)"
      "handle_chat sample_P sample_request (Some sample_customer) (dump_request sample_chat) (lit ''up'') sample_gateway =
      (Inr final, gw', sent)" by (rule sample_routed)
  have "sent \<noteq> []" using h(2) by (rule handle_chat_ok) auto
  then have ne: "gw' \<noteq> sample_gateway \<or> sent \<noteq> []" by simp
  have dir: "wb_directory sample_web = fold (\<lambda>(k, r). register k r) [(lit ''sk-1'', sample_record)] []"
    by (simp add: sample_web_def register_def)
  from request_runs_as_key_holder [OF dir h(1) ne sample_empty_chain] obtain k k' rec where
    "find (\<lambda>(k', r). k' = py_strip k) (rev [(lit ''sk-1'', sample_record)]) = Some (k', rec)"
    and a: "gw_audit gw' = gw_audit sample_gateway \<or>
      (\<exists>a. gw_audit gw' = gw_audit sample_gateway @ [a] \<and> ar_customer_id a = cr_customer_id rec)" by blast
  then have "rec = sample_record" by (auto split: if_splits)
  then have c: "cr_customer_id rec = lit ''acme''" by (simp add: sample_record_def)
  have "gw_audit sample_gateway = []" by (simp add: sample_gateway_def)
  with a have l: "gw_audit gw' = [] \<or> (\<exists>a :: audit_record. gw_audit gw' = [a] \<and> ar_customer_id a = cr_customer_id rec)"
    by simp
  show ?thesis by (intro exI conjI, rule h(1), rule c, rule l)
qed

lemma extra_fields_in_clear_witness:
  "\<exists>final gw' b'. sample_route = (Inr final, gw', [JObj b']) \<and> map_of b' (lit ''user'') = Some (JStr (lit ''alice''))"
proof -
  obtain final gw' sent where h: "sample_route = (Inr final, gw', sent)"
      "handle_chat sample_P sample_request (Some sample_customer) (dump_request sample_chat) (lit ''up'') sample_gateway =
      (Inr final, gw', sent)" by (rule sample_routed)
  have "sent \<noteq> []" using h(2) by (rule handle_chat_ok) auto
  then obtain b where b: "b \<in> set sent" by (cases sent) auto
  have d: "dict_ok sample_json" by (simp add: sample_json_def)
  have u: "lit ''user'' \<notin> set request_fields" by (simp add: request_fields_def)
  obtain b' where b': "sent = [JObj b']"
      "\<forall>k. k \<notin> set request_fields \<longrightarrow>
        map_of b' k = (case map_of sample_json k of None \<Rightarrow> None | Some x \<Rightarrow> if x = JNull then None else Some x)"
    using extra_fields_in_clear [OF h(1) b d] by (elim exE conjE) (rule that)
  have "map_of b' (lit ''user'') = Some (JStr (lit ''alice''))"
    using mp [OF spec [OF b'(2), of "lit ''user''"] u] by (simp add: sample_json_def)
  with h(1) b'(1) show ?thesis by blast
qed

lemma activity_follows_audit_witness:
  "\<exists>final gw' sent a. sample_route = (Inr final, gw', sent) \<and>
    activity_records (lit ''acme'') (gw_audit gw') = [a] \<and> activity_records (lit ''other'') (gw_audit gw') = []"
proof -
  obtain final gw' sent where h: "sample_route = (Inr final, gw', sent)"
      "handle_chat sample_P sample_request (Some sample_customer) (dump_request sample_chat) (lit ''up'') sample_gateway =
      (Inr final, gw', sent)" by (rule sample_routed)
  have e: "activity_records cid (gw_audit sample_gateway) = []" for cid
    by (simp add: sample_gateway_def activity_page own_records_def memory_all_def)
  from activity_follows_audit [OF h(2) sample_empty_chain] obtain a :: audit_record where
    a: "\<And>cid. activity_records cid (gw_audit gw') = (if cid = lit ''acme'' then a # take 49 [] else [])"
    unfolding e by (auto simp: sample_customer_def)
  have "activity_records (lit ''acme'') (gw_audit gw') = [a]" "activity_records (lit ''other'') (gw_audit gw') = []"
    by (simp_all add: a)
  with h(1) show ?thesis by blast
qed

lemma posted_exception_effective_witness:
  "\<exists>entries gw1 m. post_exception sample_web init_context_var (Some (lit ''Bearer sk-1'')) (lit ''0123456789abcdef'')
      \<lparr>xf_rule_id = [], xf_entity_type = [], xf_text_match = lit ''ab'', xf_note = []\<rparr> sample_gateway = Inr (entries, gw1) \<and>
    analyse sample_P (Some sample_customer) sample_body gw1 = Inr (two_words, 1, m) \<and> custom_at 2 4 \<notin> set (accepted m)"
proof -
  let ?f = "\<lparr>xf_rule_id = [], xf_entity_type = [], xf_text_match = lit ''ab'', xf_note = []\<rparr>"
  let ?x = "form_exception (lit ''0123456789abcdef'') (lit ''acme'') ?f"
  let ?gw = "sample_gateway\<lparr>gw_exceptions := \<lparr>xs_by_customer = [(lit ''acme'', [?x])]\<rparr>\<rparr>"
  have p: "post_exception sample_web init_context_var (Some (lit ''Bearer sk-1'')) (lit ''0123456789abcdef'') ?f sample_gateway =
      Inr ([to_entry ?x], ?gw)"
    unfolding post_exception_def sample_authenticated
    by (simp add: sample_current add_exception_def list_active_def sample_customer_def sample_record_def form_exception_def
        entries_of_def new_exception_store_def sample_gateway_def bind_customer_def current_customer_def)
  have ops: "foldE memory_exceptions.run_op [] (gw_exceptions ?gw) = Inr (gw_exceptions ?gw)" by simp
  have cid: "cc_customer_id sample_customer = cr_customer_id sample_record"
    by (simp add: sample_customer_def sample_record_def)
  have "\<forall>d \<in> set [custom_at 2 4]. wf_detection d" by (simp add: wf_detection_def custom_at_def)
  then obtain m where m: "merge sample_config two_words [custom_at 2 4] [to_entry ?x] = Inr m"
    using merge_resolver.resolve_total [of "[custom_at 2 4]" sample_config "[to_entry ?x]" two_words]
    by (auto simp: merge_accepted_def isOk_iff bindE_eq_Inr)
  have a: "analyse sample_P (Some sample_customer) sample_body ?gw = Inr (two_words, 1, m)"
    using sample_text_of sample_retrieve m
    by (simp add: analyse_def sample_pipeline_def sample_gateway_def detector_results_def active_exceptions_def
        list_active_def entries_of_def sample_customer_def)
  have "custom_at 2 4 \<notin> set (accepted m)"
  proof
    assume "custom_at 2 4 \<in> set (accepted m)"
    moreover have "\<not> blank_form ?f" "\<forall>op \<in> set ([] :: exception_op list). op_customer op = cr_customer_id sample_record \<longrightarrow>
        (\<exists>c x. op = Add_exc c x)" by (simp_all add: blank_form_def)
    ultimately have "\<not> meets_form ?f (custom_at 2 4)"
      using posted_exception_effective [OF p sample_authenticated] cid ops a by blast
    then show False
      by (simp add: meets_form_def custom_at_def two_words_def py_slice_def slice_bound_def)
  qed
  with p a show ?thesis by blast
qed

lemma dump_revalidates_witness:
  "validate_request \<lparr>co_bool = (\<lambda>v. case v of JBool b \<Rightarrow> Some b | _ \<Rightarrow> None),
       co_float = (\<lambda>v. case v of JFloat x \<Rightarrow> Some x | _ \<Rightarrow> None), co_int = (\<lambda>v. case v of JInt i \<Rightarrow> Some i | _ \<Rightarrow> None)\<rparr>
     (JObj (dump_request sample_chat)) = Inr (without_nulls sample_chat)"
proof -
  let ?co = "\<lparr>co_bool = (\<lambda>v. case v of JBool b \<Rightarrow> Some b | _ \<Rightarrow> None),
       co_float = (\<lambda>v. case v of JFloat x \<Rightarrow> Some x | _ \<Rightarrow> None), co_int = (\<lambda>v. case v of JInt i \<Rightarrow> Some i | _ \<Rightarrow> None)\<rparr>"
  have v: "validate_request ?co (JObj sample_json) = Inr sample_chat"
    by (simp add: sample_json_def sample_chat_def required_field_def optional_field_def invalid_unless_def user_message_def
        role_of_def extra_fields_def request_fields_def message_fields_def)
  have "dict_ok sample_json" "keeps_scalars ?co" by (simp_all add: sample_json_def keeps_scalars_def)
  from dump_revalidates [OF v this] show ?thesis by simp
qed

end
