(* ===== verification/MasterPlane.thy ===== *)
theory MasterPlane
  imports JsonAccess Sha256
begin

text \<open>
  \<open>src/master_client\<close>: the telemetry batch with its checks, and the clients of the master plane.
  Pydantic runs the field validators and turns the exceptions they raise, and values of no
  admitted type, into a validation error; \<open>build_batch\<close> turns every validation error into
  \<open>TelemetryContentLeakError\<close>. Metric values are JSON values (a Python \<open>None\<close> or container is
  admitted by no branch of the union). The server behind the HTTP client is a parameter.
\<close>

section \<open>Telemetry\<close>

definition telemetry_allowed_fields :: "ustr list" where
  "telemetry_allowed_fields = map lit [''request_count'', ''token_count_in'', ''token_count_out'',
     ''detection_count'', ''detection_count_tier_1'', ''detection_count_tier_2'', ''detection_count_tier_3'',
     ''exception_count'', ''latency_p50_ms'', ''latency_p99_ms'', ''vllm_up'', ''rule_pack_version'',
     ''software_version'', ''plan'', ''country_code'', ''window_start_epoch'', ''window_end_epoch'']"

definition categorical_values :: "(ustr, ustr list) dict" where
  "categorical_values = [(lit ''plan'', map lit [''starter'', ''professional'', ''enterprise'', ''sovereign''])]"

record telemetry_datum =
  td_name :: ustr
  td_value :: json

record telemetry_batch =
  tb_plane :: ustr
  tb_country_code :: ustr
  tb_data :: "telemetry_datum list"

definition name_in_whitelist :: "ustr \<Rightarrow> bool" where
  "name_in_whitelist v = (v \<in> set telemetry_allowed_fields)"

definition value_safe :: "json \<Rightarrow> bool" where
  "value_safe v = (case v of JStr s \<Rightarrow> \<not> 64 < length s | JInt _ \<Rightarrow> True | JFloat _ \<Rightarrow> True | JBool _ \<Rightarrow> True | _ \<Rightarrow> False)"

definition mk_datum :: "ustr \<Rightarrow> json \<Rightarrow> telemetry_datum res" where
  "mk_datum name v =
     (if name_in_whitelist name \<and> value_safe v then Inr \<lparr>td_name = name, td_value = v\<rparr> else Inl ValidationError)"

definition categorical_ok :: "telemetry_datum \<Rightarrow> bool" where
  "categorical_ok d =
     (case map_of categorical_values (td_name d) of None \<Rightarrow> True
      | Some allowed \<Rightarrow> (case td_value d of JStr s \<Rightarrow> s \<in> set allowed | _ \<Rightarrow> False))"

definition mk_batch :: "ustr \<Rightarrow> ustr \<Rightarrow> telemetry_datum list \<Rightarrow> telemetry_batch res" where
  "mk_batch plane country_code data =
     (if (plane = lit ''country'' \<or> plane = lit ''company'') \<and> length country_code = 2 \<and> list_all categorical_ok data
      then Inr \<lparr>tb_plane = plane, tb_country_code = country_code, tb_data = data\<rparr>
      else Inl ValidationError)"

definition build_batch :: "ustr \<Rightarrow> ustr \<Rightarrow> (ustr, json) dict \<Rightarrow> telemetry_batch res" where
  "build_batch plane country_code metrics =
     (case bindE (mapE (\<lambda>(k, v). mk_datum k v) metrics) (mk_batch plane country_code) of
        Inl ValidationError \<Rightarrow> Inl TelemetryContentLeakError
      | Inl e \<Rightarrow> Inl e
      | Inr batch \<Rightarrow> Inr batch)"

definition datum_dump :: "telemetry_datum \<Rightarrow> json" where
  "datum_dump d = JObj [(lit ''name'', JStr (td_name d)), (lit ''value'', td_value d)]"

definition batch_dump :: "telemetry_batch \<Rightarrow> json" where
  "batch_dump b = JObj [(lit ''plane'', JStr (tb_plane b)), (lit ''country_code'', JStr (tb_country_code b)),
     (lit ''data'', JList (map datum_dump (tb_data b)))]"

section \<open>The clients\<close>

record plan_flags =
  pf_plan :: json
  pf_failure_mode :: json
  pf_rule_edits_locked :: bool
  pf_fetched_at :: rat

text \<open>
  The server behind the client: its response to a \<open>POST\<close> of a JSON body and to a \<open>GET\<close>, with the
  headers sent. The mock reads its file through \<open>files\<close>: the parsed content of a path, or the
  exception of opening, reading or parsing it.
\<close>

record master_server =
  ms_post :: "ustr \<Rightarrow> json \<Rightarrow> (ustr, ustr) dict \<Rightarrow> http_response res"
  ms_get :: "ustr \<Rightarrow> (ustr, ustr) dict \<Rightarrow> http_response res"

record plane_client =
  pc_client :: master_server
  pc_headers :: "(ustr, ustr) dict"

definition new_plane_client :: "master_server \<Rightarrow> ustr \<Rightarrow> plane_client" where
  "new_plane_client client api_key =
     \<lparr>pc_client = client, pc_headers = [(lit ''Authorization'', lit ''Bearer '' @ api_key)]\<rparr>"

definition push_telemetry :: "plane_client \<Rightarrow> telemetry_batch \<Rightarrow> unit res" where
  "push_telemetry c batch =
     bindE (ms_post (pc_client c) (lit ''/telemetry'') (batch_dump batch) (pc_headers c))
       (\<lambda>resp. raise_for_status (fst resp))"

definition fetch_plan_flags :: "plane_client \<Rightarrow> rat \<Rightarrow> ustr \<Rightarrow> plan_flags res" where
  "fetch_plan_flags c now customer_id =
     bindE (ms_get (pc_client c) (lit ''/plans/'' @ customer_id) (pc_headers c)) (\<lambda>resp.
     bindE (response_json resp) (\<lambda>data.
     bindE (get_item data (lit ''plan'')) (\<lambda>plan.
     bindE (get_default data (lit ''failure_mode'') (JStr (lit ''strict''))) (\<lambda>failure_mode.
     bindE (get_default data (lit ''rule_edits_locked'') (JBool False)) (\<lambda>locked.
       Inr \<lparr>pf_plan = plan, pf_failure_mode = failure_mode, pf_rule_edits_locked = truthy locked,
         pf_fetched_at = now\<rparr>)))))"

definition validate_license :: "plane_client \<Rightarrow> bool res" where
  "validate_license c =
     bindE (ms_get (pc_client c) (lit ''/license'') (pc_headers c)) (\<lambda>resp. Inr (fst resp = 200))"

definition default_dev_flags_path :: ustr where
  "default_dev_flags_path = lit ''dev_plan_flags.json''"

definition mock_push_telemetry :: "telemetry_batch \<Rightarrow> unit res" where
  "mock_push_telemetry batch = Inr ()"

definition mock_fetch_plan_flags :: "(ustr \<Rightarrow> json res) \<Rightarrow> ustr \<Rightarrow> rat \<Rightarrow> ustr \<Rightarrow> plan_flags res" where
  "mock_fetch_plan_flags files dev_path now customer_id =
     (case bindE (files dev_path) (\<lambda>data.
           bindE (get_default data (lit ''plan'') (JStr (lit ''enterprise''))) (\<lambda>plan.
           bindE (get_default data (lit ''failure_mode'') (JStr (lit ''strict''))) (\<lambda>failure_mode.
           bindE (get_default data (lit ''rule_edits_locked'') (JBool False)) (\<lambda>locked.
             Inr \<lparr>pf_plan = plan, pf_failure_mode = failure_mode, pf_rule_edits_locked = truthy locked,
               pf_fetched_at = now\<rparr>)))) of
        Inl e \<Rightarrow>
          if e = FileNotFoundError \<or> e = JSONDecodeError
          then Inr \<lparr>pf_plan = JStr (lit ''enterprise''), pf_failure_mode = JStr (lit ''strict''),
                 pf_rule_edits_locked = False, pf_fetched_at = now\<rparr>
          else Inl e
      | Inr flags \<Rightarrow> Inr flags)"

definition mock_validate_license :: "bool res" where
  "mock_validate_license = Inr True"

section \<open>Lemmas\<close>

definition metric_datum :: "ustr \<times> json \<Rightarrow> telemetry_datum" where
  "metric_datum m = \<lparr>td_name = fst m, td_value = snd m\<rparr>"

definition metric_ok :: "ustr \<times> json \<Rightarrow> bool" where
  "metric_ok m = (name_in_whitelist (fst m) \<and> value_safe (snd m) \<and> categorical_ok (metric_datum m))"

lemma mk_datum_cases:
  "mk_datum k v = (if name_in_whitelist k \<and> value_safe v then Inr (metric_datum (k, v)) else Inl ValidationError)"
  by (simp add: mk_datum_def metric_datum_def)

lemma datums_cases:
  "mapE (\<lambda>(k, v). mk_datum k v) metrics =
     (if \<forall>m \<in> set metrics. name_in_whitelist (fst m) \<and> value_safe (snd m)
      then Inr (map metric_datum metrics) else Inl ValidationError)"
  by (induction metrics) (auto simp: mk_datum_cases)

lemma build_batch_cases:
  "build_batch plane cc metrics =
     (if (plane = lit ''country'' \<or> plane = lit ''company'') \<and> length cc = 2 \<and> (\<forall>m \<in> set metrics. metric_ok m)
      then Inr \<lparr>tb_plane = plane, tb_country_code = cc, tb_data = map metric_datum metrics\<rparr>
      else Inl TelemetryContentLeakError)"
proof -
  have "(\<forall>m \<in> set metrics. metric_ok m) \<longleftrightarrow> (\<forall>m \<in> set metrics. name_in_whitelist (fst m) \<and> value_safe (snd m)) \<and>
      list_all categorical_ok (map metric_datum metrics)"
    by (auto simp: metric_ok_def list_all_iff)
  then show ?thesis
    unfolding build_batch_def datums_cases by (simp add: mk_batch_def)
qed

text \<open>Which metrics are admitted, by cases on the value.\<close>

fun metric_admitted :: "ustr \<Rightarrow> json \<Rightarrow> bool" where
  "metric_admitted k (JStr s) = (k \<in> set telemetry_allowed_fields \<and>
     (if k = lit ''plan'' then s \<in> set (map lit [''starter'', ''professional'', ''enterprise'', ''sovereign''])
      else length s \<le> 64))"
| "metric_admitted k (JInt i) = (k \<in> set telemetry_allowed_fields \<and> k \<noteq> lit ''plan'')"
| "metric_admitted k (JFloat x) = (k \<in> set telemetry_allowed_fields \<and> k \<noteq> lit ''plan'')"
| "metric_admitted k (JBool b) = (k \<in> set telemetry_allowed_fields \<and> k \<noteq> lit ''plan'')"
| "metric_admitted k v = False"

lemma metric_ok_iff: "metric_ok m \<longleftrightarrow> metric_admitted (fst m) (snd m)"
  by (cases "(fst m, snd m)" rule: metric_admitted.cases)
    (auto simp: metric_ok_def name_in_whitelist_def value_safe_def categorical_ok_def
      categorical_values_def metric_datum_def split: if_splits)

definition string_content :: "json \<Rightarrow> ustr" where
  "string_content v = (case v of JStr s \<Rightarrow> s | _ \<Rightarrow> [])"

lemma value_safe_content: "value_safe v \<Longrightarrow> length (string_content v) \<le> 64"
  by (cases v) (auto simp: value_safe_def string_content_def)

lemma sum_contents: "\<forall>m \<in> set ms. length (f m) \<le> (b::nat) \<Longrightarrow> length (concat (map f ms)) \<le> b * length ms"
  by (induction ms) auto

lemma concat_chunks: "length s \<le> c * k \<Longrightarrow> concat (chunks c k s) = s"
  by (induction c arbitrary: s) auto

lemma chunks_bounds: "length (chunks c k s) = c \<and> (\<forall>x \<in> set (chunks c k s). length x \<le> k)"
  by (induction c arbitrary: s) auto

section \<open>Properties\<close>

text \<open>
  A batch is built exactly when the plane is known, the country code has two characters and
  every metric is on the whitelist, is a number, a boolean or a string of at most 64 characters,
  and, for \<open>plan\<close>, is one of the four plans; the batch then holds the metrics unchanged. Every
  other input raises \<open>TelemetryContentLeakError\<close> and nothing else.
\<close>

theorem build_batch_spec:
  "build_batch plane cc metrics =
     (if plane \<in> {lit ''country'', lit ''company''} \<and> length cc = 2 \<and>
         list_all (\<lambda>(k, v). metric_admitted k v) metrics
      then Inr \<lparr>tb_plane = plane, tb_country_code = cc, tb_data = map metric_datum metrics\<rparr>
      else Inl TelemetryContentLeakError)"
proof -
  have "list_all (\<lambda>(k, v). metric_admitted k v) metrics \<longleftrightarrow> (\<forall>m \<in> set metrics. metric_ok m)"
    by (auto simp: list_all_iff metric_ok_iff)
  then show ?thesis by (simp only: build_batch_cases) auto
qed

lemma batch_content_bound:
  assumes "dict_ok metrics" "build_batch plane cc metrics = Inr b"
  shows "length (concat (map (string_content \<circ> td_value) (tb_data b))) \<le> 1088"
proof -
  from assms(2) have ok: "\<forall>m \<in> set metrics. metric_ok m" and data: "tb_data b = map metric_datum metrics"
    by (auto simp: build_batch_cases split: if_splits)
  have "set (map fst metrics) \<subseteq> set telemetry_allowed_fields"
    using ok by (auto simp: metric_ok_def name_in_whitelist_def)
  then have "card (set (map fst metrics)) \<le> card (set telemetry_allowed_fields)"
    by (rule card_mono [rotated]) simp
  moreover have "card (set telemetry_allowed_fields) \<le> 17"
    by (rule order_trans [OF card_length]) (simp add: telemetry_allowed_fields_def)
  ultimately have "length metrics \<le> 17"
    using assms(1) by (metis distinct_card length_map order_trans)
  moreover have "length (concat (map (string_content \<circ> snd) metrics)) \<le> 64 * length metrics"
    using ok by (intro sum_contents) (auto simp: metric_ok_def value_safe_content)
  ultimately show ?thesis
    by (simp add: data comp_def metric_datum_def)
qed

lemma content_carried:
  assumes "plane = lit ''country''" "length cc = 2" "length content \<le> 1024"
  shows "\<exists>ms b. dict_ok ms \<and> build_batch plane cc ms = Inr b \<and>
    concat (map (string_content \<circ> td_value) (tb_data b)) = content"
proof -
  let ?names = "removeAll (lit ''plan'') telemetry_allowed_fields"
  let ?ms = "zip ?names (map JStr (chunks 16 64 content))"
  have names: "length ?names = 16" "distinct ?names" "set ?names \<subseteq> set telemetry_allowed_fields" "lit ''plan'' \<notin> set ?names"
    by (simp_all add: telemetry_allowed_fields_def)
  have parts: "length (chunks 16 64 content) = 16" "\<forall>x \<in> set (chunks 16 64 content). length x \<le> 64"
    using chunks_bounds [of 16 64 content] by auto
  have "metric_ok m" if m: "m \<in> set ?ms" for m
  proof -
    obtain k v where kv: "m = (k, v)" by (cases m)
    have "k \<in> set ?names" using m unfolding kv by (rule set_zip_leftD)
    moreover have "v \<in> set (map JStr (chunks 16 64 content))" using m unfolding kv by (rule set_zip_rightD)
    then obtain x where "v = JStr x" "length x \<le> 64" using parts(2) by (auto simp del: chunks.simps)
    ultimately show ?thesis using names(3,4) by (auto simp: metric_ok_iff kv simp del: set_removeAll)
  qed
  then have "build_batch plane cc ?ms =
      Inr \<lparr>tb_plane = plane, tb_country_code = cc, tb_data = map metric_datum ?ms\<rparr>"
    using assms(1,2) by (simp add: build_batch_cases)
  moreover have "map (string_content \<circ> td_value) (map metric_datum ?ms) = chunks 16 64 content"
    using names(1) parts(1)
    by (intro nth_equalityI) (simp_all add: string_content_def metric_datum_def del: chunks.simps)
  then have "concat (map (string_content \<circ> td_value) (map metric_datum ?ms)) = content"
    using assms(3) by (simp only: concat_chunks)
  moreover have "dict_ok ?ms" using names(1,2) parts(1) by simp
  ultimately show ?thesis by (metis telemetry_batch.select_convs(3))
qed

text \<open>
  C40. The bound on what a batch can carry: the strings of an accepted batch over distinct metric
  names come to at most 1088 characters, and any text of up to 1024 characters passes, cut into
  the fields that are meant for numbers.
\<close>

theorem telemetry_channel:
  assumes "plane = lit ''country''" and "length cc = 2" and "dict_ok metrics" and "length content \<le> 1024"
  shows "(build_batch plane cc metrics = Inr b \<longrightarrow>
      length (concat (map (string_content \<circ> td_value) (tb_data b))) \<le> 1088) \<and>
    (\<exists>ms b'. dict_ok ms \<and> build_batch plane cc ms = Inr b' \<and>
      concat (map (string_content \<circ> td_value) (tb_data b')) = content)"
  using batch_content_bound [OF assms(3)] content_carried [OF assms(1,2,4)] by blast

text \<open>
  The mock and the real client agree on plan flags: for the same object with a plan, in the
  file and in the answer of a server that does not fail.
\<close>

theorem mock_flags_agree:
  assumes "map_of d (lit ''plan'') = Some p"
    and "ms_get srv (lit ''/plans/'' @ cid) (pc_headers (new_plane_client srv key)) = Inr (status, Inr (JObj d))"
    and "200 \<le> status" and "status < 300" and "files path = Inr (JObj d)"
  shows "fetch_plan_flags (new_plane_client srv key) now cid = mock_fetch_plan_flags files path now cid \<and>
    isOk (fetch_plan_flags (new_plane_client srv key) now cid)"
  using assms by (simp add: fetch_plan_flags_def mock_fetch_plan_flags_def response_json_def raise_for_status_def
      new_plane_client_def)

text \<open>
  Anything but a success of the master plane is an error of the real client, a redirect included,
  while a licence is valid for the status 200 alone and refused without an error otherwise.
\<close>

lemma master_plane_status:
  assumes "ms_post srv (lit ''/telemetry'') (batch_dump b) (pc_headers (new_plane_client srv key)) = Inr (status, body)"
    and "ms_get srv (lit ''/license'') (pc_headers (new_plane_client srv key)) = Inr (status, body)"
  shows "isOk (push_telemetry (new_plane_client srv key) b) \<longleftrightarrow> 200 \<le> status \<and> status < 300"
    and "validate_license (new_plane_client srv key) = Inr (status = 200)"
  using assms by (auto simp: push_telemetry_def validate_license_def raise_for_status_def raise_if_def
      new_plane_client_def)

section \<open>Witnesses\<close>

lemma telemetry_channel_witness:
  "\<exists>ms b'. build_batch (lit ''country'') (lit ''DZ'') ms = Inr b' \<and>
    concat (map (string_content \<circ> td_value) (tb_data b')) = lit ''my NIN is 123''"
  using telemetry_channel [of "lit ''country''" "lit ''DZ''" "[]" "lit ''my NIN is 123''"] by simp blast

definition sample_server :: master_server where
  "sample_server = \<lparr>ms_post = (\<lambda>_ _ _. Inr (200, Inr JNull)),
     ms_get = (\<lambda>_ _. Inr (200, Inr (JObj [(lit ''plan'', JStr (lit ''starter''))])))\<rparr>"

lemma mock_flags_agree_witness:
  "isOk (fetch_plan_flags (new_plane_client sample_server (lit ''k'')) 5 (lit ''acme''))"
proof -
  have "map_of [(lit ''plan'', JStr (lit ''starter''))] (lit ''plan'') = Some (JStr (lit ''starter''))"
    by simp
  moreover have "ms_get sample_server (lit ''/plans/'' @ lit ''acme'') (pc_headers (new_plane_client sample_server (lit ''k''))) =
      Inr (200, Inr (JObj [(lit ''plan'', JStr (lit ''starter''))]))"
    by (simp add: sample_server_def)
  ultimately show ?thesis
    by (rule mock_flags_agree [where files = "\<lambda>_. Inr (JObj [(lit ''plan'', JStr (lit ''starter''))])", THEN conjunct2])
      simp_all
qed

end
