(* ===== verification/Concurrency.thy ===== *)
theory Concurrency
  imports PipelineProps
begin

text \<open>
  Requests in flight at the same time. \<open>handle_chat\<close> in \<open>src/proxy/pipeline.py\<close> is a coroutine: at
  each \<open>await\<close> (retrieval, the detectors, the exceptions, the upstream call) other requests and the
  dashboard may run. Between two of these points it runs alone. A request is a \<open>phase\<close> that says
  where it waits and what it holds, \<open>advance\<close> runs it to the next point, and a system of requests
  steps by advancing any of them or by somebody changing rules or exceptions.
\<close>

section \<open>A request between its await points\<close>

record chat_call =
  ca_draws :: request_draws
  ca_context :: customer_context
  ca_body :: "(ustr, json) dict"
  ca_key :: ustr

abbreviation call_id :: "chat_call \<Rightarrow> ustr" where
  "call_id c \<equiv> request_id (ca_draws c)"

datatype phase =
    Arrived
  | Retrieved ustr "rule_snippet list"
  | Detected ustr "detection list"
  | Sent nat merge_result nat forward_result
  | Replied nat merge_result nat forward_result json
  | Done "json res"

text \<open>From the provider's answer to the audit record, without an \<open>await\<close> that can suspend.\<close>

definition finish_reply_on ::
    "('b \<Rightarrow> (ustr \<times> 'b) res) \<Rightarrow> (audit_record \<Rightarrow> 'b \<Rightarrow> 'b res) \<Rightarrow> pipeline \<Rightarrow> chat_call \<Rightarrow> merge_result \<Rightarrow> nat \<Rightarrow> forward_result \<Rightarrow> json \<Rightarrow> session_map \<Rightarrow> 'b \<Rightarrow>
      json res \<times> session_map \<times> 'b" where
  "finish_reply_on latest put P c m found forward response sm recs =
     (let response_text = extract_response_text (pl_runtime P) response
      in case post_response_entities P (Some (ca_context c)) response_text of
           Inl e \<Rightarrow> (Inl e, sm, recs)
         | Inr entities \<Rightarrow>
             (case reverse_substitution (pl_aead P) (rq_clock (ca_draws c)) response_text sm
                     (fr_components_by_synthetic forward) entities of
                (Inl e, sm2) \<Rightarrow> (Inl e, sm2, recs)
              | (Inr rr, sm2) \<Rightarrow>
                  (case replace_response_text (pl_runtime P) response (rr_text rr) of
                     Inl e \<Rightarrow> (Inl e, sm2, recs)
                   | Inr final_response \<Rightarrow>
                       (case writer_record latest put (pl_aead P) (pl_float_repr P) (pl_writer P)
                               (Some (ca_context c)) (rq_audit (ca_draws c)) (call_id c) (lit ''request'')
                               (audit_payload m found rr (rq_latency_ms (ca_draws c))) recs of
                          Inl e \<Rightarrow> (Inl e, sm2, failed_record latest (pl_aead P) (pl_float_repr P) (pl_writer P)
                               (Some (ca_context c)) (rq_audit (ca_draws c)) (call_id c) (lit ''request'')
                               (audit_payload m found rr (rq_latency_ms (ca_draws c))) recs)
                        | Inr (rec, recs') \<Rightarrow> (Inr final_response, sm2, recs')))))"

abbreviation finish_reply ::
    "pipeline \<Rightarrow> chat_call \<Rightarrow> merge_result \<Rightarrow> nat \<Rightarrow> forward_result \<Rightarrow> json \<Rightarrow> session_map \<Rightarrow> audit_log \<Rightarrow>
      json res \<times> session_map \<times> audit_log" where
  "finish_reply \<equiv> finish_reply_on memory_latest_hash memory_append"

text \<open>Leaving the \<open>try\<close> block: the map in its slot, then \<open>close\<close>.\<close>

definition leave :: "chat_call \<Rightarrow> nat \<Rightarrow> session_map \<Rightarrow> 'b gateway_on \<Rightarrow> 'b gateway_on" where
  "leave c r sm gw = gw\<lparr>gw_store := store_close (call_id c) (at_slot r (gw_store gw) sm)\<rparr>"

fun advance_on ::
    "('b \<Rightarrow> (ustr \<times> 'b) res) \<Rightarrow> (audit_record \<Rightarrow> 'b \<Rightarrow> 'b res) \<Rightarrow> pipeline \<Rightarrow> chat_call \<Rightarrow> phase \<Rightarrow>
      'b gateway_on \<Rightarrow> phase \<times> 'b gateway_on \<times> json list" where
  "advance_on latest put P c Arrived gw =
     (case bindE (request_text (ca_body c)) (\<lambda>tx.
             bindE (retrieve list_for_customer (pl_lower P) (pl_is_word P) (pl_top_k P) (Some (ca_context c)) tx None (gw_rules gw))
               (\<lambda>rules. Inr (tx, rules))) of
        Inl e \<Rightarrow> (Done (Inl e), gw, [])
      | Inr (tx, rules) \<Rightarrow> (Retrieved tx rules, gw, []))"
| "advance_on latest put P c (Retrieved tx rules) gw =
     (case collect_detections (pl_log P) (pl_failure_mode P) (detector_results P (Some (ca_context c)) tx rules) of
        Inl e \<Rightarrow> (Done (Inl e), gw, [])
      | Inr ds \<Rightarrow> (Detected tx ds, gw, []))"
| "advance_on latest put P c (Detected tx ds) gw =
     (case bindE (active_exceptions (Some (ca_context c)) (gw_exceptions gw)) (merge (pl_merge P) tx ds) of
        Inl e \<Rightarrow> (Done (Inl e), gw, [])
      | Inr m \<Rightarrow>
          (case store_open (Some (ca_context c)) (rq_opened_at (ca_draws c)) (call_id c) (gw_store gw) of
             Inl e \<Rightarrow> (Done (Inl e), gw, [])
           | Inr (r, store) \<Rightarrow>
               (case apply_substitution (pl_aead P) (pl_packs P) (rq_draws (ca_draws c)) tx (accepted m) (ss_heap store ! r)
                       (cc_country_code (ca_context c)) (rq_salt (ca_draws c)) of
                  (Inl e, sm) \<Rightarrow> (Done (Inl e), leave c r sm (gw\<lparr>gw_store := store\<rparr>), [])
                | (Inr forward, sm) \<Rightarrow>
                    (Sent (length ds) m r forward, gw\<lparr>gw_store := at_slot r store sm\<rparr>,
                     [JObj (replace_messages (ca_body c) (fr_sanitised_text forward))]))))"
| "advance_on latest put P c (Sent found m r forward) gw =
     (case pl_upstream P (JObj (replace_messages (ca_body c) (fr_sanitised_text forward))) (ca_key c) of
        Inl e \<Rightarrow> (Done (Inl e), leave c r (ss_heap (gw_store gw) ! r) gw, [])
      | Inr response \<Rightarrow> (Replied found m r forward response, gw, []))"
| "advance_on latest put P c (Replied found m r forward response) gw =
     (case finish_reply_on latest put P c m found forward response (ss_heap (gw_store gw) ! r) (gw_audit gw) of
        (result, sm, recs) \<Rightarrow> (Done result, leave c r sm (gw\<lparr>gw_audit := recs\<rparr>), []))"
| "advance_on latest put P c (Done result) gw = (Done result, gw, [])"

abbreviation advance :: "pipeline \<Rightarrow> chat_call \<Rightarrow> phase \<Rightarrow> gateway \<Rightarrow> phase \<times> gateway \<times> json list" where
  "advance \<equiv> advance_on memory_latest_hash memory_append"

section \<open>Systems of requests\<close>

record 'b system_on =
  sy_gateway :: "'b gateway_on"
  sy_phases :: "phase list"
  sy_sent :: "json list list"

type_synonym system = "audit_log system_on"

definition initial :: "chat_call list \<Rightarrow> 'b gateway_on \<Rightarrow> 'b system_on" where
  "initial calls gw = \<lparr>sy_gateway = gw, sy_phases = map (\<lambda>_. Arrived) calls, sy_sent = map (\<lambda>_. []) calls\<rparr>"

definition run_call_on ::
    "('b \<Rightarrow> (ustr \<times> 'b) res) \<Rightarrow> (audit_record \<Rightarrow> 'b \<Rightarrow> 'b res) \<Rightarrow> pipeline \<Rightarrow> chat_call list \<Rightarrow> nat \<Rightarrow>
      'b system_on \<Rightarrow> 'b system_on" where
  "run_call_on latest put P calls i s =
     (case advance_on latest put P (calls ! i) (sy_phases s ! i) (sy_gateway s) of
        (ph, gw, sent) \<Rightarrow> \<lparr>sy_gateway = gw, sy_phases = (sy_phases s)[i := ph],
          sy_sent = (sy_sent s)[i := sy_sent s ! i @ sent]\<rparr>)"

abbreviation run_call :: "pipeline \<Rightarrow> chat_call list \<Rightarrow> nat \<Rightarrow> system \<Rightarrow> system" where
  "run_call \<equiv> run_call_on memory_latest_hash memory_append"

text \<open>Rules and exceptions may change to any of the given sets.\<close>

definition with_rules :: "rule_store \<Rightarrow> rule_exception_store \<Rightarrow> 'b system_on \<Rightarrow> 'b system_on" where
  "with_rules R X s = s\<lparr>sy_gateway := (sy_gateway s)\<lparr>gw_rules := R, gw_exceptions := X\<rparr>\<rparr>"

inductive sys_step_on ::
    "('b \<Rightarrow> (ustr \<times> 'b) res) \<Rightarrow> (audit_record \<Rightarrow> 'b \<Rightarrow> 'b res) \<Rightarrow> pipeline \<Rightarrow> chat_call list \<Rightarrow> rule_store set \<Rightarrow>
      rule_exception_store set \<Rightarrow> 'b system_on \<Rightarrow> 'b system_on \<Rightarrow> bool"
  for latest put P calls RS XS where
  runs: "i < length calls \<Longrightarrow> sys_step_on latest put P calls RS XS s (run_call_on latest put P calls i s)"
| changes: "R \<in> RS \<Longrightarrow> X \<in> XS \<Longrightarrow> sys_step_on latest put P calls RS XS s (with_rules R X s)"

inductive_cases sys_stepE: "sys_step_on latest put P calls RS XS s s'"

inductive sys_reachable_on ::
    "('b \<Rightarrow> (ustr \<times> 'b) res) \<Rightarrow> (audit_record \<Rightarrow> 'b \<Rightarrow> 'b res) \<Rightarrow> pipeline \<Rightarrow> chat_call list \<Rightarrow> rule_store set \<Rightarrow>
      rule_exception_store set \<Rightarrow> 'b system_on \<Rightarrow> 'b system_on \<Rightarrow> bool"
  for latest put P calls RS XS s0 where
  sys_start: "sys_reachable_on latest put P calls RS XS s0 s0"
| sys_more: "sys_reachable_on latest put P calls RS XS s0 s \<Longrightarrow> sys_step_on latest put P calls RS XS s s' \<Longrightarrow>
     sys_reachable_on latest put P calls RS XS s0 s'"

abbreviation sys_reachable ::
    "pipeline \<Rightarrow> chat_call list \<Rightarrow> rule_store set \<Rightarrow> rule_exception_store set \<Rightarrow> system \<Rightarrow> system \<Rightarrow> bool" where
  "sys_reachable \<equiv> sys_reachable_on memory_latest_hash memory_append"

definition run_schedule_on ::
    "('b \<Rightarrow> (ustr \<times> 'b) res) \<Rightarrow> (audit_record \<Rightarrow> 'b \<Rightarrow> 'b res) \<Rightarrow> pipeline \<Rightarrow> chat_call list \<Rightarrow> nat list \<Rightarrow>
      'b system_on \<Rightarrow> 'b system_on" where
  "run_schedule_on latest put P calls schedule s = fold (run_call_on latest put P calls) schedule s"

abbreviation run_schedule :: "pipeline \<Rightarrow> chat_call list \<Rightarrow> nat list \<Rightarrow> system \<Rightarrow> system" where
  "run_schedule \<equiv> run_schedule_on memory_latest_hash memory_append"

section \<open>The handler in stages\<close>

lemma exchange_stages:
  "exchange P (ca_draws c) (ca_context c) (call_id c) (ca_body c) (ca_key c) tx m n sm recs =
     (case apply_substitution (pl_aead P) (pl_packs P) (rq_draws (ca_draws c)) tx (accepted m) sm
             (cc_country_code (ca_context c)) (rq_salt (ca_draws c)) of
        (Inl e, sm1) \<Rightarrow> (Inl e, sm1, recs, [])
      | (Inr fr, sm1) \<Rightarrow>
          (case pl_upstream P (JObj (replace_messages (ca_body c) (fr_sanitised_text fr))) (ca_key c) of
             Inl e \<Rightarrow> (Inl e, sm1, recs, [JObj (replace_messages (ca_body c) (fr_sanitised_text fr))])
           | Inr resp \<Rightarrow> (case finish_reply P c m n fr resp sm1 recs of
               (res, sm2, recs') \<Rightarrow> (res, sm2, recs', [JObj (replace_messages (ca_body c) (fr_sanitised_text fr))]))))"
  unfolding exchange_on_def finish_reply_on_def Let_def
  by (auto split: sum.split prod.split)

text \<open>The outcome of a request that runs alone: what it returns and what it sends.\<close>

definition alone :: "pipeline \<Rightarrow> chat_call \<Rightarrow> gateway \<Rightarrow> json res \<times> json list" where
  "alone P c gw = (case handle_chat P (ca_draws c) (Some (ca_context c)) (ca_body c) (ca_key c) gw of
     (res, gw', sent) \<Rightarrow> (res, sent))"

lemma alone_early: "analyse P (Some (ca_context c)) (ca_body c) gw = Inl e \<Longrightarrow> alone P c gw = (Inl e, [])"
  by (simp add: alone_def handle_chat_on_def)

abbreviation own_map :: "chat_call \<Rightarrow> gateway \<Rightarrow> session_map res" where
  "own_map c gw \<equiv> new_session_map (Some (ca_context c)) (rq_opened_at (ca_draws c)) (ss_key (gw_store gw))
     (cc_customer_id (ca_context c)) (call_id c)"

lemma alone_unopened:
  assumes "analyse P (Some (ca_context c)) (ca_body c) gw = Inr a" "own_map c gw = Inl e"
  shows "alone P c gw = (Inl e, [])"
  using assms by (cases a) (simp add: alone_def handle_chat_on_def store_open_def)

lemma alone_ran:
  assumes "analyse P (Some (ca_context c)) (ca_body c) gw = Inr (tx, n, m)" "own_map c gw = Inr fresh"
  shows "alone P c gw =
    (case exchange P (ca_draws c) (ca_context c) (call_id c) (ca_body c) (ca_key c) tx m n fresh (gw_audit gw) of
       (res, sm, recs, sent) \<Rightarrow> (res, sent))"
  using assms by (simp add: alone_def handle_chat_on_def store_open_def Let_def split: prod.split)

lemma analyse_stages:
  assumes "request_text body = Inr tx"
    and "retrieve list_for_customer (pl_lower P) (pl_is_word P) (pl_top_k P) cur tx None (gw_rules gw) = Inr rules"
    and "collect_detections (pl_log P) (pl_failure_mode P) (detector_results P cur tx rules) = Inr ds"
  shows "analyse P cur body gw =
    bindE (bindE (active_exceptions cur (gw_exceptions gw)) (merge (pl_merge P) tx ds)) (\<lambda>m. Inr (tx, length ds, m))"
  using assms by (cases "active_exceptions cur (gw_exceptions gw)") (simp_all add: analyse_def)

section \<open>The audit log under interleaving\<close>

abbreviation log_ok :: "pipeline \<Rightarrow> audit_log \<Rightarrow> bool" where
  "log_ok P recs \<equiv> verify_chain (pl_float_repr P) (pl_writer P) recs = Inr ()"

text \<open>On a log that verifies, whether recording raises does not depend on the log.\<close>

lemma writer_outcome:
  assumes "verify_chain fr w recs = Inr ()"
  shows "case prepare_record A fr w cur dr rid ev payload of
      Inl e \<Rightarrow> writer_record memory_latest_hash memory_append A fr w cur dr rid ev payload recs = Inl e
    | Inr q \<Rightarrow> \<exists>rec. writer_record memory_latest_hash memory_append A fr w cur dr rid ev payload recs = Inr (rec, recs @ [rec])"
proof (cases "prepare_record A fr w cur dr rid ev payload")
  case (Inr q)
  obtain r where "seal_record w q (head_of recs) = Inr r" using seal_ok [OF Inr chain_head_ascii [OF assms]] by blast
  with Inr show ?thesis by (simp add: writer_record_def memory_latest_hash_def memory_append_def head_of_def)
qed (simp add: writer_record_def)

lemma finish_log_irrelevant:
  assumes "log_ok P recs" "log_ok P recs'"
  shows "fst (finish_reply P c m n fr resp sm recs) = fst (finish_reply P c m n fr resp sm recs')"
proof -
  have w: "writer_record memory_latest_hash memory_append (pl_aead P) (pl_float_repr P) (pl_writer P) cur dr rid ev p recs = Inl e \<longleftrightarrow>
      writer_record memory_latest_hash memory_append (pl_aead P) (pl_float_repr P) (pl_writer P) cur dr rid ev p recs' = Inl e"
    for cur dr rid ev p e
    using writer_outcome [OF assms(1), of "pl_aead P" cur dr rid ev p] writer_outcome [OF assms(2), of "pl_aead P" cur dr rid ev p]
    by (cases "prepare_record (pl_aead P) (pl_float_repr P) (pl_writer P) cur dr rid ev p") auto
  show ?thesis
    unfolding finish_reply_on_def Let_def
    by (auto split: sum.split prod.split) (metis w Inl_Inr_False Inl_inject)+
qed

lemma finish_log:
  assumes "finish_reply P c m n fr resp sm recs = (res, sm', recs')" "log_ok P recs"
  shows "log_ok P recs' \<and> (case res of Inl e \<Rightarrow> recs' = recs
    | Inr final \<Rightarrow> \<exists>rec. recs' = recs @ [rec] \<and> ar_request_id rec = call_id c \<and> ar_customer_id rec = cc_customer_id (ca_context c))"
proof (cases res)
  case (Inl e)
  then have "recs' = recs"
    using assms(1) unfolding finish_reply_on_def by (auto split: prod.splits sum.splits simp: Let_def)
  with Inl assms(2) show ?thesis by simp
next
  case (Inr final)
  then obtain p rec where
    w: "writer_record memory_latest_hash memory_append (pl_aead P) (pl_float_repr P) (pl_writer P)
      (Some (ca_context c)) (rq_audit (ca_draws c)) (call_id c) (lit ''request'') p recs = Inr (rec, recs')"
    using assms(1) unfolding finish_reply_on_def by (auto split: prod.splits sum.splits simp: Let_def)
  have "ar_request_id rec = call_id c" "ar_customer_id rec = cc_customer_id (ca_context c)"
    using w by (auto simp: writer_record_def prepare_record_def seal_record_def bindE_eq_Inr Let_def)
  with memory_backend.record_extends [OF TrueI w] assms(2) Inr show ?thesis
    by (auto simp: verify_chain_def verify_from_iff memory_all_def)
qed

section \<open>The session store under interleaving\<close>

fun slot_of :: "phase \<Rightarrow> nat option" where
  "slot_of (Sent n m r fr) = Some r"
| "slot_of (Replied n m r fr resp) = Some r"
| "slot_of _ = None"

lemma at_slot_own: "r < length (ss_heap st) \<Longrightarrow> at_slot r st (ss_heap st ! r) = st"
  by (simp add: at_slot_def)

lemma apply_reaches:
  assumes "store_reachable A st0 st" "r < length (ss_heap st)"
    and "apply_substitution A packs g tx ds (ss_heap st ! r) cc salt = (res, sm)"
  shows "store_reachable A st0 (at_slot r st sm)"
proof -
  have "store_reachable A st0 (at_slot r st (ss_heap st ! r))" using assms(1,2) by (simp add: at_slot_own)
  from apply_loop_reaches [OF this assms(2)] assms(3) show ?thesis
    by (auto simp: apply_substitution_def split: prod.splits sum.splits)
qed

lemma finish_reaches:
  assumes "store_reachable (pl_aead P) st0 st" "r < length (ss_heap st)"
    and "finish_reply P c m n fr resp (ss_heap st ! r) recs = (res, sm, recs')"
  shows "store_reachable (pl_aead P) st0 (at_slot r st sm)"
proof -
  have own: "store_reachable (pl_aead P) st0 (at_slot r st (ss_heap st ! r))" using assms(1,2) by (simp add: at_slot_own)
  have "sm = ss_heap st ! r \<or> (\<exists>t ents. sm = snd (reverse_substitution (pl_aead P) (rq_clock (ca_draws c)) t (ss_heap st ! r)
      (fr_components_by_synthetic fr) ents))"
  proof (cases "post_response_entities P (Some (ca_context c)) (extract_response_text (pl_runtime P) resp)")
    case (Inl e)
    then show ?thesis using assms(3) by (simp add: finish_reply_on_def Let_def)
  next
    case (Inr ents)
    obtain rr sm2 where rev: "reverse_substitution (pl_aead P) (rq_clock (ca_draws c)) (extract_response_text (pl_runtime P) resp)
        (ss_heap st ! r) (fr_components_by_synthetic fr) ents = (rr, sm2)" by (rule prod.exhaust)
    with assms(3) Inr have "sm = sm2"
      by (cases rr) (auto simp: finish_reply_on_def Let_def split: sum.splits prod.splits)
    with rev show ?thesis by (intro disjI2 exI [of _ "extract_response_text (pl_runtime P) resp"] exI [of _ ents]) simp
  qed
  then show ?thesis
  proof
    assume "\<exists>t ents. sm = snd (reverse_substitution (pl_aead P) (rq_clock (ca_draws c)) t (ss_heap st ! r)
      (fr_components_by_synthetic fr) ents)"
    then have "sm = snd (candidates_loop (pl_aead P) (rq_clock (ca_draws c)) 0 (fr_components_by_synthetic fr) (ss_heap st ! r))"
      by (auto simp: reverse_map_after)
    then show ?thesis using candidates_reaches [OF own assms(2)] by (metis prod.collapse)
  qed (use own in simp)
qed

text \<open>What one piece of a request does to the session store: it touches its own map and its own entry only.\<close>

definition own_effect :: "aead \<Rightarrow> chat_call \<Rightarrow> nat option \<Rightarrow> nat option \<Rightarrow> session_store \<Rightarrow> session_store \<Rightarrow> bool" where
  "own_effect A c slot slot' st st' =
     (store_reachable A st st' \<and> map_of (ss_maps st') = (map_of (ss_maps st))(call_id c := slot') \<and>
      length (ss_heap st) \<le> length (ss_heap st') \<and> ss_key st' = ss_key st \<and>
      (\<forall>r < length (ss_heap st). slot \<noteq> Some r \<longrightarrow> ss_heap st' ! r = ss_heap st ! r) \<and>
      (\<forall>r. slot' = Some r \<and> slot \<noteq> Some r \<longrightarrow> length (ss_heap st) \<le> r))"

lemma own_effect_refl:
  assumes "map_of (ss_maps st) (call_id c) = slot"
  shows "own_effect A c slot slot st st"
proof -
  have "(map_of (ss_maps st))(call_id c := slot) = map_of (ss_maps st)" unfolding assms [symmetric] by simp
  then show ?thesis by (simp add: own_effect_def store_reachable.start)
qed

lemma own_effect_trans:
  assumes "own_effect A c slot slot1 st st1" "own_effect A c slot1 slot2 st1 st2"
  shows "own_effect A c slot slot2 st st2"
proof -
  note a = assms(1)[unfolded own_effect_def] and b = assms(2)[unfolded own_effect_def]
  have "slot1 \<noteq> Some r" if "r < length (ss_heap st)" "slot \<noteq> Some r" for r using a that by force
  then have "ss_heap st2 ! r = ss_heap st ! r" if "r < length (ss_heap st)" "slot \<noteq> Some r" for r
    using a b that by simp
  moreover have "length (ss_heap st) \<le> r" if "slot2 = Some r" "slot \<noteq> Some r" for r
    using a b that by (cases "slot1 = Some r") auto
  moreover have "store_reachable A st st2" using a b store_reachable_trans by blast
  ultimately show ?thesis using a b unfolding own_effect_def by auto
qed

lemma own_effect_open:
  assumes "store_open (Some (ca_context c)) t (call_id c) st = Inr (r, st')" "map_of (ss_maps st) (call_id c) = None"
  shows "own_effect A c None (Some r) st st'"
proof -
  have "call_id c \<notin> fst ` set (ss_maps st)" using assms(2) by (simp add: map_of_eq_None_iff)
  then have "store_reachable A st st'"
    by (rule store_reachable.step [OF store_reachable.start store_step.opens [OF _ assms(1)]])
  then show ?thesis using assms(1) by (auto simp: own_effect_def store_open_Inr nth_append)
qed

lemma own_effect_write:
  assumes "store_reachable A st (at_slot r st sm)" "map_of (ss_maps st) (call_id c) = Some r"
  shows "own_effect A c (Some r) (Some r) st (at_slot r st sm)"
proof -
  have "(map_of (ss_maps st))(call_id c \<mapsto> r) = map_of (ss_maps st)" using assms(2) by (simp add: map_upd_triv)
  with assms(1) show ?thesis by (simp add: own_effect_def at_slot_def)
qed

lemma own_effect_close:
  assumes "store_reachable A st (at_slot r st sm)" "map_of (ss_maps st) (call_id c) = Some r"
  shows "own_effect A c (Some r) None st (store_close (call_id c) (at_slot r st sm))"
proof -
  have "store_reachable A st (store_close (call_id c) (at_slot r st sm))"
    by (rule store_reachable.step [OF assms(1) store_step.closes])
  moreover have "ss_heap (store_close (call_id c) (at_slot r st sm)) ! k = ss_heap st ! k"
    if "k < length (ss_heap st)" "k \<noteq> r" for k
    using that assms(2) by (simp add: store_close_nth at_slot_def)
  ultimately show ?thesis by (auto simp: own_effect_def store_close_fields at_slot_def)
qed

lemma advance_effect:
  assumes "advance P c ph gw = (ph', gw', sent)" and "map_of (ss_maps (gw_store gw)) (call_id c) = slot_of ph"
    and "\<And>r. slot_of ph = Some r \<Longrightarrow> r < length (ss_heap (gw_store gw))"
  shows "own_effect (pl_aead P) c (slot_of ph) (slot_of ph') (gw_store gw) (gw_store gw')"
proof (cases ph)
  case Arrived
  with assms(1,2) show ?thesis by (auto split: sum.splits prod.splits intro: own_effect_refl)
next
  case (Retrieved tx rules)
  with assms(1,2) show ?thesis by (auto split: sum.splits intro: own_effect_refl)
next
  case (Detected tx ds)
  consider e where "ph' = Done (Inl e)" "gw' = gw" | m r st where
      "store_open (Some (ca_context c)) (rq_opened_at (ca_draws c)) (call_id c) (gw_store gw) = Inr (r, st)"
      "(case apply_substitution (pl_aead P) (pl_packs P) (rq_draws (ca_draws c)) tx (accepted m)
          (ss_heap st ! r) (cc_country_code (ca_context c)) (rq_salt (ca_draws c)) of
        (Inl e, sm) \<Rightarrow> (Done (Inl e), leave c r sm (gw\<lparr>gw_store := st\<rparr>), [])
      | (Inr forward, sm) \<Rightarrow> (Sent (length ds) m r forward, gw\<lparr>gw_store := at_slot r st sm\<rparr>,
          [JObj (replace_messages (ca_body c) (fr_sanitised_text forward))])) = (ph', gw', sent)"
    using assms(1) Detected by (auto split: sum.splits)
  then show ?thesis
  proof cases
    case 1
    with assms(2) Detected show ?thesis by (auto intro: own_effect_refl)
  next
    case (2 m r st)
    have fresh: "map_of (ss_maps (gw_store gw)) (call_id c) = None" using assms(2) Detected by simp
    have entry: "map_of (ss_maps st) (call_id c) = Some r" and live: "r < length (ss_heap st)"
      using 2(1) by (auto simp: store_open_Inr)
    obtain a sm where a: "apply_substitution (pl_aead P) (pl_packs P) (rq_draws (ca_draws c)) tx (accepted m) (ss_heap st ! r)
        (cc_country_code (ca_context c)) (rq_salt (ca_draws c)) = (a, sm)" by (rule prod.exhaust)
    note opened = own_effect_open [OF 2(1) fresh, of "pl_aead P"]
      and reach = apply_reaches [OF store_reachable.start live a]
    show ?thesis
      using assms(1) 2(2) Detected a own_effect_trans [OF opened own_effect_close [OF reach entry]]
        own_effect_trans [OF opened own_effect_write [OF reach entry]]
      by (cases a) (auto simp: leave_def)
  qed
next
  case (Sent n m r fr)
  let ?st = "gw_store gw"
  have "r < length (ss_heap ?st)" using assms(3) Sent by simp
  then have own: "at_slot r ?st (ss_heap ?st ! r) = ?st" by (rule at_slot_own)
  have reach: "store_reachable (pl_aead P) ?st (at_slot r ?st (ss_heap ?st ! r))"
    unfolding own by (rule store_reachable.start)
  show ?thesis
    using assms(1,2) Sent own_effect_close [OF reach, of c] own_effect_refl [of ?st c]
    by (auto simp: leave_def split: sum.splits)
next
  case (Replied n m r fr resp)
  let ?st = "gw_store gw"
  obtain res sm recs where f: "finish_reply P c m n fr resp (ss_heap ?st ! r) (gw_audit gw) = (res, sm, recs)"
    by (rule prod_cases3)
  have "r < length (ss_heap ?st)" using assms(3) Replied by simp
  note reach = finish_reaches [OF store_reachable.start this f]
  show ?thesis using assms(1,2) Replied f own_effect_close [OF reach, of c] by (auto simp: leave_def)
next
  case (Done res)
  with assms(1,2) show ?thesis by (auto intro: own_effect_refl)
qed

section \<open>What a waiting request knows\<close>

definition snapshot :: "gateway \<Rightarrow> rule_store \<Rightarrow> rule_exception_store \<Rightarrow> gateway" where
  "snapshot gw R X = gw\<lparr>gw_rules := R, gw_exceptions := X\<rparr>"

lemma snapshot_fields [simp]:
  "gw_rules (snapshot gw R X) = R" "gw_exceptions (snapshot gw R X) = X"
  "gw_store (snapshot gw R X) = gw_store gw" "gw_audit (snapshot gw R X) = gw_audit gw"
  by (simp_all add: snapshot_def)

text \<open>
  Each phase agrees with the computation of the request running alone on the gateway it started in,
  with some of the rules and exceptions of the run; \<open>own\<close> is its session map.
\<close>

definition sent_ok ::
    "pipeline \<Rightarrow> rule_store set \<Rightarrow> rule_exception_store set \<Rightarrow> gateway \<Rightarrow> chat_call \<Rightarrow> nat \<Rightarrow> merge_result \<Rightarrow>
      forward_result \<Rightarrow> session_map \<Rightarrow> json list \<Rightarrow> bool" where
  "sent_ok P RS XS gw0 c n m fr sm sent =
     (sent = [JObj (replace_messages (ca_body c) (fr_sanitised_text fr))] \<and>
      (\<exists>R \<in> RS. \<exists>X \<in> XS. \<exists>tx fresh. analyse P (Some (ca_context c)) (ca_body c) (snapshot gw0 R X) = Inr (tx, n, m) \<and>
        own_map c gw0 = Inr fresh \<and>
        apply_substitution (pl_aead P) (pl_packs P) (rq_draws (ca_draws c)) tx (accepted m) fresh
          (cc_country_code (ca_context c)) (rq_salt (ca_draws c)) = (Inr fr, sm)))"

fun phase_ok ::
    "pipeline \<Rightarrow> rule_store set \<Rightarrow> rule_exception_store set \<Rightarrow> gateway \<Rightarrow> chat_call \<Rightarrow> phase \<Rightarrow> (nat \<Rightarrow> session_map) \<Rightarrow>
      json list \<Rightarrow> bool" where
  "phase_ok P RS XS gw0 c Arrived own sent = (sent = [])"
| "phase_ok P RS XS gw0 c (Retrieved tx rules) own sent =
     (sent = [] \<and> request_text (ca_body c) = Inr tx \<and>
      (\<exists>R \<in> RS. retrieve list_for_customer (pl_lower P) (pl_is_word P) (pl_top_k P) (Some (ca_context c)) tx None R = Inr rules))"
| "phase_ok P RS XS gw0 c (Detected tx ds) own sent =
     (sent = [] \<and> (\<exists>R \<in> RS. \<forall>X. analyse P (Some (ca_context c)) (ca_body c) (snapshot gw0 R X) =
        bindE (bindE (active_exceptions (Some (ca_context c)) X) (merge (pl_merge P) tx ds)) (\<lambda>m. Inr (tx, length ds, m))))"
| "phase_ok P RS XS gw0 c (Sent n m r fr) own sent = sent_ok P RS XS gw0 c n m fr (own r) sent"
| "phase_ok P RS XS gw0 c (Replied n m r fr resp) own sent =
     (sent_ok P RS XS gw0 c n m fr (own r) sent \<and>
      pl_upstream P (JObj (replace_messages (ca_body c) (fr_sanitised_text fr))) (ca_key c) = Inr resp)"
| "phase_ok P RS XS gw0 c (Done res) own sent =
     (\<exists>R \<in> RS. \<exists>X \<in> XS. alone P c (snapshot gw0 R X) = (res, sent))"

lemma phase_ok_own:
  "(\<And>r. slot_of ph = Some r \<Longrightarrow> own' r = own r) \<Longrightarrow> phase_ok P RS XS gw0 c ph own sent \<Longrightarrow> phase_ok P RS XS gw0 c ph own' sent"
  by (cases ph) auto

lemma analyse_snapshot_early:
  assumes "request_text body = Inl e \<or>
    (\<exists>tx. request_text body = Inr tx \<and>
      retrieve list_for_customer (pl_lower P) (pl_is_word P) (pl_top_k P) cur tx None (gw_rules gw) = Inl e)"
  shows "analyse P cur body gw = Inl e"
  using assms by (auto simp: analyse_def)

text \<open>A request that ends early ends as it does alone.\<close>

lemma advance_early:
  assumes "phase_ok P RS XS gw0 c ph (nth (ss_heap (gw_store gw))) sent"
    and "gw_rules gw \<in> RS" "gw_exceptions gw \<in> XS" "ss_key (gw_store gw) = ss_key (gw_store gw0)"
    and "advance P c ph gw = (Done res, gw', out)" "slot_of ph = None" "\<And>r. ph \<noteq> Done r" "\<And>tx ds. ph \<noteq> Detected tx ds"
  shows "\<exists>R \<in> RS. \<exists>X \<in> XS. alone P c (snapshot gw0 R X) = (res, sent @ out)"
proof (cases ph)
  case Arrived
  then obtain e where "res = Inl e" "out = []" "sent = []" "request_text (ca_body c) = Inl e \<or>
    (\<exists>tx. request_text (ca_body c) = Inr tx \<and>
      retrieve list_for_customer (pl_lower P) (pl_is_word P) (pl_top_k P) (Some (ca_context c)) tx None (gw_rules gw) = Inl e)"
    using assms(1,5) by (auto split: sum.splits simp: bindE_eq_Inl)
  with analyse_snapshot_early [of "ca_body c" e P "Some (ca_context c)" "snapshot gw0 (gw_rules gw) (gw_exceptions gw)"]
  have "alone P c (snapshot gw0 (gw_rules gw) (gw_exceptions gw)) = (res, sent @ out)"
    by (simp add: alone_early)
  with assms(2,3) show ?thesis by blast
next
  case (Retrieved tx rules)
  obtain e where e: "res = Inl e" "out = []" "sent = []"
      "collect_detections (pl_log P) (pl_failure_mode P) (detector_results P (Some (ca_context c)) tx rules) = Inl e"
    using assms(1,5) Retrieved by (auto split: sum.splits)
  obtain R where R: "R \<in> RS" "request_text (ca_body c) = Inr tx"
      "retrieve list_for_customer (pl_lower P) (pl_is_word P) (pl_top_k P) (Some (ca_context c)) tx None R = Inr rules"
    using assms(1) Retrieved by auto
  have "analyse P (Some (ca_context c)) (ca_body c) (snapshot gw0 R (gw_exceptions gw)) = Inl e"
    using R(2,3) e(4) by (simp add: analyse_def)
  with alone_early e R(1) assms(3) show ?thesis by fastforce
qed (use assms(6-8) in auto)

lemma advance_unopened:
  assumes "phase_ok P RS XS gw0 c ph (nth (ss_heap (gw_store gw))) sent"
    and "gw_rules gw \<in> RS" "gw_exceptions gw \<in> XS" "ss_key (gw_store gw) = ss_key (gw_store gw0)"
    and "advance P c ph gw = (ph', gw', out)" "slot_of ph = None" "\<And>r. ph' \<noteq> Done r" "\<And>tx ds. ph \<noteq> Detected tx ds"
  shows "phase_ok P RS XS gw0 c ph' (nth (ss_heap (gw_store gw'))) (sent @ out)"
proof (cases ph)
  case Arrived
  with assms(1,2,5,7) show ?thesis by (auto split: sum.splits prod.splits simp: bindE_eq_Inr)
next
  case (Retrieved tx rules)
  obtain ds where ds: "ph' = Detected tx ds" "out = []" "sent = []"
      "collect_detections (pl_log P) (pl_failure_mode P) (detector_results P (Some (ca_context c)) tx rules) = Inr ds"
    using assms(1,5,7) Retrieved by (auto split: sum.splits)
  obtain R where R: "R \<in> RS" "request_text (ca_body c) = Inr tx"
      "retrieve list_for_customer (pl_lower P) (pl_is_word P) (pl_top_k P) (Some (ca_context c)) tx None R = Inr rules"
    using assms(1) Retrieved by auto
  have "analyse P (Some (ca_context c)) (ca_body c) (snapshot gw0 R X) =
      bindE (bindE (active_exceptions (Some (ca_context c)) X) (merge (pl_merge P) tx ds)) (\<lambda>m. Inr (tx, length ds, m))" for X
    using analyse_stages [of "ca_body c" tx P "Some (ca_context c)" "snapshot gw0 R X" rules ds] R(2,3) ds(4) by simp
  with R(1) ds(1-3) show ?thesis by auto
qed (use assms(5-8) in auto)

text \<open>From the detections to the request to the provider.\<close>

lemma advance_detected:
  assumes "phase_ok P RS XS gw0 c (Detected tx ds) own sent"
    and "gw_exceptions gw \<in> XS" "ss_key (gw_store gw) = ss_key (gw_store gw0)"
    and "advance P c (Detected tx ds) gw = (ph', gw', out)"
  shows "phase_ok P RS XS gw0 c ph' (nth (ss_heap (gw_store gw'))) (sent @ out)"
proof -
  obtain R where R: "R \<in> RS" "\<And>X. analyse P (Some (ca_context c)) (ca_body c) (snapshot gw0 R X) =
      bindE (bindE (active_exceptions (Some (ca_context c)) X) (merge (pl_merge P) tx ds)) (\<lambda>m. Inr (tx, length ds, m))"
    using assms(1) by auto
  let ?gw = "snapshot gw0 R (gw_exceptions gw)"
  have s: "sent = []" using assms(1) by simp
  have ended: ?thesis if "alone P c ?gw = (res, out)" "ph' = Done res" for res
    using that s R(1) assms(2) by auto
  show ?thesis
  proof (cases "bindE (active_exceptions (Some (ca_context c)) (gw_exceptions gw)) (merge (pl_merge P) tx ds)")
    case (Inl e)
    then have early: "analyse P (Some (ca_context c)) (ca_body c) ?gw = Inl e" by (simp add: R(2))
    show ?thesis by (rule ended [of "Inl e"]) (use alone_early [OF early] assms(4) Inl in auto)
  next
    case m: (Inr m)
    then have a: "analyse P (Some (ca_context c)) (ca_body c) ?gw = Inr (tx, length ds, m)" by (simp add: R(2))
    show ?thesis
    proof (cases "store_open (Some (ca_context c)) (rq_opened_at (ca_draws c)) (call_id c) (gw_store gw)")
      case (Inl e)
      then have unopened: "own_map c ?gw = Inl e" using assms(3) by (auto simp: store_open_def bindE_eq_Inl Let_def)
      show ?thesis by (rule ended [of "Inl e"]) (use alone_unopened [OF a unopened] assms(4) m Inl in auto)
    next
      case o: (Inr rs)
      obtain r st where rs: "rs = (r, st)" by (cases rs)
      have fresh: "own_map c gw0 = Inr (ss_heap st ! r)" "r < length (ss_heap st)"
        using o rs assms(3) by (auto simp: store_open_Inr)
      obtain res sm where x: "apply_substitution (pl_aead P) (pl_packs P) (rq_draws (ca_draws c)) tx (accepted m) (ss_heap st ! r)
          (cc_country_code (ca_context c)) (rq_salt (ca_draws c)) = (res, sm)" by (rule prod.exhaust)
      show ?thesis
      proof (cases res)
        case (Inl e)
        have "alone P c ?gw = (Inl e, [])"
          using alone_ran [OF a, of "ss_heap st ! r"] fresh x Inl by (simp add: exchange_stages)
        show ?thesis by (rule ended [of "Inl e"]) (use \<open>alone P c ?gw = (Inl e, [])\<close> assms(4) m o rs x Inl in auto)
      next
        case (Inr fr)
        have "sent_ok P RS XS gw0 c (length ds) m fr sm [JObj (replace_messages (ca_body c) (fr_sanitised_text fr))]"
          unfolding sent_ok_def using R(1) assms(2) a fresh(1) x Inr by blast
        moreover have "ss_heap (at_slot r st sm) ! r = sm" using fresh(2) by (simp add: at_slot_def)
        ultimately show ?thesis using assms(4) m o rs x Inr s by auto
      qed
    qed
  qed
qed

lemma advance_open:
  assumes "phase_ok P RS XS gw0 c ph (nth (ss_heap (gw_store gw))) sent" "slot_of ph = Some r"
    and "log_ok P (gw_audit gw)" "log_ok P (gw_audit gw0)" "r < length (ss_heap (gw_store gw))"
    and "advance P c ph gw = (ph', gw', out)"
  shows "phase_ok P RS XS gw0 c ph' (nth (ss_heap (gw_store gw'))) (sent @ out)"
proof (cases ph)
  case (Sent n m r' fr)
  have ok: "sent_ok P RS XS gw0 c n m fr (ss_heap (gw_store gw) ! r') sent" using assms(1) Sent by simp
  show ?thesis
  proof (cases "pl_upstream P (JObj (replace_messages (ca_body c) (fr_sanitised_text fr))) (ca_key c)")
    case (Inl e)
    obtain R X tx fresh where R: "R \<in> RS" "X \<in> XS" "sent = [JObj (replace_messages (ca_body c) (fr_sanitised_text fr))]"
        "analyse P (Some (ca_context c)) (ca_body c) (snapshot gw0 R X) = Inr (tx, n, m)" "own_map c gw0 = Inr fresh"
        "apply_substitution (pl_aead P) (pl_packs P) (rq_draws (ca_draws c)) tx (accepted m) fresh
          (cc_country_code (ca_context c)) (rq_salt (ca_draws c)) = (Inr fr, ss_heap (gw_store gw) ! r')"
      using ok unfolding sent_ok_def by blast
    have "alone P c (snapshot gw0 R X) = (Inl e, sent)"
      using alone_ran [OF R(4), of fresh] R(3,5,6) Inl by (simp add: exchange_stages)
    with R(1,2) show ?thesis using assms(6) Sent Inl by (auto intro!: bexI [of _ R] bexI [of _ X])
  qed (use assms(6) Sent ok in auto)
next
  case (Replied n m r' fr resp)
  have up: "pl_upstream P (JObj (replace_messages (ca_body c) (fr_sanitised_text fr))) (ca_key c) = Inr resp"
    using assms(1) Replied by simp
  obtain R X tx fresh where R: "R \<in> RS" "X \<in> XS" "sent = [JObj (replace_messages (ca_body c) (fr_sanitised_text fr))]"
      "analyse P (Some (ca_context c)) (ca_body c) (snapshot gw0 R X) = Inr (tx, n, m)" "own_map c gw0 = Inr fresh"
      "apply_substitution (pl_aead P) (pl_packs P) (rq_draws (ca_draws c)) tx (accepted m) fresh
        (cc_country_code (ca_context c)) (rq_salt (ca_draws c)) = (Inr fr, ss_heap (gw_store gw) ! r')"
    using assms(1) Replied by (auto simp: sent_ok_def)
  let ?sm = "ss_heap (gw_store gw) ! r'"
  obtain res sm recs where f: "finish_reply P c m n fr resp ?sm (gw_audit gw) = (res, sm, recs)" by (rule prod_cases3)
  obtain res0 sm0 recs0 where f0: "finish_reply P c m n fr resp ?sm (gw_audit gw0) = (res0, sm0, recs0)" by (rule prod_cases3)
  have "res0 = res" using finish_log_irrelevant [OF assms(3,4), of c m n fr resp ?sm] f f0 by simp
  then have "alone P c (snapshot gw0 R X) = (res, sent)"
    using alone_ran [OF R(4), of fresh] R(3,5,6) up f0 by (simp add: exchange_stages)
  with R(1,2) show ?thesis using assms(6) Replied f by (auto intro!: bexI [of _ R] bexI [of _ X])
qed (use assms(2,6) in auto)

lemma advance_phase:
  assumes "phase_ok P RS XS gw0 c ph (nth (ss_heap (gw_store gw))) sent"
    and "gw_rules gw \<in> RS" "gw_exceptions gw \<in> XS" "ss_key (gw_store gw) = ss_key (gw_store gw0)"
    and "log_ok P (gw_audit gw)" "log_ok P (gw_audit gw0)"
    and "\<And>r. slot_of ph = Some r \<Longrightarrow> r < length (ss_heap (gw_store gw))"
    and "advance P c ph gw = (ph', gw', out)"
  shows "phase_ok P RS XS gw0 c ph' (nth (ss_heap (gw_store gw'))) (sent @ out)"
proof (cases "slot_of ph")
  case None
  show ?thesis
  proof (cases ph)
    case (Done r)
    then have "ph' = ph" "out = []" using assms(8) by auto
    with Done assms(1) show ?thesis by simp
  next
    case (Detected tx ds)
    with advance_detected [OF _ assms(3,4)] assms(1,8) show ?thesis by blast
  next
    case Arrived
    with advance_early [OF assms(1-4) _ None] advance_unopened [OF assms(1-4) assms(8) None] assms(8)
    show ?thesis by (cases ph') force+
  next
    case (Retrieved tx rules)
    with advance_early [OF assms(1-4) _ None] advance_unopened [OF assms(1-4) assms(8) None] assms(8)
    show ?thesis by (cases ph') force+
  qed (use None in auto)
next
  case (Some r)
  show ?thesis by (rule advance_open [OF assms(1) Some assms(5,6) assms(7)[OF Some] assms(8)])
qed

lemma advance_keeps:
  assumes "advance P c ph gw = (ph', gw', out)"
  shows "gw_rules gw' = gw_rules gw" "gw_exceptions gw' = gw_exceptions gw"
  using assms by (cases ph; auto simp: leave_def split: sum.splits prod.splits)+

definition answered_phase :: "phase \<Rightarrow> bool" where
  "answered_phase ph \<longleftrightarrow> (\<exists>final. ph = Done (Inr final))"

lemma advance_log:
  assumes "advance P c ph gw = (ph', gw', out)" "log_ok P (gw_audit gw)"
  shows "log_ok P (gw_audit gw') \<and>
    (if answered_phase ph' = answered_phase ph then gw_audit gw' = gw_audit gw
     else answered_phase ph' \<and> (\<exists>rec. gw_audit gw' = gw_audit gw @ [rec] \<and> ar_request_id rec = call_id c \<and>
       ar_customer_id rec = cc_customer_id (ca_context c)))"
proof (cases ph)
  case (Replied n m r fr resp)
  obtain res sm recs where f: "finish_reply P c m n fr resp (ss_heap (gw_store gw) ! r) (gw_audit gw) = (res, sm, recs)"
    by (rule prod_cases3)
  show ?thesis using finish_log [OF f assms(2)] assms(1) Replied f
    by (cases res) (auto simp: answered_phase_def leave_def)
qed (use assms in \<open>auto simp: answered_phase_def leave_def split: sum.splits prod.splits\<close>)

end
