(* ===== verification/PgAudit.thy ===== *)
theory PgAudit
  imports AuditLog Postgres
begin

text \<open>
  \<open>src/audit/postgres_backend.py\<close>: the audit backend on a database table. The state is the table
  in insertion order, the transaction time each insert gets from the database clock
  (\<open>created_at timestamptz DEFAULT now()\<close>, in microseconds), and the process's cached latest hash.
  \<open>SELECT\<close> orders by that time and then by the record identifier. Another process on the same
  database is a state with the same table and a cache of its own.
\<close>

section \<open>The order of the log\<close>

datatype log_key = Log_key int ustr

instantiation log_key :: linorder
begin

fun less_eq_log_key :: "log_key \<Rightarrow> log_key \<Rightarrow> bool" where
  "less_eq_log_key (Log_key t i) (Log_key t' i') = (t < t' \<or> t = t' \<and> i \<le> i')"

fun less_log_key :: "log_key \<Rightarrow> log_key \<Rightarrow> bool" where
  "less_log_key (Log_key t i) (Log_key t' i') = (t < t' \<or> t = t' \<and> i < i')"

instance
proof
  fix x y z :: log_key
  show "x < y \<longleftrightarrow> x \<le> y \<and> \<not> y \<le> x" by (cases x; cases y) auto
  show "x \<le> x" by (cases x) simp
  show "x \<le> y \<Longrightarrow> y \<le> z \<Longrightarrow> x \<le> z" by (cases x; cases y; cases z) auto
  show "x \<le> y \<Longrightarrow> y \<le> x \<Longrightarrow> x = y" by (cases x; cases y) auto
  show "x \<le> y \<or> y \<le> x" by (cases x; cases y) auto
qed

end

section \<open>The backend\<close>

record log_row =
  lr_created_at :: int
  lr_record :: audit_record

record pg_audit =
  pa_rows :: "log_row list"
  pa_clock :: "nat \<Rightarrow> int"
  pa_cached :: "ustr option"

definition new_pg_audit :: "(nat \<Rightarrow> int) \<Rightarrow> log_row list \<Rightarrow> pg_audit" where
  "new_pg_audit clock rows = \<lparr>pa_rows = rows, pa_clock = clock, pa_cached = None\<rparr>"

definition row_key :: "log_row \<Rightarrow> log_key" where
  "row_key x = Log_key (lr_created_at x) (ar_record_id (lr_record x))"

text \<open>
  A record whose texts the table takes. The record identifier is the primary key; a second insert of it is
  a unique violation. A lost connection is not part of this model. \<open>Schema\<close> has the same statement over
  the columns of the table and their checks (\<open>audit_table_refines\<close>).
\<close>

definition record_storable :: "audit_record \<Rightarrow> bool" where
  "record_storable rec =
     (text_ok (ar_record_id rec) \<and> text_ok (ar_customer_id rec) \<and> text_ok (ar_request_id rec) \<and> text_ok (ar_event_type rec) \<and>
      text_ok (ar_content_hash rec) \<and> text_ok (ar_prev_hash rec) \<and> text_ok (ar_hmac_signature rec))"

definition pg_insert :: "audit_record \<Rightarrow> pg_audit \<Rightarrow> pg_audit res" where
  "pg_insert rec b =
     (if \<not> record_storable rec then Inl (ExternalError 22021)
      else if ar_record_id rec \<in> (ar_record_id \<circ> lr_record) ` set (pa_rows b) then Inl (ExternalError 23505)
      else Inr (b\<lparr>pa_rows := pa_rows b @ [\<lparr>lr_created_at = pa_clock b (length (pa_rows b)), lr_record = rec\<rparr>]\<rparr>))"

definition pg_select_all :: "pg_audit \<Rightarrow> audit_record list" where
  "pg_select_all b = map lr_record (sort_key row_key (pa_rows b))"

definition pg_select_latest :: "pg_audit \<Rightarrow> ustr" where
  "pg_select_latest b =
     (case rev (sort_key row_key (pa_rows b)) of [] \<Rightarrow> genesis_hash | x # _ \<Rightarrow> ar_content_hash (lr_record x))"

definition pg_append :: "audit_record \<Rightarrow> pg_audit \<Rightarrow> pg_audit res" where
  "pg_append rec b = bindE (pg_insert rec b) (\<lambda>b'. Inr (b'\<lparr>pa_cached := Some (ar_content_hash rec)\<rparr>))"

definition pg_latest_hash :: "pg_audit \<Rightarrow> (ustr \<times> pg_audit) res" where
  "pg_latest_hash b =
     (case pa_cached b of Some h \<Rightarrow> Inr (h, b)
      | None \<Rightarrow> let latest = pg_select_latest b in Inr (latest, b\<lparr>pa_cached := Some latest\<rparr>))"

section \<open>One process whose database clock advances\<close>

text \<open>
  Rows got increasing times, their texts are texts of the table, and the cache is empty or holds the head of
  the log.
\<close>

definition pg_sound :: "pg_audit \<Rightarrow> bool" where
  "pg_sound b =
     (strict_mono (pa_clock b) \<and> map lr_created_at (pa_rows b) = map (pa_clock b) [0..<length (pa_rows b)] \<and>
      (\<forall>x \<in> set (pa_rows b). record_storable (lr_record x)) \<and>
      (pa_cached b = None \<or> pa_cached b = Some (head_of (pg_select_all b))))"

definition pg_accepts :: "audit_record \<Rightarrow> pg_audit \<Rightarrow> bool" where
  "pg_accepts rec b = (record_storable rec \<and> ar_record_id rec \<notin> (ar_record_id \<circ> lr_record) ` set (pa_rows b))"

text \<open>What the writer adds to a record, its hashes, are texts of the table.\<close>

lemma hex_text_ok: "\<forall>x \<in> set bs. x < 256 \<Longrightarrow> text_ok (to_hex bs)"
  using to_hex_alphabet [of bs] by (intro text_ok_ascii) fastforce

lemma prepared_hash_ok:
  "prepare_record A fr w cur dr rid ev p = Inr q \<Longrightarrow> text_ok (ar_content_hash q) \<and> ar_prev_hash q = [] \<and> ar_hmac_signature q = []"
  by (auto simp: prepare_record_def body_hash_def sha256_hex_def bindE_eq_Inr Let_def intro!: hex_text_ok sha256_bytes)

lemma sealed_storable:
  assumes "seal_record w q h = Inr r" "text_ok h" "record_storable q"
  shows "record_storable r"
  using assms
  by (auto simp: seal_record_def chain_signature_def bindE_eq_Inr record_storable_def intro!: hex_text_ok hmac_bytes)

lemma sound_sorted:
  assumes "strict_mono c" "map lr_created_at rows = map c [0..<length rows]"
  shows "sort_key row_key rows = rows"
proof -
  have t: "lr_created_at (rows ! i) = c i" if "i < length rows" for i
    using arg_cong [OF assms(2), of "\<lambda>xs. xs ! i"] that by simp
  have "sorted (map row_key rows)"
    unfolding sorted_iff_nth_mono_less
  proof (intro allI impI)
    fix i j assume ij: "i < j" "j < length (map row_key rows)"
    then have "c i < c j" using assms(1) by (simp add: strict_mono_less)
    then show "map row_key rows ! i \<le> map row_key rows ! j"
      using ij t [of i] t [of j] by (simp add: row_key_def)
  qed
  then show ?thesis by (rule sort_key_id_if_sorted)
qed

lemma sound_select_all: "pg_sound b \<Longrightarrow> pg_select_all b = map lr_record (pa_rows b)"
  using sound_sorted unfolding pg_sound_def pg_select_all_def by metis

lemma select_latest_head: "pg_select_latest b = head_of (pg_select_all b)"
  unfolding pg_select_latest_def pg_select_all_def head_of_def
  by (cases "sort_key row_key (pa_rows b)" rule: rev_cases) auto

lemma pg_latest_sound:
  assumes "pg_sound b" "pg_latest_hash b = Inr (h, b')"
  shows "h = head_of (pg_select_all b) \<and> pg_select_all b' = pg_select_all b \<and> pg_sound b' \<and> pa_rows b' = pa_rows b"
  using assms
  by (auto simp: pg_latest_hash_def select_latest_head pg_sound_def Let_def pg_select_all_def split: option.splits)

lemma pg_append_sound:
  assumes "pg_sound b" "pg_append r b = Inr b'"
  shows "pg_select_all b' = pg_select_all b @ [r] \<and> pg_sound b'"
proof -
  from assms(2) have b': "b' = b\<lparr>pa_rows := pa_rows b @ [\<lparr>lr_created_at = pa_clock b (length (pa_rows b)), lr_record = r\<rparr>],
      pa_cached := Some (ar_content_hash r)\<rparr>"
    and storable: "record_storable r"
    by (auto simp: pg_append_def pg_insert_def split: if_splits)
  have c: "strict_mono (pa_clock b')" "map lr_created_at (pa_rows b') = map (pa_clock b') [0..<length (pa_rows b')]"
    using assms(1) by (simp_all add: pg_sound_def b')
  then have "pg_select_all b' = map lr_record (pa_rows b')" by (simp add: pg_select_all_def sound_sorted)
  with sound_select_all [OF assms(1)] have "pg_select_all b' = pg_select_all b @ [r]" by (simp add: b')
  moreover from this c storable assms(1) have "pg_sound b'" by (simp add: pg_sound_def b')
  ultimately show ?thesis by blast
qed

lemma genesis_text_ok: "text_ok genesis_hash"
  by (rule text_ok_ascii) (simp add: genesis_hash_def)

lemma head_text_ok:
  assumes "pg_sound b"
  shows "text_ok (head_of (pg_select_all b))"
proof (cases "pa_rows b = []")
  case True
  then show ?thesis using genesis_text_ok by (simp add: pg_select_all_def head_of_def)
next
  case False
  then have "record_storable (lr_record (last (pa_rows b)))" using assms by (simp add: pg_sound_def)
  with False show ?thesis
    by (simp add: sound_select_all [OF assms] head_of_def last_map record_storable_def)
qed

interpretation pg_log: log_backend pg_latest_hash pg_append pg_select_all pg_sound pg_accepts
proof unfold_locales
  fix b :: pg_audit and b' h r
  show "pg_sound b \<Longrightarrow> pg_latest_hash b = Inr (h, b') \<Longrightarrow>
      h = head_of (pg_select_all b) \<and> pg_select_all b' = pg_select_all b \<and> pg_sound b'"
    using pg_latest_sound by blast
  show "pg_sound b \<Longrightarrow> pg_append r b = Inr b' \<Longrightarrow> pg_select_all b' = pg_select_all b @ [r] \<and> pg_sound b'"
    by (rule pg_append_sound)
  show "pg_sound b \<Longrightarrow> \<exists>h b'. pg_latest_hash b = Inr (h, b') \<and> pg_accepts r b' = pg_accepts r b"
    by (auto simp: pg_latest_hash_def pg_accepts_def Let_def split: option.splits)
  show "pg_sound b \<Longrightarrow> pg_accepts r b \<Longrightarrow> \<exists>b'. pg_append r b = Inr b'"
    by (simp add: pg_append_def pg_insert_def pg_accepts_def)
next
  fix b :: pg_audit and q w r
  assume "pg_sound b" "pg_accepts q b" "seal_record w q (head_of (pg_select_all b)) = Inr r"
  then show "pg_accepts r b"
    using sealed_storable [OF _ head_text_ok, of w q b r] by (auto simp: pg_accepts_def seal_record_def bindE_eq_Inr)
qed

section \<open>Writing a sequence of records\<close>

record audit_job =
  aj_scope :: scope
  aj_draws :: audit_draws
  aj_request_id :: ustr
  aj_event_type :: ustr
  aj_payload :: json

definition write_jobs ::
    "('b \<Rightarrow> (ustr \<times> 'b) res) \<Rightarrow> (audit_record \<Rightarrow> 'b \<Rightarrow> 'b res) \<Rightarrow> aead \<Rightarrow> (pyfloat \<Rightarrow> ustr) \<Rightarrow>
      audit_writer \<Rightarrow> audit_job list \<Rightarrow> 'b \<Rightarrow> 'b res" where
  "write_jobs latest put A fr w =
     foldE (\<lambda>j b. bindE (writer_record latest put A fr w (aj_scope j) (aj_draws j) (aj_request_id j)
       (aj_event_type j) (aj_payload j) b) (\<lambda>(r, b'). Inr b'))"

lemma write_jobs_simps [simp]:
  "write_jobs latest put A fr w [] b = Inr b"
  "write_jobs latest put A fr w (j # jobs) b =
     bindE (writer_record latest put A fr w (aj_scope j) (aj_draws j) (aj_request_id j) (aj_event_type j) (aj_payload j) b)
       (\<lambda>(r, b'). write_jobs latest put A fr w jobs b')"
  by (auto simp: write_jobs_def bindE_def split: sum.splits prod.splits)

definition logged_ids :: "pg_audit \<Rightarrow> ustr set" where
  "logged_ids b = ar_record_id ` set (pg_select_all b)"

lemma accepts_iff: "pg_accepts r b \<longleftrightarrow> record_storable r \<and> ar_record_id r \<notin> logged_ids b"
  by (auto simp: pg_accepts_def logged_ids_def pg_select_all_def image_comp)

text \<open>What a job brings to the table: its identifiers, the customer it runs for, and the event.\<close>

definition job_storable :: "audit_job \<Rightarrow> bool" where
  "job_storable j =
     (text_ok (ad_uuid (aj_draws j)) \<and> option_ok (map_option cc_customer_id (aj_scope j)) \<and>
      text_ok (aj_request_id j) \<and> text_ok (aj_event_type j))"

lemma prepared_storable:
  assumes "prepare_record A fr w cur dr rid ev p = Inr q"
    and "text_ok (ad_uuid dr)" "option_ok (map_option cc_customer_id cur)" "text_ok rid" "text_ok ev"
  shows "record_storable q"
proof -
  have "text_ok []" by (simp add: text_ok_ascii)
  with assms prepared_hash_ok [OF assms(1)] show ?thesis
    by (cases cur) (auto simp: record_storable_def prepare_record_def bindE_eq_Inr Let_def)
qed

lemma prepared_id: "prepare_record A fr w cur dr rid ev p = Inr q \<Longrightarrow> ar_record_id q = ad_uuid dr"
  by (auto simp: prepare_record_def bindE_eq_Inr Let_def)

lemma written_id:
  "writer_record latest put A fr w cur dr rid ev p b = Inr (r, b') \<Longrightarrow> ar_record_id r = ad_uuid dr"
  by (auto simp: writer_record_def seal_record_def bindE_eq_Inr dest!: prepared_id)

lemma write_jobs_as_memory:
  assumes "pg_sound b" and "distinct (map (ad_uuid \<circ> aj_draws) jobs)"
    and "(ad_uuid \<circ> aj_draws) ` set jobs \<inter> logged_ids b = {}" and "\<forall>j \<in> set jobs. job_storable j"
  shows "case write_jobs pg_latest_hash pg_append A fr w jobs b of
      Inl e \<Rightarrow> write_jobs memory_latest_hash memory_append A fr w jobs (pg_select_all b) = Inl e
    | Inr b' \<Rightarrow> pg_sound b' \<and>
        write_jobs memory_latest_hash memory_append A fr w jobs (pg_select_all b) = Inr (pg_select_all b')"
  using assms
proof (induction jobs arbitrary: b)
  case Nil
  then show ?case by simp
next
  case (Cons j jobs)
  let ?pg = "writer_record pg_latest_hash pg_append A fr w (aj_scope j) (aj_draws j) (aj_request_id j) (aj_event_type j) (aj_payload j)"
  let ?mem = "writer_record memory_latest_hash memory_append A fr w (aj_scope j) (aj_draws j) (aj_request_id j) (aj_event_type j) (aj_payload j)"
  have fresh: "ad_uuid (aj_draws j) \<notin> logged_ids b" using Cons.prems(3) by auto
  have step: "case ?pg b of Inl e \<Rightarrow> ?mem (pg_select_all b) = Inl e
      | Inr (r, b') \<Rightarrow> pg_sound b' \<and> ?mem (pg_select_all b) = Inr (r, pg_select_all b')"
  proof (rule pg_log.record_as_memory [OF Cons.prems(1)])
    fix q
    assume q: "prepare_record A fr w (aj_scope j) (aj_draws j) (aj_request_id j) (aj_event_type j) (aj_payload j) = Inr q"
    show "pg_accepts q b"
      using prepared_storable [OF q] Cons.prems(4) fresh by (simp add: accepts_iff prepared_id [OF q] job_storable_def)
  qed
  show ?case
  proof (cases "?pg b")
    case (Inl e)
    with step show ?thesis by simp
  next
    case (Inr rb)
    obtain r b' where rb: "rb = (r, b')" by (cases rb)
    have w: "pg_sound b'" "?mem (pg_select_all b) = Inr (r, pg_select_all b')" using step Inr rb by simp_all
    have "pg_select_all b' = pg_select_all b @ [r]"
      using pg_log.record_extends(1) [OF Cons.prems(1) Inr [unfolded rb]] .
    then have "logged_ids b' = insert (ad_uuid (aj_draws j)) (logged_ids b)"
      using written_id [OF Inr [unfolded rb]] by (simp add: logged_ids_def)
    then have fresh: "(ad_uuid \<circ> aj_draws) ` set jobs \<inter> logged_ids b' = {}"
      using Cons.prems(2,3) by auto
    have ids: "distinct (map (ad_uuid \<circ> aj_draws) jobs)" using Cons.prems(2) by (simp add: comp_def)
    have IH: "case write_jobs pg_latest_hash pg_append A fr w jobs b' of
        Inl e \<Rightarrow> write_jobs memory_latest_hash memory_append A fr w jobs (pg_select_all b') = Inl e
      | Inr b'' \<Rightarrow> pg_sound b'' \<and>
          write_jobs memory_latest_hash memory_append A fr w jobs (pg_select_all b') = Inr (pg_select_all b'')"
      by (rule Cons.IH [OF w(1) ids fresh]) (use Cons.prems(4) in simp)
    then show ?thesis using Inr rb w(2) by (simp split: sum.splits)
  qed
qed

text \<open>
  The specification of the table: the in-memory log, except that a record with a text that Postgres
  cannot store is refused, and so is one whose identifier is in the log.
\<close>

definition table_append :: "audit_record \<Rightarrow> audit_record list \<Rightarrow> audit_record list res" where
  "table_append rec recs =
     (if \<not> record_storable rec then Inl (ExternalError 22021)
      else if ar_record_id rec \<in> ar_record_id ` set recs then Inl (ExternalError 23505)
      else memory_append rec recs)"

lemma pg_append_table:
  assumes "pg_sound b"
  shows "case pg_append r b of Inl e \<Rightarrow> table_append r (pg_select_all b) = Inl e
    | Inr b' \<Rightarrow> pg_sound b' \<and> table_append r (pg_select_all b) = Inr (pg_select_all b')"
proof (cases "pg_append r b")
  case (Inl e)
  then show ?thesis
    by (auto simp: pg_append_def pg_insert_def table_append_def pg_select_all_def image_comp split: if_splits)
next
  case (Inr b')
  then have "record_storable r" "ar_record_id r \<notin> ar_record_id ` set (pg_select_all b)"
    by (auto simp: pg_append_def pg_insert_def pg_select_all_def image_comp split: if_splits)
  with Inr pg_append_sound [OF assms Inr] show ?thesis by (simp add: table_append_def memory_append_def)
qed

lemma record_as_table:
  assumes "pg_sound b"
  shows "case writer_record pg_latest_hash pg_append A fr w cur dr rid ev p b of
      Inl e \<Rightarrow> writer_record memory_latest_hash table_append A fr w cur dr rid ev p (pg_select_all b) = Inl e
    | Inr (r, b') \<Rightarrow> pg_sound b' \<and>
        writer_record memory_latest_hash table_append A fr w cur dr rid ev p (pg_select_all b) = Inr (r, pg_select_all b')"
proof (cases "prepare_record A fr w cur dr rid ev p")
  case (Inl e)
  then show ?thesis by (simp add: writer_record_def)
next
  case (Inr q)
  obtain h b1 where l: "pg_latest_hash b = Inr (h, b1)" using pg_log.latest_total [OF assms] by blast
  have h: "memory_latest_hash (pg_select_all b) = Inr (h, pg_select_all b)" "pg_sound b1" "pg_select_all b1 = pg_select_all b"
    using pg_latest_sound [OF assms l] by (simp_all add: memory_latest_hash_def head_of_def)
  show ?thesis
  proof (cases "seal_record w q h")
    case sealed: (Inr r)
    from pg_append_table [OF h(2), of r] show ?thesis
      by (cases "pg_append r b1") (simp_all add: writer_record_def Inr l h sealed)
  qed (use Inr l h(1) in \<open>simp add: writer_record_def\<close>)
qed

lemma write_jobs_as_table:
  assumes "pg_sound b"
  shows "(case write_jobs pg_latest_hash pg_append A fr w jobs b of Inl e \<Rightarrow> Inl e | Inr b' \<Rightarrow> Inr (pg_select_all b')) =
    write_jobs memory_latest_hash table_append A fr w jobs (pg_select_all b)"
  using assms
proof (induction jobs arbitrary: b)
  case (Cons j jobs)
  let ?pg = "writer_record pg_latest_hash pg_append A fr w (aj_scope j) (aj_draws j) (aj_request_id j) (aj_event_type j) (aj_payload j)"
  from record_as_table [OF Cons.prems, of A fr w "aj_scope j" "aj_draws j" "aj_request_id j" "aj_event_type j" "aj_payload j"]
  show ?case using Cons.IH by (cases "?pg b") (auto split: prod.splits)
qed simp

section \<open>Properties\<close>

text \<open>
  C16. The database backend implements the in-memory one as long as one process writes and the
  database clock advances between inserts. Writing any sequence of records has the outcome, the same
  exception or a log with the same records in the same order, that it has over the in-memory log with the two
  refusals of the table: a text that Postgres cannot store, and an identifier that is already there.
  When the identifiers are fresh and the texts storable, that is the outcome of the in-memory backend.
\<close>

theorem pg_refines_memory:
  assumes "strict_mono clock"
  shows "(case write_jobs pg_latest_hash pg_append A fr w jobs (new_pg_audit clock []) of
      Inl e \<Rightarrow> Inl e | Inr b \<Rightarrow> Inr (pg_select_all b)) =
    write_jobs memory_latest_hash table_append A fr w jobs [] \<and>
    (distinct (map (ad_uuid \<circ> aj_draws) jobs) \<and> (\<forall>j \<in> set jobs. job_storable j) \<longrightarrow>
      write_jobs memory_latest_hash table_append A fr w jobs [] = write_jobs memory_latest_hash memory_append A fr w jobs [])"
proof -
  let ?b = "new_pg_audit clock []"
  have b: "pg_sound ?b" "pg_select_all ?b = []" "logged_ids ?b = {}"
    using assms by (simp_all add: pg_sound_def new_pg_audit_def pg_select_all_def logged_ids_def)
  note table = write_jobs_as_table [OF b(1), of A fr w jobs, unfolded b(2)]
  have "write_jobs memory_latest_hash table_append A fr w jobs [] = write_jobs memory_latest_hash memory_append A fr w jobs []"
    if "distinct (map (ad_uuid \<circ> aj_draws) jobs)" "\<forall>j \<in> set jobs. job_storable j"
    using write_jobs_as_memory [of ?b jobs A fr w] that b table by (simp split: sum.splits)
  with table show ?thesis by blast
qed

text \<open>
  A second process forks the chain: after another process appended to the table, a process
  that has cached the latest hash chains its next record to the hash it remembers, however long
  after, and the log no longer verifies (unless the other process's body hashes to the hash it
  followed).
\<close>

theorem stale_cache_forks_chain:
  assumes "pg_sound b" and "pa_cached b = Some h" and "verify_chain fr w (pg_select_all b) = Inr ()"
    and "writer_record pg_latest_hash pg_append A fr w cur2 dr2 rid2 ev2 p2 (b\<lparr>pa_cached := None\<rparr>) = Inr (r2, b2)"
    and "writer_record pg_latest_hash pg_append A fr w cur3 dr3 rid3 ev3 p3 (b2\<lparr>pa_cached := Some h\<rparr>) = Inr (r3, b3)"
  shows "verify_chain fr w (pg_select_all b2) = Inr () \<and>
    (verify_chain fr w (pg_select_all b3) = Inl (AuditChainBroken (ar_record_id r3)) \<or> ar_content_hash r2 = h)"
proof -
  have h: "h = head_of (pg_select_all b)" using assms(1,2) by (simp add: pg_sound_def)
  have s: "pg_sound (b\<lparr>pa_cached := None\<rparr>)" "pg_select_all (b\<lparr>pa_cached := None\<rparr>) = pg_select_all b"
    using assms(1) by (simp_all add: pg_sound_def pg_select_all_def)
  note r2 = pg_log.record_extends [OF s(1) assms(4), unfolded s(2)]
  have c2: "chain_from fr (aw_hmac_key w) genesis_hash (pg_select_all b @ [r2])"
    using r2(1,3) assms(3) by (simp add: verify_chain_def verify_from_iff)
  from assms(5) obtain q b4 where q: "prepare_record A fr w cur3 dr3 rid3 ev3 p3 = Inr q" "seal_record w q h = Inr r3"
      "pg_append r3 b4 = Inr b3" "b4 = b2\<lparr>pa_cached := Some h\<rparr>"
    by (auto simp: writer_record_def bindE_eq_Inr pg_latest_hash_def)
  have "\<exists>b5. pg_append r3 b2 = Inr b5 \<and> pa_rows b5 = pa_rows b3"
    using q(3,4) by (auto simp: pg_append_def pg_insert_def split: if_splits)
  then obtain b5 where b5: "pg_append r3 b2 = Inr b5" "pa_rows b5 = pa_rows b3" by blast
  have "pg_select_all b3 = pg_select_all b5" by (simp add: pg_select_all_def b5(2))
  then have all: "pg_select_all b3 = pg_select_all b @ [r2, r3]"
    using pg_append_sound [OF r2(2) b5(1)] r2(1) by simp
  have "ar_prev_hash r3 = h" using sealed_follows [OF q(1,2)] by (simp add: follows_def)
  then show ?thesis
    using fork_detected [OF c2, of r3] all c2 r2(1) by (auto simp: verify_chain_def verify_from_iff)
qed

text \<open>
  The log is read back by time: if the second of two records gets an earlier transaction time
  (or the same one and a smaller identifier), a log written by the gateway alone reads back in the
  wrong order and does not verify.
\<close>

theorem clock_step_breaks_chain:
  assumes "writer_record pg_latest_hash pg_append A fr w cur1 dr1 rid1 ev1 p1 (new_pg_audit clock []) = Inr (r1, b1)"
    and "writer_record pg_latest_hash pg_append A fr w cur2 dr2 rid2 ev2 p2 b1 = Inr (r2, b2)"
    and "Log_key (clock 1) (ar_record_id r2) < Log_key (clock 0) (ar_record_id r1)"
  shows "pg_select_all b2 = [r2, r1] \<and>
    (verify_chain fr w (pg_select_all b2) = Inl (AuditChainBroken (ar_record_id r2)) \<or> ar_content_hash r1 = genesis_hash)"
proof -
  from assms(1) obtain q1 where q1: "prepare_record A fr w cur1 dr1 rid1 ev1 p1 = Inr q1" "seal_record w q1 genesis_hash = Inr r1"
      "b1 = \<lparr>pa_rows = [\<lparr>lr_created_at = clock 0, lr_record = r1\<rparr>], pa_clock = clock, pa_cached = Some (ar_content_hash r1)\<rparr>"
    by (auto simp: writer_record_def bindE_eq_Inr pg_latest_hash_def pg_append_def pg_insert_def new_pg_audit_def Let_def
        pg_select_latest_def split: if_splits)
  from assms(2) obtain q2 where q2: "prepare_record A fr w cur2 dr2 rid2 ev2 p2 = Inr q2"
      "seal_record w q2 (ar_content_hash r1) = Inr r2"
      "pa_rows b2 = [\<lparr>lr_created_at = clock 0, lr_record = r1\<rparr>, \<lparr>lr_created_at = clock 1, lr_record = r2\<rparr>]"
    by (auto simp: writer_record_def bindE_eq_Inr pg_latest_hash_def pg_append_def pg_insert_def q1(3) split: if_splits)
  have "\<not> Log_key (clock 0) (ar_record_id r1) \<le> Log_key (clock 1) (ar_record_id r2)"
    using assms(3) by (simp only: not_le)
  then have all: "pg_select_all b2 = [r2, r1]" by (auto simp: pg_select_all_def q2(3) row_key_def)
  have "ar_prev_hash r2 = ar_content_hash r1" using sealed_follows [OF q2(1,2)] by (simp add: follows_def)
  then show ?thesis by (auto simp: all verify_chain_def)
qed

section \<open>Witnesses\<close>

abbreviation sample_pg_write :: "ustr \<Rightarrow> pg_audit \<Rightarrow> (audit_record \<times> pg_audit) res" where
  "sample_pg_write uid \<equiv> writer_record pg_latest_hash pg_append sample_aead sample_float sample_writer
     (Some sample_customer) (sample_audit uid) (lit ''r1'') (lit ''request'') (JObj [])"

definition sample_job :: "ustr \<Rightarrow> audit_job" where
  "sample_job uid = \<lparr>aj_scope = Some sample_customer, aj_draws = sample_audit uid, aj_request_id = lit ''r1'',
     aj_event_type = lit ''request'', aj_payload = JObj []\<rparr>"

lemma sample_sealed:
  assumes "\<forall>c \<in> set h. 0 < c \<and> c < 128" "text_ok uid"
  shows "\<exists>q r. sample_prepare uid = Inr q \<and> seal_record sample_writer q h = Inr r \<and> ar_record_id r = uid \<and>
    (\<forall>c \<in> set (ar_content_hash r). 0 < c \<and> c < 128) \<and> record_storable r"
proof -
  obtain q where q: "sample_prepare uid = Inr q" "ar_record_id q = uid" using sample_prepare_ok by blast
  obtain r where r: "seal_record sample_writer q h = Inr r" using seal_ok [OF q(1)] assms(1) by blast
  have "ar_record_id r = uid" "ar_content_hash r = ar_content_hash q"
    using r q(2) by (auto simp: seal_record_def bindE_eq_Inr)
  moreover have "record_storable q"
    using prepared_storable [OF q(1)] assms(2) by (simp add: sample_audit_def sample_customer_def text_ok_ascii)
  moreover have "0 \<notin> set (ar_content_hash q)" using prepared_hash_ok [OF q(1)] by (simp add: text_ok_def)
  ultimately show ?thesis
    using q(1) r content_hash_ascii [OF q(1)] sealed_storable [OF r text_ok_ascii [OF assms(1)]]
    by (auto intro: gr0I)
qed

lemma sample_texts: "text_ok (lit ''u1'')" "text_ok (lit ''u2'')" "text_ok (lit ''u3'')"
  by (simp_all add: text_ok_ascii)

lemma genesis_text: "\<forall>c \<in> set genesis_hash. 0 < c \<and> c < 128"
  by (simp add: genesis_hash_def)

lemma sample_pg_step:
  assumes "sample_prepare uid = Inr q" "pg_latest_hash b = Inr (h, b1)" "seal_record sample_writer q h = Inr r"
    and "ar_record_id r \<notin> ar_record_id ` lr_record ` set (pa_rows b1)" "record_storable r"
  shows "sample_pg_write uid b = Inr (r, b1\<lparr>pa_rows := pa_rows b1 @
      [\<lparr>lr_created_at = pa_clock b1 (length (pa_rows b1)), lr_record = r\<rparr>], pa_cached := Some (ar_content_hash r)\<rparr>)"
  using assms by (simp add: writer_record_def pg_append_def pg_insert_def image_comp)

lemma pg_latest_new: "pg_latest_hash (new_pg_audit clock []) = Inr (genesis_hash, (new_pg_audit clock [])\<lparr>pa_cached := Some genesis_hash\<rparr>)"
  by (simp add: pg_latest_hash_def new_pg_audit_def pg_select_latest_def)

lemma pg_latest_cached: "pa_cached b = Some h \<Longrightarrow> pg_latest_hash b = Inr (h, b)"
  by (simp add: pg_latest_hash_def)

lemma pg_refines_memory_witness:
  "\<exists>rs. write_jobs memory_latest_hash memory_append sample_aead sample_float sample_writer
      [sample_job (lit ''u1''), sample_job (lit ''u2'')] [] = Inr rs \<and>
    (case write_jobs pg_latest_hash pg_append sample_aead sample_float sample_writer
        [sample_job (lit ''u1''), sample_job (lit ''u2'')] (new_pg_audit int []) of
      Inl e \<Rightarrow> Inl e | Inr b \<Rightarrow> Inr (pg_select_all b)) = Inr rs"
proof -
  obtain q1 r1 where 1: "sample_prepare (lit ''u1'') = Inr q1" "seal_record sample_writer q1 genesis_hash = Inr r1"
      "\<forall>c \<in> set (ar_content_hash r1). 0 < c \<and> c < 128"
    using sample_sealed [OF genesis_text sample_texts(1)] by blast
  obtain q2 r2 where 2: "sample_prepare (lit ''u2'') = Inr q2" "seal_record sample_writer q2 (ar_content_hash r1) = Inr r2"
    using sample_sealed [OF 1(3) sample_texts(2)] by blast
  have m: "write_jobs memory_latest_hash memory_append sample_aead sample_float sample_writer
      [sample_job (lit ''u1''), sample_job (lit ''u2'')] [] = Inr [r1, r2]"
    using 1(1,2) 2 by (simp add: sample_job_def writer_record_def memory_latest_hash_def memory_append_def)
  have d: "distinct (map (ad_uuid \<circ> aj_draws) [sample_job (lit ''u1''), sample_job (lit ''u2'')])"
    by (simp add: sample_job_def sample_audit_def)
  have t: "\<forall>j \<in> set [sample_job (lit ''u1''), sample_job (lit ''u2'')]. job_storable j"
    using sample_texts by (simp add: job_storable_def sample_job_def sample_audit_def sample_customer_def text_ok_ascii)
  have "strict_mono int" by (simp add: strict_mono_def)
  note e = pg_refines_memory [OF this, of sample_aead sample_float sample_writer "[sample_job (lit ''u1''), sample_job (lit ''u2'')]"]
  have "(case write_jobs pg_latest_hash pg_append sample_aead sample_float sample_writer
        [sample_job (lit ''u1''), sample_job (lit ''u2'')] (new_pg_audit int []) of
      Inl e \<Rightarrow> Inl e | Inr b \<Rightarrow> Inr (pg_select_all b)) = Inr [r1, r2]"
    unfolding conjunct1 [OF e] by (rule trans [OF mp [OF conjunct2 [OF e] conjI [OF d t]] m])
  with m show ?thesis by blast
qed

lemma stale_cache_forks_chain_witness:
  "\<exists>r2 r3 b2 b3. sample_pg_write (lit ''u2'') (new_pg_audit int []) = Inr (r2, b2) \<and>
    sample_pg_write (lit ''u3'') (b2\<lparr>pa_cached := Some genesis_hash\<rparr>) = Inr (r3, b3) \<and>
    verify_chain sample_float sample_writer (pg_select_all b2) = Inr () \<and>
    (verify_chain sample_float sample_writer (pg_select_all b3) = Inl (AuditChainBroken (ar_record_id r3)) \<or>
     ar_content_hash r2 = genesis_hash)"
proof -
  let ?b = "(new_pg_audit int [])\<lparr>pa_cached := Some genesis_hash\<rparr>"
  have b: "?b\<lparr>pa_cached := None\<rparr> = new_pg_audit int []" by (simp add: new_pg_audit_def)
  obtain q2 r2 where 2: "sample_prepare (lit ''u2'') = Inr q2" "seal_record sample_writer q2 genesis_hash = Inr r2"
      "ar_record_id r2 = lit ''u2''" "record_storable r2"
    using sample_sealed [OF genesis_text sample_texts(2)] by blast
  obtain q3 r3 where 3: "sample_prepare (lit ''u3'') = Inr q3" "seal_record sample_writer q3 genesis_hash = Inr r3"
      "ar_record_id r3 = lit ''u3''" "record_storable r3"
    using sample_sealed [OF genesis_text sample_texts(3)] by blast
  have fresh: "ar_record_id r2 \<notin> ar_record_id ` lr_record ` set (pa_rows ?b)" by (simp add: new_pg_audit_def)
  obtain b2 where w2: "sample_pg_write (lit ''u2'') (new_pg_audit int []) = Inr (r2, b2)"
      "b2 = ?b\<lparr>pa_rows := pa_rows ?b @ [\<lparr>lr_created_at = pa_clock ?b (length (pa_rows ?b)), lr_record = r2\<rparr>],
        pa_cached := Some (ar_content_hash r2)\<rparr>"
    by (rule that [OF sample_pg_step [OF 2(1) pg_latest_new 2(2) fresh 2(4)] refl])
  have l: "pg_latest_hash (b2\<lparr>pa_cached := Some genesis_hash\<rparr>) = Inr (genesis_hash, b2\<lparr>pa_cached := Some genesis_hash\<rparr>)"
    by (rule pg_latest_cached) simp
  have "ar_record_id r3 \<notin> ar_record_id ` lr_record ` set (pa_rows (b2\<lparr>pa_cached := Some genesis_hash\<rparr>))"
    by (simp add: w2(2) new_pg_audit_def 2(3) 3(3))
  note s3 = sample_pg_step [OF 3(1) l 3(2) this 3(4)]
  obtain b3 where w3: "sample_pg_write (lit ''u3'') (b2\<lparr>pa_cached := Some genesis_hash\<rparr>) = Inr (r3, b3)"
    by (rule that [OF s3])
  have sound: "pg_sound ?b" "pa_cached ?b = Some genesis_hash"
    "verify_chain sample_float sample_writer (pg_select_all ?b) = Inr ()"
    by (simp_all add: pg_sound_def new_pg_audit_def pg_select_all_def head_of_def verify_chain_def strict_mono_def)
  have w2': "sample_pg_write (lit ''u2'') (?b\<lparr>pa_cached := None\<rparr>) = Inr (r2, b2)" unfolding b by (rule w2(1))
  note f = stale_cache_forks_chain [OF sound w2' w3]
  show ?thesis
    by (intro exI conjI, rule w2(1), rule w3, rule conjunct1 [OF f], rule conjunct2 [OF f])
qed

lemma clock_step_breaks_chain_witness:
  "\<exists>r1 r2 b1 b2. sample_pg_write (lit ''u1'') (new_pg_audit (\<lambda>i. - int i) []) = Inr (r1, b1) \<and>
    sample_pg_write (lit ''u2'') b1 = Inr (r2, b2) \<and> pg_select_all b2 = [r2, r1]"
proof -
  let ?b = "(new_pg_audit (\<lambda>i. - int i) [])\<lparr>pa_cached := Some genesis_hash\<rparr>"
  obtain q1 r1 where 1: "sample_prepare (lit ''u1'') = Inr q1" "seal_record sample_writer q1 genesis_hash = Inr r1"
      "ar_record_id r1 = lit ''u1''" "\<forall>c \<in> set (ar_content_hash r1). 0 < c \<and> c < 128" "record_storable r1"
    using sample_sealed [OF genesis_text sample_texts(1)] by blast
  obtain q2 r2 where 2: "sample_prepare (lit ''u2'') = Inr q2" "seal_record sample_writer q2 (ar_content_hash r1) = Inr r2"
      "ar_record_id r2 = lit ''u2''" "record_storable r2"
    using sample_sealed [OF 1(4) sample_texts(2)] by blast
  have fresh: "ar_record_id r1 \<notin> ar_record_id ` lr_record ` set (pa_rows ?b)" by (simp add: new_pg_audit_def)
  obtain b1 where w1: "sample_pg_write (lit ''u1'') (new_pg_audit (\<lambda>i. - int i) []) = Inr (r1, b1)"
      "b1 = ?b\<lparr>pa_rows := pa_rows ?b @ [\<lparr>lr_created_at = pa_clock ?b (length (pa_rows ?b)), lr_record = r1\<rparr>],
        pa_cached := Some (ar_content_hash r1)\<rparr>"
    by (rule that [OF sample_pg_step [OF 1(1) pg_latest_new 1(2) fresh 1(5)] refl])
  have l: "pg_latest_hash b1 = Inr (ar_content_hash r1, b1)" by (rule pg_latest_cached) (simp add: w1(2))
  have "ar_record_id r2 \<notin> ar_record_id ` lr_record ` set (pa_rows b1)"
    by (simp add: w1(2) new_pg_audit_def 1(3) 2(3))
  note s2 = sample_pg_step [OF 2(1) l 2(2) this 2(4)]
  obtain b2 where w2: "sample_pg_write (lit ''u2'') b1 = Inr (r2, b2)"
    by (rule that [OF s2])
  have k: "Log_key (- int 1) (ar_record_id r2) < Log_key (- int 0) (ar_record_id r1)" by simp
  note f = clock_step_breaks_chain [OF w1(1) w2 k]
  show ?thesis by (intro exI conjI, rule w1(1), rule w2, rule conjunct1 [OF f])
qed

end
