(* ===== verification/Backends.thy ===== *)
theory Backends
  imports Concurrency PgAudit
begin

text \<open>
  The request handler over any audit backend. \<open>AuditWriter\<close> takes its backend as an object, so
  \<open>handle_chat_on\<close> takes its operations. Over every backend that keeps the laws of \<open>log_backend\<close> the handler
  does what it does over the in-memory log: same answers, same bodies sent, same session store, and
  the log with the same records. The database backend is one.
\<close>

definition with_log :: "'b \<Rightarrow> 'a gateway_on \<Rightarrow> 'b gateway_on" where
  "with_log recs gw = \<lparr>gw_store = gw_store gw, gw_audit = recs, gw_rules = gw_rules gw, gw_exceptions = gw_exceptions gw\<rparr>"

lemma with_log_fields [simp]:
  "gw_store (with_log recs gw) = gw_store gw" "gw_audit (with_log recs gw) = recs"
  "gw_rules (with_log recs gw) = gw_rules gw" "gw_exceptions (with_log recs gw) = gw_exceptions gw"
  "(with_log recs gw)\<lparr>gw_store := st, gw_audit := recs'\<rparr> = with_log recs' (gw\<lparr>gw_store := st\<rparr>)"
  "with_log recs (gw\<lparr>gw_audit := b\<rparr>) = with_log recs gw"
  "with_log recs (gw\<lparr>gw_store := st, gw_audit := b\<rparr>) = with_log recs (gw\<lparr>gw_store := st\<rparr>)"
  by (simp_all add: with_log_def)

lemma with_log_again [simp]: "with_log recs (with_log recs' gw) = with_log recs gw"
  by (simp add: with_log_def)

lemma analyse_with_log [simp]: "analyse P cur body (with_log recs gw) = analyse P cur body gw"
  by (simp add: analyse_def)

text \<open>A sequence of requests, one after the other.\<close>

fun serve_on ::
    "('b \<Rightarrow> (ustr \<times> 'b) res) \<Rightarrow> (audit_record \<Rightarrow> 'b \<Rightarrow> 'b res) \<Rightarrow> pipeline \<Rightarrow> chat_call list \<Rightarrow> 'b gateway_on \<Rightarrow>
      json res list \<times> 'b gateway_on" where
  "serve_on latest put P [] gw = ([], gw)"
| "serve_on latest put P (c # cs) gw =
     (case handle_chat_on latest put P (ca_draws c) (Some (ca_context c)) (ca_body c) (ca_key c) gw of
        (res, gw1, sent) \<Rightarrow> (case serve_on latest put P cs gw1 of (rs, gw2) \<Rightarrow> (res # rs, gw2)))"

section \<open>Over every lawful backend\<close>

context log_backend
begin

definition takes :: "request_draws \<Rightarrow> customer_context \<Rightarrow> 'a \<Rightarrow> bool" where
  "takes q ctx b = (\<forall>A fr w p rec. prepare_record A fr w (Some ctx) (rq_audit q) (request_id q) (lit ''request'') p = Inr rec \<longrightarrow>
     accepts rec b)"

text \<open>Recording for a request the backend takes, as the in-memory log does.\<close>

abbreviation memory_record ::
    "aead \<Rightarrow> (pyfloat \<Rightarrow> ustr) \<Rightarrow> audit_writer \<Rightarrow> customer_context \<Rightarrow> request_draws \<Rightarrow> json \<Rightarrow> audit_log \<Rightarrow> (audit_record \<times> audit_log) res" where
  "memory_record A fr w ctx q \<equiv>
     writer_record memory_latest_hash memory_append A fr w (Some ctx) (rq_audit q) (request_id q) (lit ''request'')"

abbreviation backend_record ::
    "aead \<Rightarrow> (pyfloat \<Rightarrow> ustr) \<Rightarrow> audit_writer \<Rightarrow> customer_context \<Rightarrow> request_draws \<Rightarrow> json \<Rightarrow> 'a \<Rightarrow> (audit_record \<times> 'a) res" where
  "backend_record A fr w ctx q \<equiv>
     writer_record latest append_record A fr w (Some ctx) (rq_audit q) (request_id q) (lit ''request'')"

lemma request_recorded:
  assumes "invar b" "takes q ctx b"
  shows "case backend_record A fr w ctx q p b of
      Inl e \<Rightarrow> memory_record A fr w ctx q p (all_records b) = Inl e
    | Inr (r, b') \<Rightarrow> invar b' \<and> memory_record A fr w ctx q p (all_records b) = Inr (r, all_records b')"
  by (rule record_as_memory [OF assms(1)]) (use assms(2) in \<open>auto simp: takes_def\<close>)

lemma record_raised:
  assumes "invar b" "takes q ctx b"
  shows "\<forall>A fr w p e. backend_record A fr w ctx q p b = Inl e \<longrightarrow> memory_record A fr w ctx q p (all_records b) = Inl e"
proof (intro allI impI)
  fix A fr w p e
  assume "backend_record A fr w ctx q p b = Inl e"
  with request_recorded [OF assms, of A fr w p] show "memory_record A fr w ctx q p (all_records b) = Inl e" by simp
qed

lemma record_recorded:
  assumes "invar b" "takes q ctx b"
  shows "\<forall>A fr w p r b'. backend_record A fr w ctx q p b = Inr (r, b') \<longrightarrow>
    invar b' \<and> memory_record A fr w ctx q p (all_records b) = Inr (r, all_records b')"
proof (intro allI impI)
  fix A fr w p r b'
  assume "backend_record A fr w ctx q p b = Inr (r, b')"
  with request_recorded [OF assms, of A fr w p]
  show "invar b' \<and> memory_record A fr w ctx q p (all_records b) = Inr (r, all_records b')" by simp
qed

lemma exchange_as_memory:
  assumes "invar b" "takes q ctx b"
    and "exchange_on latest append_record P q ctx (request_id q) body key tx m n sm b = (res, sm', b', sent)"
  shows "exchange P q ctx (request_id q) body key tx m n sm (all_records b) = (res, sm', all_records b', sent) \<and> invar b'"
  using assms(1,3) record_raised [OF assms(1,2)] record_recorded [OF assms(1,2)]
  unfolding exchange_on_def Let_def
  by (auto simp: failed_record_log split: sum.splits prod.splits)

lemma handle_chat_as_memory:
  assumes "invar (gw_audit gw)" "takes q ctx (gw_audit gw)"
    and "handle_chat_on latest append_record P q (Some ctx) body key gw = (res, gw', sent)"
  shows "handle_chat P q (Some ctx) body key (with_log (all_records (gw_audit gw)) gw) =
      (res, with_log (all_records (gw_audit gw')) gw', sent) \<and> invar (gw_audit gw')"
proof (cases "analyse P (Some ctx) body gw")
  case (Inl e)
  with assms(1,3) show ?thesis by (auto simp: handle_chat_on_def)
next
  case (Inr t)
  obtain tx n m where t: "t = (tx, n, m)" by (rule prod_cases3)
  show ?thesis
  proof (cases "store_open (Some ctx) (rq_opened_at q) (request_id q) (gw_store gw)")
    case (Inl e)
    with assms(1,3) Inr t show ?thesis by (auto simp: handle_chat_on_def)
  next
    case o: (Inr rs)
    obtain r store where rs: "rs = (r, store)" by (cases rs)
    obtain res' sm b' sent' where x: "exchange_on latest append_record P q ctx (request_id q) body key tx m n (ss_heap store ! r)
        (gw_audit gw) = (res', sm, b', sent')" by (rule prod_cases4)
    from exchange_as_memory [OF assms(1,2) x] assms(3) Inr t o rs x show ?thesis
      by (auto simp: handle_chat_on_def)
  qed
qed

end

section \<open>The database\<close>

abbreviation call_record_id :: "chat_call \<Rightarrow> ustr" where
  "call_record_id c \<equiv> ad_uuid (rq_audit (ca_draws c))"

text \<open>Texts of a request that go into its record: what Postgres must be able to store.\<close>

definition call_storable :: "chat_call \<Rightarrow> bool" where
  "call_storable c = (text_ok (call_record_id c) \<and> text_ok (cc_customer_id (ca_context c)) \<and> text_ok (call_id c))"

lemma pg_takes:
  assumes "call_storable c" "call_record_id c \<notin> logged_ids b"
  shows "pg_log.takes (ca_draws c) (ca_context c) b"
  unfolding pg_log.takes_def
proof (intro allI impI)
  fix A fr w p rec
  assume q: "prepare_record A fr w (Some (ca_context c)) (rq_audit (ca_draws c)) (call_id c) (lit ''request'') p = Inr rec"
  have "text_ok (lit ''request'')" by (rule text_ok_ascii) simp
  then show "pg_accepts rec b"
    using prepared_storable [OF q] assms by (simp add: accepts_iff prepared_id [OF q] call_storable_def)
qed

text \<open>A request adds at most its own record identifier to the log.\<close>

lemma exchange_record_ids:
  assumes "exchange P q ctx rid body key tx m n sm recs = (res, sm', recs', sent)"
  shows "ar_record_id ` set recs' \<subseteq> insert (ad_uuid (rq_audit q)) (ar_record_id ` set recs)"
proof -
  have w: "recs'' = recs @ [r] \<and> ar_record_id r = ad_uuid (rq_audit q)"
    if "writer_record memory_latest_hash memory_append (pl_aead P) (pl_float_repr P) (pl_writer P) (Some ctx) (rq_audit q) rid ev p recs =
      Inr (r, recs'')" for ev p r recs''
    using memory_backend.record_extends(1) [OF TrueI that] written_id [OF that] by (simp add: memory_all_def)
  from assms show ?thesis
    unfolding exchange_on_def Let_def by (auto split: sum.splits prod.splits dest!: w)
qed

lemma chat_record_ids:
  assumes "handle_chat P q cur body key gw = (res, gw', sent)"
  shows "ar_record_id ` set (gw_audit gw') \<subseteq> insert (ad_uuid (rq_audit q)) (ar_record_id ` set (gw_audit gw))"
  using assms
proof (cases rule: handle_chat_cases)
  case (ran ctx tx n m r store sm recs)
  from exchange_record_ids [OF ran(4)] ran(5) show ?thesis by simp
qed auto

lemma serve_pg_as_memory:
  assumes "pg_sound (gw_audit gw)" "distinct (map call_record_id cs)"
    and "\<And>c. c \<in> set cs \<Longrightarrow> call_storable c \<and> call_record_id c \<notin> logged_ids (gw_audit gw)"
    and "serve_on pg_latest_hash pg_append P cs gw = (rs, gw')"
  shows "serve_on memory_latest_hash memory_append P cs (with_log (pg_select_all (gw_audit gw)) gw) =
    (rs, with_log (pg_select_all (gw_audit gw')) gw') \<and> pg_sound (gw_audit gw')"
  using assms
proof (induction cs arbitrary: gw rs)
  case Nil
  then show ?case by simp
next
  case (Cons c cs)
  obtain res gw1 sent where h: "handle_chat_on pg_latest_hash pg_append P (ca_draws c) (Some (ca_context c)) (ca_body c) (ca_key c) gw =
      (res, gw1, sent)" by (rule prod_cases3)
  obtain rs2 where s: "serve_on pg_latest_hash pg_append P cs gw1 = (rs2, gw')" "rs = res # rs2"
    using Cons.prems(4) h by (auto split: prod.splits)
  have "pg_log.takes (ca_draws c) (ca_context c) (gw_audit gw)" using Cons.prems(3) by (simp add: pg_takes)
  note m = pg_log.handle_chat_as_memory [OF Cons.prems(1) this h]
  have "logged_ids (gw_audit gw1) \<subseteq> insert (call_record_id c) (logged_ids (gw_audit gw))"
    using chat_record_ids [OF conjunct1 [OF m]] by (simp add: logged_ids_def)
  moreover have "call_record_id d \<noteq> call_record_id c" if "d \<in> set cs" for d
    using Cons.prems(2) that by (force simp: image_iff)
  ultimately have "call_storable d \<and> call_record_id d \<notin> logged_ids (gw_audit gw1)" if "d \<in> set cs" for d
    using Cons.prems(3) that by fastforce
  from Cons.IH [OF conjunct2 [OF m] _ this s(1)] Cons.prems(2) m s(2) show ?case by auto
qed

section \<open>Properties\<close>

text \<open>
  The gateway over the database log implements the gateway over the in-memory one: for any
  sequence of requests with fresh record identifiers and texts that Postgres can store, as long as one
  process writes and the database clock advances, every caller gets the same answer or exception, and in the end the
  session store is the same and the table holds the records of the in-memory log, in their order.
\<close>

theorem pg_gateway_refines_memory:
  assumes "pg_sound (gw_audit gw)" and "distinct (map call_record_id cs)"
    and "\<forall>c \<in> set cs. call_storable c \<and> call_record_id c \<notin> logged_ids (gw_audit gw)"
    and "serve_on pg_latest_hash pg_append P cs gw = (rs, gw')"
  shows "\<exists>mem. serve_on memory_latest_hash memory_append P cs (with_log (pg_select_all (gw_audit gw)) gw) = (rs, mem) \<and>
    gw_store mem = gw_store gw' \<and> gw_audit mem = pg_select_all (gw_audit gw') \<and> pg_sound (gw_audit gw')"
  using serve_pg_as_memory [OF assms(1,2) _ assms(4)] assms(3) by fastforce

section \<open>Witness\<close>

lemma pg_gateway_refines_memory_witness:
  "\<exists>rs gw' mem. serve_on pg_latest_hash pg_append (sample_pipeline Strict (Inr []) (Inr [custom_at 2 4]))
      [\<lparr>ca_draws = sample_request, ca_context = sample_customer, ca_body = sample_body, ca_key = []\<rparr>]
      (with_log (new_pg_audit int []) sample_gateway) = (rs, gw') \<and>
    serve_on memory_latest_hash memory_append (sample_pipeline Strict (Inr []) (Inr [custom_at 2 4]))
      [\<lparr>ca_draws = sample_request, ca_context = sample_customer, ca_body = sample_body, ca_key = []\<rparr>]
      (with_log [] sample_gateway) = (rs, mem) \<and> gw_audit mem = pg_select_all (gw_audit gw')"
proof -
  let ?P = "sample_pipeline Strict (Inr []) (Inr [custom_at 2 4])"
  let ?cs = "[\<lparr>ca_draws = sample_request, ca_context = sample_customer, ca_body = sample_body, ca_key = []\<rparr>]"
  let ?gw = "with_log (new_pg_audit int []) sample_gateway"
  obtain rs gw' where s: "serve_on pg_latest_hash pg_append ?P ?cs ?gw = (rs, gw')" by (rule prod.exhaust)
  have e: "pg_select_all (new_pg_audit int []) = []" by (simp add: pg_select_all_def new_pg_audit_def)
  have "pg_sound (gw_audit ?gw)" by (simp add: pg_sound_def new_pg_audit_def strict_mono_def)
  moreover have "\<forall>c \<in> set ?cs. call_storable c \<and> call_record_id c \<notin> logged_ids (gw_audit ?gw)"
    by (simp add: call_storable_def sample_request_def sample_audit_def sample_customer_def request_id_def text_ok_ascii logged_ids_def e)
  ultimately obtain mem where "serve_on memory_latest_hash memory_append ?P ?cs (with_log [] sample_gateway) = (rs, mem)"
      "gw_audit mem = pg_select_all (gw_audit gw')"
    using pg_gateway_refines_memory [OF _ _ _ s] e by (auto simp del: serve_on.simps)
  with s show ?thesis by blast
qed

end
