(* ===== verification/Interleaving.thy ===== *)
theory Interleaving
  imports Concurrency
begin

text \<open>
  Systems of requests in flight. The invariant \<open>coherent\<close> says how the shared session store and the
  shared audit log follow the phases of the requests; it holds of every reachable system, whatever
  the order of steps and however rules and exceptions change between them. From it: a request in a
  crowd returns and sends what it would return and send alone, the log verifies and has one record per
  answered request, and any schedule that runs each request often enough leaves no live session map.
\<close>

section \<open>The invariant\<close>

definition store_part :: "session_store \<Rightarrow> chat_call list \<Rightarrow> phase list \<Rightarrow> session_store \<Rightarrow> bool" where
  "store_part st0 calls phases st =
     (store_ok st \<and> ss_key st = ss_key st0 \<and> length (ss_heap st0) \<le> length (ss_heap st) \<and>
      (\<forall>r < length (ss_heap st0). ss_heap st ! r = ss_heap st0 ! r) \<and>
      (\<forall>i < length calls. map_of (ss_maps st) (call_id (calls ! i)) = slot_of (phases ! i)) \<and>
      (\<forall>k. k \<notin> call_id ` set calls \<longrightarrow> map_of (ss_maps st) k = map_of (ss_maps st0) k) \<and>
      (\<forall>i < length calls. \<forall>r. slot_of (phases ! i) = Some r \<longrightarrow> length (ss_heap st0) \<le> r))"

definition log_part :: "pipeline \<Rightarrow> audit_log \<Rightarrow> chat_call list \<Rightarrow> phase list \<Rightarrow> audit_log \<Rightarrow> bool" where
  "log_part P recs0 calls phases recs =
     (log_ok P recs \<and> (\<exists>order new. recs = recs0 @ new \<and> distinct order \<and>
        set order = {i. i < length calls \<and> answered_phase (phases ! i)} \<and>
        map (\<lambda>rec. (ar_request_id rec, ar_customer_id rec)) new =
          map (\<lambda>i. (call_id (calls ! i), cc_customer_id (ca_context (calls ! i)))) order))"

definition coherent :: "pipeline \<Rightarrow> chat_call list \<Rightarrow> rule_store set \<Rightarrow> rule_exception_store set \<Rightarrow> gateway \<Rightarrow> system \<Rightarrow> bool" where
  "coherent P calls RS XS gw0 s =
     (length (sy_phases s) = length calls \<and> length (sy_sent s) = length calls \<and>
      gw_rules (sy_gateway s) \<in> RS \<and> gw_exceptions (sy_gateway s) \<in> XS \<and>
      store_part (gw_store gw0) calls (sy_phases s) (gw_store (sy_gateway s)) \<and>
      log_part P (gw_audit gw0) calls (sy_phases s) (gw_audit (sy_gateway s)) \<and>
      (\<forall>i < length calls. phase_ok P RS XS gw0 (calls ! i) (sy_phases s ! i)
         (nth (ss_heap (gw_store (sy_gateway s)))) (sy_sent s ! i)))"

text \<open>What a run starts from: request ids that are new and differ, and a sound store and log.\<close>

definition fresh_start :: "pipeline \<Rightarrow> chat_call list \<Rightarrow> rule_store set \<Rightarrow> rule_exception_store set \<Rightarrow> gateway \<Rightarrow> bool" where
  "fresh_start P calls RS XS gw0 =
     (distinct (map call_id calls) \<and> (\<forall>c \<in> set calls. call_id c \<notin> fst ` set (ss_maps (gw_store gw0))) \<and>
      store_ok (gw_store gw0) \<and> log_ok P (gw_audit gw0) \<and> gw_rules gw0 \<in> RS \<and> gw_exceptions gw0 \<in> XS)"

lemma coherent_initial: "fresh_start P calls RS XS gw0 \<Longrightarrow> coherent P calls RS XS gw0 (initial calls gw0)"
  by (auto simp: fresh_start_def coherent_def initial_def store_part_def log_part_def answered_phase_def map_of_eq_None_iff)

section \<open>Every step keeps it\<close>

lemma live_slot:
  assumes "store_ok st" "map_of (ss_maps st) k = Some r"
  shows "r < length (ss_heap st)"
  using assms map_of_SomeD [OF assms(2)] by (force simp: store_ok_def)

lemma slots_differ:
  assumes "store_ok st" "map_of (ss_maps st) k = Some r" "map_of (ss_maps st) k' = Some r"
  shows "k = k'"
proof -
  have "inj_on snd (set (ss_maps st))" using assms(1) by (simp add: store_ok_def distinct_map)
  from inj_onD [OF this _ map_of_SomeD [OF assms(2)] map_of_SomeD [OF assms(3)]] show ?thesis by simp
qed

lemma ids_differ:
  "distinct (map call_id calls) \<Longrightarrow> i < length calls \<Longrightarrow> j < length calls \<Longrightarrow> i \<noteq> j \<Longrightarrow> call_id (calls ! i) \<noteq> call_id (calls ! j)"
  by (simp add: distinct_conv_nth)

lemma store_part_step:
  assumes "store_part st0 calls phases st" "distinct (map call_id calls)" "i < length calls" "length phases = length calls"
    and "own_effect A (calls ! i) (slot_of (phases ! i)) (slot_of ph') st st'"
  shows "store_part st0 calls (phases[i := ph']) st'"
proof -
  note e = assms(5)[unfolded own_effect_def] and p = assms(1)[unfolded store_part_def]
  have "store_ok st'" using e p reachable_ok by blast
  moreover have "ss_heap st' ! r = ss_heap st0 ! r" if "r < length (ss_heap st0)" for r
  proof -
    have "slot_of (phases ! i) \<noteq> Some r" using p assms(3) that by force
    then show ?thesis using e p that by simp
  qed
  moreover have "map_of (ss_maps st') (call_id (calls ! j)) = slot_of (phases[i := ph'] ! j)" if "j < length calls" for j
    using e p that assms(3,4) ids_differ [OF assms(2) that assms(3)] by (cases "j = i") auto
  moreover have "map_of (ss_maps st') k = map_of (ss_maps st0) k" if "k \<notin> call_id ` set calls" for k
    using e p that assms(3) by force
  moreover have "length (ss_heap st0) \<le> r" if "j < length calls" "slot_of (phases[i := ph'] ! j) = Some r" for j r
  proof (cases "j = i")
    case True
    with that assms(4) have "slot_of ph' = Some r" by simp
    with e p assms(3) show ?thesis by (cases "slot_of (phases ! i) = Some r") (auto dest: le_trans)
  qed (use that p in simp)
  ultimately show ?thesis using e p unfolding store_part_def by auto
qed

lemma log_part_step:
  assumes "log_part P recs0 calls phases (gw_audit gw)" "i < length calls" "length phases = length calls"
    and "advance P (calls ! i) (phases ! i) gw = (ph', gw', out)"
  shows "log_part P recs0 calls (phases[i := ph']) (gw_audit gw')"
proof -
  note a = advance_log [OF assms(4)]
  obtain order new where o: "gw_audit gw = recs0 @ new" "distinct order"
      "set order = {i. i < length calls \<and> answered_phase (phases ! i)}"
      "map (\<lambda>rec. (ar_request_id rec, ar_customer_id rec)) new =
        map (\<lambda>i. (call_id (calls ! i), cc_customer_id (ca_context (calls ! i)))) order"
    and ok: "log_ok P (gw_audit gw)"
    using assms(1) unfolding log_part_def by blast
  show ?thesis
  proof (cases "answered_phase ph' = answered_phase (phases ! i)")
    case True
    with o(3) assms(2,3) have "set order = {j. j < length calls \<and> answered_phase (phases[i := ph'] ! j)}"
      by (auto simp: nth_list_update)
    moreover have "gw_audit gw' = recs0 @ new" using a [OF ok] True o(1) by simp
    moreover have "log_ok P (gw_audit gw')" using a [OF ok] by blast
    ultimately show ?thesis using o(2,4) unfolding log_part_def by blast
  next
    case False
    obtain rec where rec: "gw_audit gw' = gw_audit gw @ [rec]" "ar_request_id rec = call_id (calls ! i)"
        "ar_customer_id rec = cc_customer_id (ca_context (calls ! i))" "answered_phase ph'" "log_ok P (gw_audit gw')"
      using a [OF ok] False by auto
    have "set (order @ [i]) = {j. j < length calls \<and> answered_phase (phases[i := ph'] ! j)}" "distinct (order @ [i])"
      using o(2,3) False rec(4) assms(2,3) by (auto simp: nth_list_update)
    moreover have "gw_audit gw' = recs0 @ (new @ [rec])" using o(1) rec(1) by simp
    moreover have "map (\<lambda>rec. (ar_request_id rec, ar_customer_id rec)) (new @ [rec]) =
        map (\<lambda>i. (call_id (calls ! i), cc_customer_id (ca_context (calls ! i)))) (order @ [i])"
      using o(4) rec(2,3) by simp
    ultimately show ?thesis using rec(5) unfolding log_part_def by blast
  qed
qed

lemma coherent_runs:
  assumes "coherent P calls RS XS gw0 s" "fresh_start P calls RS XS gw0" "i < length calls"
  shows "coherent P calls RS XS gw0 (run_call P calls i s)"
proof -
  let ?gw = "sy_gateway s"
  let ?st = "gw_store ?gw"
  note c = assms(1)[unfolded coherent_def]
  have ids: "distinct (map call_id calls)" and log0: "log_ok P (gw_audit gw0)" using assms(2) by (auto simp: fresh_start_def)
  have sp: "store_part (gw_store gw0) calls (sy_phases s) ?st" and lp: "log_part P (gw_audit gw0) calls (sy_phases s) (gw_audit ?gw)"
    and len: "length (sy_phases s) = length calls" "length (sy_sent s) = length calls" using c by auto
  have log: "log_ok P (gw_audit ?gw)" using lp by (simp add: log_part_def)
  obtain ph' gw' out where a: "advance P (calls ! i) (sy_phases s ! i) ?gw = (ph', gw', out)" by (rule prod_cases3)
  have entry: "map_of (ss_maps ?st) (call_id (calls ! j)) = slot_of (sy_phases s ! j)" if "j < length calls" for j
    using sp that by (simp add: store_part_def)
  have live: "r < length (ss_heap ?st)" if "j < length calls" "slot_of (sy_phases s ! j) = Some r" for j r
    by (rule live_slot [of ?st "call_id (calls ! j)"]) (use sp entry that in \<open>auto simp: store_part_def\<close>)
  have eff: "own_effect (pl_aead P) (calls ! i) (slot_of (sy_phases s ! i)) (slot_of ph') ?st (gw_store gw')"
    by (rule advance_effect [OF a]) (use entry live assms(3) in auto)
  have "phase_ok P RS XS gw0 (calls ! j) ((sy_phases s)[i := ph'] ! j) (nth (ss_heap (gw_store gw')))
      ((sy_sent s)[i := sy_sent s ! i @ out] ! j)" if j: "j < length calls" for j
  proof (cases "j = i")
    case True
    have "phase_ok P RS XS gw0 (calls ! i) ph' (nth (ss_heap (gw_store gw'))) (sy_sent s ! i @ out)"
      by (rule advance_phase [OF _ _ _ _ log log0 _ a]) (use c sp live assms(3) in \<open>auto simp: store_part_def\<close>)
    then show ?thesis using True len assms(3) by simp
  next
    case False
    have "ss_heap (gw_store gw') ! r = ss_heap ?st ! r" if r: "slot_of (sy_phases s ! j) = Some r" for r
    proof -
      have "slot_of (sy_phases s ! i) \<noteq> Some r"
        using slots_differ [of ?st "call_id (calls ! i)" r "call_id (calls ! j)"] entry [OF assms(3)] entry [OF j] r
          ids_differ [OF ids assms(3) j] False sp by (auto simp: store_part_def)
      with eff live [OF j r] show ?thesis by (simp add: own_effect_def)
    qed
    moreover have "phase_ok P RS XS gw0 (calls ! j) (sy_phases s ! j) (nth (ss_heap ?st)) (sy_sent s ! j)" using c j by blast
    ultimately show ?thesis using phase_ok_own False by simp
  qed
  moreover have "store_part (gw_store gw0) calls ((sy_phases s)[i := ph']) (gw_store gw')"
    by (rule store_part_step [OF sp ids assms(3) len(1) eff])
  moreover have "log_part P (gw_audit gw0) calls ((sy_phases s)[i := ph']) (gw_audit gw')"
    by (rule log_part_step [OF lp assms(3) len(1) a])
  ultimately show ?thesis using c advance_keeps [OF a] by (simp add: coherent_def run_call_on_def a)
qed

lemma coherent_reachable:
  assumes "sys_reachable P calls RS XS (initial calls gw0) s" "fresh_start P calls RS XS gw0"
  shows "coherent P calls RS XS gw0 s"
  using assms(1)
proof induction
  case sys_start
  show ?case by (rule coherent_initial [OF assms(2)])
next
  case (sys_more s s')
  from sys_more(2) show ?case
  proof (rule sys_stepE)
    fix i
    assume "s' = run_call P calls i s" "i < length calls"
    with coherent_runs [OF sys_more.IH assms(2)] show ?thesis by simp
  next
    fix R X
    assume "s' = with_rules R X s" "R \<in> RS" "X \<in> XS"
    with sys_more.IH show ?thesis by (simp add: coherent_def with_rules_def)
  qed
qed

section \<open>Schedules\<close>

fun rank :: "phase \<Rightarrow> nat" where
  "rank Arrived = 5"
| "rank (Retrieved tx rules) = 4"
| "rank (Detected tx ds) = 3"
| "rank (Sent n m r fr) = 2"
| "rank (Replied n m r fr resp) = 1"
| "rank (Done res) = 0"

lemma advance_rank: "advance P c ph gw = (ph', gw', out) \<Longrightarrow> rank ph' \<le> rank ph - 1"
  by (cases ph) (auto split: sum.splits prod.splits)

lemma run_call_phases:
  "length (sy_phases (run_call P calls i s)) = length (sy_phases s)"
  "i < length (sy_phases s) \<Longrightarrow> rank (sy_phases (run_call P calls i s) ! i) \<le> rank (sy_phases s ! i) - 1"
  "j \<noteq> i \<Longrightarrow> sy_phases (run_call P calls i s) ! j = sy_phases s ! j"
  using advance_rank by (auto simp: run_call_on_def split: prod.split)

lemma schedule_rank:
  "i < length (sy_phases s) \<Longrightarrow> rank (sy_phases (run_schedule P calls sch s) ! i) \<le> rank (sy_phases s ! i) - count_list sch i"
proof (induction sch arbitrary: s)
  case (Cons j sch)
  have "rank (sy_phases (run_schedule P calls (j # sch) s) ! i) \<le> rank (sy_phases (run_call P calls j s) ! i) - count_list sch i"
    using Cons.IH [of "run_call P calls j s"] Cons.prems by (simp add: run_schedule_on_def run_call_phases(1))
  also have "\<dots> \<le> rank (sy_phases s ! i) - count_list (j # sch) i"
    using run_call_phases(2) [OF Cons.prems, of P calls] run_call_phases(3) [of i j P calls s] by (cases "j = i") simp_all
  finally show ?case .
qed (simp add: run_schedule_on_def)

lemma rank_done: "rank ph = 0 \<longleftrightarrow> (\<exists>res. ph = Done res)"
  by (cases ph) auto

lemma schedule_done:
  assumes "i < length calls" "5 \<le> count_list sch i"
  shows "\<exists>res. sy_phases (run_schedule P calls sch (initial calls gw)) ! i = Done res"
  using schedule_rank [of i "initial calls gw" P calls sch] assms by (simp add: initial_def flip: rank_done)

lemma schedule_reachable:
  assumes "set sch \<subseteq> {..<length calls}" "sys_reachable_on latest put P calls RS XS s0 s"
  shows "sys_reachable_on latest put P calls RS XS s0 (run_schedule_on latest put P calls sch s)"
  using assms
proof (induction sch arbitrary: s)
  case (Cons i sch)
  then have "sys_reachable_on latest put P calls RS XS s0 (run_call_on latest put P calls i s)"
    by (auto intro: sys_more runs)
  from Cons.IH [OF _ this] Cons.prems(1) show ?case by (simp add: run_schedule_on_def)
qed (simp add: run_schedule_on_def)

text \<open>When no request waits, the store is as before the run, but for purged maps.\<close>

lemma drained:
  assumes "coherent P calls RS XS gw0 s" "fresh_start P calls RS XS gw0"
    and "\<And>i. i < length calls \<Longrightarrow> slot_of (sy_phases s ! i) = None"
  shows "map_of (ss_maps (gw_store (sy_gateway s))) = map_of (ss_maps (gw_store gw0))"
    and "length (ss_heap (gw_store gw0)) \<le> r \<Longrightarrow> r < length (ss_heap (gw_store (sy_gateway s))) \<Longrightarrow>
      sm_purged (ss_heap (gw_store (sy_gateway s)) ! r) \<and> sm_encrypted (ss_heap (gw_store (sy_gateway s)) ! r) = []"
proof -
  let ?st = "gw_store (sy_gateway s)"
  have sp: "store_part (gw_store gw0) calls (sy_phases s) ?st" using assms(1) by (simp add: coherent_def)
  show eq: "map_of (ss_maps ?st) = map_of (ss_maps (gw_store gw0))"
  proof
    fix k
    show "map_of (ss_maps ?st) k = map_of (ss_maps (gw_store gw0)) k"
    proof (cases "k \<in> call_id ` set calls")
      case True
      then obtain i where i: "i < length calls" "k = call_id (calls ! i)" by (auto simp: in_set_conv_nth)
      have "map_of (ss_maps (gw_store gw0)) k = None"
        using assms(2) i nth_mem [OF i(1)] by (simp add: fresh_start_def map_of_eq_None_iff)
      with sp assms(3) [OF i(1)] i show ?thesis by (simp add: store_part_def)
    qed (use sp in \<open>simp add: store_part_def\<close>)
  qed
  assume r: "length (ss_heap (gw_store gw0)) \<le> r" "r < length (ss_heap ?st)"
  have ok: "store_ok ?st" "store_ok (gw_store gw0)" using sp assms(2) by (auto simp: store_part_def fresh_start_def)
  have "r \<notin> snd ` set (ss_maps ?st)"
  proof
    assume "r \<in> snd ` set (ss_maps ?st)"
    then obtain k where "(k, r) \<in> set (ss_maps ?st)" by auto
    then have "map_of (ss_maps (gw_store gw0)) k = Some r" using ok(1) by (simp add: store_ok_def flip: eq)
    from live_slot [OF ok(2) this] r(1) show False by simp
  qed
  with ok(1) r(2) show "sm_purged (ss_heap ?st ! r) \<and> sm_encrypted (ss_heap ?st ! r) = []"
    by (simp add: store_ok_def)
qed

section \<open>Properties\<close>

lemma phase_sent:
  assumes "phase_ok P RS XS gw0 c ph own sent" "b \<in> set sent"
  shows "\<exists>R \<in> RS. \<exists>X \<in> XS. \<exists>res gw'. handle_chat P (ca_draws c) (Some (ca_context c)) (ca_body c) (ca_key c) (snapshot gw0 R X) = (res, gw', sent)"
proof -
  have alone: ?thesis if "R \<in> RS" "X \<in> XS" "alone P c (snapshot gw0 R X) = (res, sent)" for R X res
  proof -
    obtain res' gw' sent' where h: "handle_chat P (ca_draws c) (Some (ca_context c)) (ca_body c) (ca_key c) (snapshot gw0 R X) =
      (res', gw', sent')" by (rule prod_cases3)
    with that show ?thesis by (auto simp: alone_def intro!: bexI [of _ R] bexI [of _ X])
  qed
  have from_sent: ?thesis if ok: "sent_ok P RS XS gw0 c n m fr sm sent" for n m fr sm
  proof -
    obtain R X tx fresh where R: "R \<in> RS" "X \<in> XS" "sent = [JObj (replace_messages (ca_body c) (fr_sanitised_text fr))]"
        "analyse P (Some (ca_context c)) (ca_body c) (snapshot gw0 R X) = Inr (tx, n, m)" "own_map c gw0 = Inr fresh"
        "apply_substitution (pl_aead P) (pl_packs P) (rq_draws (ca_draws c)) tx (accepted m) fresh
          (cc_country_code (ca_context c)) (rq_salt (ca_draws c)) = (Inr fr, sm)"
      using ok unfolding sent_ok_def by blast
    have "snd (alone P c (snapshot gw0 R X)) = sent"
      using alone_ran [OF R(4), of fresh] R(3,5,6) by (simp add: exchange_stages split: sum.split prod.split)
    with R(1,2) alone show ?thesis by (metis prod.collapse)
  qed
  show ?thesis
  proof (cases ph)
    case (Done res)
    with assms(1) obtain R X where "R \<in> RS" "X \<in> XS" "alone P c (snapshot gw0 R X) = (res, sent)" by auto
    then show ?thesis by (rule alone)
  qed (use assms from_sent in auto)
qed

lemma interleaved_alone:
  assumes "sys_reachable P calls RS XS (initial calls gw0) s" "fresh_start P calls RS XS gw0"
    and "i < length calls" "sy_phases s ! i = Done res"
  shows "\<exists>R \<in> RS. \<exists>X \<in> XS. alone P (calls ! i) (snapshot gw0 R X) = (res, sy_sent s ! i)"
proof -
  have "phase_ok P RS XS gw0 (calls ! i) (sy_phases s ! i) (nth (ss_heap (gw_store (sy_gateway s)))) (sy_sent s ! i)"
    using coherent_reachable [OF assms(1,2)] assms(3) by (simp add: coherent_def)
  with assms(4) show ?thesis by simp
qed

text \<open>
  C3. Requests do not disturb each other. In any interleaving of requests with new and distinct ids,
  while rules and exceptions change at will, a request that has ended returned and sent what
  \<open>handle_chat\<close> returns and sends when it runs alone on the gateway the run started from, with some
  of the rules and some of the exceptions of the run.
\<close>

theorem interleaving_transparent:
  assumes "sys_reachable P calls RS XS (initial calls gw0) s" "fresh_start P calls RS XS gw0"
    and "i < length calls" "c = calls ! i" "sy_phases s ! i = Done res"
  shows "\<exists>R \<in> RS. \<exists>X \<in> XS. \<exists>gw'. handle_chat P (ca_draws c) (Some (ca_context c)) (ca_body c) (ca_key c)
    (gw0\<lparr>gw_rules := R, gw_exceptions := X\<rparr>) = (res, gw', sy_sent s ! i)"
proof -
  from interleaved_alone [OF assms(1-3), of res] assms(4,5)
  obtain R X where "R \<in> RS" "X \<in> XS" "alone P c (snapshot gw0 R X) = (res, sy_sent s ! i)" by auto
  then show ?thesis
    by (auto simp: alone_def snapshot_def split: prod.splits intro!: bexI [of _ R] bexI [of _ X])
qed

text \<open>
  C9. Nothing reaches the provider in the clear, whatever the interleaving and however far the
  requests have come: a request sends at most one body, its own with the messages replaced by
  the text in which the generator's values for this request stand in place of the accepted spans
  of an analysis of its own text.
\<close>

theorem interleaved_sends_sanitised:
  assumes "sys_reachable P calls RS XS (initial calls gw0) s" "fresh_start P calls RS XS gw0"
    and "i < length calls" "c = calls ! i" "b \<in> set (sy_sent s ! i)"
  shows "sy_sent s ! i = [b] \<and> (\<exists>R \<in> RS. \<exists>X \<in> XS. \<exists>tx n m syns b'.
    analyse P (Some (ca_context c)) (ca_body c) (gw0\<lparr>gw_rules := R, gw_exceptions := X\<rparr>) = Inr (tx, n, m) \<and>
    synthetic_values (pl_packs P) (rq_draws (ca_draws c)) (cc_country_code (ca_context c)) (rq_salt (ca_draws c)) (accepted m) syns \<and>
    tx = weave tx 0 (zip (accepted m) (map d_text (accepted m))) \<and>
    b = JObj b' \<and> map_of b' (lit ''messages'') = Some (JList [user_message (weave tx 0 (zip (accepted m) syns))]) \<and>
    (\<forall>k. k \<noteq> lit ''messages'' \<longrightarrow> map_of b' k = map_of (ca_body c) k))"
proof -
  have "phase_ok P RS XS gw0 c (sy_phases s ! i) (nth (ss_heap (gw_store (sy_gateway s)))) (sy_sent s ! i)"
    using coherent_reachable [OF assms(1,2)] assms(3,4) by (auto simp: coherent_def)
  from phase_sent [OF this assms(5)] obtain R X res gw' where R: "R \<in> RS" "X \<in> XS"
    "handle_chat P (ca_draws c) (Some (ca_context c)) (ca_body c) (ca_key c) (snapshot gw0 R X) = (res, gw', sy_sent s ! i)"
    by blast
  from handle_chat_sent [OF R(3) assms(5)] R(1,2) show ?thesis unfolding snapshot_def by blast
qed

text \<open>The requests that have been answered, and what a step does to the log when it answers one.\<close>

definition answered :: "chat_call list \<Rightarrow> 'b system_on \<Rightarrow> nat set" where
  "answered calls s = {i. i < length calls \<and> (\<exists>final. sy_phases s ! i = Done (Inr final))}"

lemma answered_run:
  assumes "i < length calls" "length (sy_phases s) = length calls"
    and "advance P (calls ! i) (sy_phases s ! i) (sy_gateway s) = (ph', gw', out)"
  shows "answered calls (run_call P calls i s) =
    (if answered_phase ph' then insert i (answered calls s) else answered calls s - {i})"
  using assms by (auto simp: answered_def run_call_on_def answered_phase_def nth_list_update)

lemma answering_step:
  assumes "coherent P calls RS XS gw0 s" "sys_step_on memory_latest_hash memory_append P calls RS XS s s'"
  shows "answered calls s' = answered calls s \<and> gw_audit (sy_gateway s') = gw_audit (sy_gateway s) \<or>
    (\<exists>i rec. i < length calls \<and> i \<notin> answered calls s \<and> answered calls s' = insert i (answered calls s) \<and>
      gw_audit (sy_gateway s') = gw_audit (sy_gateway s) @ [rec] \<and> ar_request_id rec = call_id (calls ! i) \<and>
      ar_customer_id rec = cc_customer_id (ca_context (calls ! i)))"
  using assms(2)
proof (rule sys_stepE)
  fix i
  assume s': "s' = run_call P calls i s" and i: "i < length calls"
  obtain ph' gw' out where a: "advance P (calls ! i) (sy_phases s ! i) (sy_gateway s) = (ph', gw', out)" by (rule prod_cases3)
  have len: "length (sy_phases s) = length calls" and log: "log_ok P (gw_audit (sy_gateway s))"
    using assms(1) by (auto simp: coherent_def log_part_def)
  have w: "gw_audit (sy_gateway (run_call P calls i s)) = gw_audit gw'" by (simp add: run_call_on_def a)
  have now: "i \<in> answered calls s \<longleftrightarrow> answered_phase (sy_phases s ! i)" using i by (simp add: answered_def answered_phase_def)
  note l = advance_log [OF a log] and e = answered_run [OF i len a]
  show ?thesis
  proof (cases "answered_phase ph' = answered_phase (sy_phases s ! i)")
    case True
    with l e now show ?thesis unfolding s' w by (auto simp: insert_absorb)
  next
    case False
    with l e now i show ?thesis unfolding s' w by auto
  qed
next
  fix R X
  assume "s' = with_rules R X s"
  then show ?thesis by (simp add: with_rules_def answered_def)
qed

text \<open>
  C4. The shared audit log under interleaving: at every moment the chain verifies, and the records
  added since the start are one for each request answered so far, each with the request's id and its
  customer; failed and waiting requests have none. They stand in the order of the answers: the step that
  answers a request appends its record at the end, and no other step changes the log.
\<close>

theorem interleaved_audit:
  assumes "sys_reachable P calls RS XS (initial calls gw0) s" "fresh_start P calls RS XS gw0"
  shows "verify_chain (pl_float_repr P) (pl_writer P) (gw_audit (sy_gateway s)) = Inr () \<and>
    (\<exists>order new. gw_audit (sy_gateway s) = gw_audit gw0 @ new \<and> distinct order \<and> set order = answered calls s \<and>
      map (\<lambda>rec. (ar_request_id rec, ar_customer_id rec)) new =
        map (\<lambda>i. (call_id (calls ! i), cc_customer_id (ca_context (calls ! i)))) order) \<and>
    (\<forall>s'. sys_step_on memory_latest_hash memory_append P calls RS XS s s' \<longrightarrow>
      answered calls s' = answered calls s \<and> gw_audit (sy_gateway s') = gw_audit (sy_gateway s) \<or>
      (\<exists>i rec. i < length calls \<and> i \<notin> answered calls s \<and> answered calls s' = insert i (answered calls s) \<and>
        gw_audit (sy_gateway s') = gw_audit (sy_gateway s) @ [rec] \<and> ar_request_id rec = call_id (calls ! i) \<and>
        ar_customer_id rec = cc_customer_id (ca_context (calls ! i))))"
proof -
  note c = coherent_reachable [OF assms]
  show ?thesis
  proof (intro conjI allI impI)
    show "log_ok P (gw_audit (sy_gateway s))" using c by (simp add: coherent_def log_part_def)
    show "\<exists>order new. gw_audit (sy_gateway s) = gw_audit gw0 @ new \<and> distinct order \<and> set order = answered calls s \<and>
        map (\<lambda>rec. (ar_request_id rec, ar_customer_id rec)) new =
          map (\<lambda>i. (call_id (calls ! i), cc_customer_id (ca_context (calls ! i)))) order"
      using c unfolding coherent_def log_part_def answered_def answered_phase_def by blast
  qed (rule answering_step [OF c])
qed

text \<open>
  C8. Every schedule that runs each request five times ends all of them, answered or failed, and
  leaves no session map behind: the registry is as it was, and every map opened is purged and empty.
\<close>

theorem schedule_drains:
  assumes "set sch \<subseteq> {..<length calls}" "\<And>i. i < length calls \<Longrightarrow> 5 \<le> count_list sch i"
    and "fresh_start P calls RS XS gw0" "s = run_schedule P calls sch (initial calls gw0)"
  shows "(\<forall>i < length calls. \<exists>res. sy_phases s ! i = Done res) \<and>
    map_of (ss_maps (gw_store (sy_gateway s))) = map_of (ss_maps (gw_store gw0)) \<and>
    (\<forall>r. length (ss_heap (gw_store gw0)) \<le> r \<and> r < length (ss_heap (gw_store (sy_gateway s))) \<longrightarrow>
      sm_purged (ss_heap (gw_store (sy_gateway s)) ! r) \<and> sm_encrypted (ss_heap (gw_store (sy_gateway s)) ! r) = [])"
proof -
  have "coherent P calls RS XS gw0 s"
    using coherent_reachable [OF schedule_reachable [OF assms(1) sys_start] assms(3)] assms(4) by simp
  moreover have done': "\<exists>res. sy_phases s ! i = Done res" if "i < length calls" for i
    using schedule_done [OF that] assms(2) that assms(4) by simp
  moreover have "slot_of (sy_phases s ! i) = None" if "i < length calls" for i
    using done' [OF that] by auto
  ultimately show ?thesis using drained [OF _ assms(3), of s] by blast
qed

section \<open>Two requests, turn by turn\<close>

definition sample_calls :: "chat_call list" where
  "sample_calls =
     [\<lparr>ca_draws = sample_request, ca_context = sample_customer, ca_body = sample_body, ca_key = []\<rparr>,
      \<lparr>ca_draws = sample_request\<lparr>rq_uuid_hex := lit ''1''\<rparr>, ca_context = sample_customer, ca_body = sample_body, ca_key = []\<rparr>]"

definition sample_turns :: "nat list" where
  "sample_turns = [0, 1, 0, 1, 0, 1, 0, 1, 0, 1]"

abbreviation crowd_pipeline :: pipeline where
  "crowd_pipeline \<equiv> sample_pipeline Strict (Inr []) (Inr [custom_at 2 4])"

abbreviation after_turns :: system where
  "after_turns \<equiv> run_schedule crowd_pipeline sample_calls sample_turns (initial sample_calls sample_gateway)"

lemma sample_calls_simps [simp]:
  "length sample_calls = Suc (Suc 0)" "sample_calls ! 0 =
    \<lparr>ca_draws = sample_request, ca_context = sample_customer, ca_body = sample_body, ca_key = []\<rparr>"
  by (simp_all add: sample_calls_def)

lemma sample_turns_ok: "set sample_turns \<subseteq> {..<length sample_calls}" "i < length sample_calls \<Longrightarrow> 5 \<le> count_list sample_turns i"
  by (auto simp: sample_turns_def less_Suc_eq)

lemma sample_fresh_start:
  "fresh_start crowd_pipeline sample_calls {gw_rules sample_gateway} {gw_exceptions sample_gateway} sample_gateway"
proof -
  have "store_ok (gw_store sample_gateway)" by (simp add: sample_gateway_def empty_store_ok)
  moreover have "ss_maps (gw_store sample_gateway) = []" "gw_audit sample_gateway = []"
    by (simp_all add: sample_gateway_def empty_store_def)
  ultimately show ?thesis
    by (simp add: fresh_start_def sample_calls_def sample_request_def request_id_def verify_chain_def)
qed

lemma after_turns_reachable:
  "sys_reachable crowd_pipeline sample_calls RS XS (initial sample_calls sample_gateway) after_turns"
  by (rule schedule_reachable [OF sample_turns_ok(1) sys_start])

lemma sample_snapshot: "sample_gateway\<lparr>gw_rules := gw_rules sample_gateway, gw_exceptions := gw_exceptions sample_gateway\<rparr> = sample_gateway"
  by simp

lemma interleaving_transparent_witness:
  "\<exists>res gw'. sy_phases after_turns ! 0 = Done res \<and>
    handle_chat crowd_pipeline sample_request (Some sample_customer) sample_body [] sample_gateway = (res, gw', sy_sent after_turns ! 0)"
proof -
  obtain res where r: "sy_phases after_turns ! 0 = Done res" using schedule_done [OF _ sample_turns_ok(2)] by force
  from interleaving_transparent [OF after_turns_reachable sample_fresh_start _ HOL.refl r] r show ?thesis
    by (auto simp: sample_snapshot)
qed

lemma interleaved_sends_sanitised_witness:
  "\<exists>b b'. sy_sent after_turns ! 0 = [b] \<and> b = JObj b' \<and> map_of b' (lit ''model'') = Some (JStr (lit ''m''))"
proof -
  obtain res where r: "sy_phases after_turns ! 0 = Done res" using schedule_done [OF _ sample_turns_ok(2)] by force
  obtain final gw' sent where h: "handle_chat crowd_pipeline sample_request (Some sample_customer) sample_body [] sample_gateway =
      (Inr final, gw', sent)" by (rule sample_outcome)
  from interleaved_alone [OF after_turns_reachable sample_fresh_start _ r] h
  have "sy_sent after_turns ! 0 = sent" by (simp add: alone_def snapshot_def)
  then obtain b where "b \<in> set (sy_sent after_turns ! 0)" using h by (auto elim: handle_chat_ok)
  from interleaved_sends_sanitised [OF after_turns_reachable sample_fresh_start _ HOL.refl this]
  obtain b' where b: "sy_sent after_turns ! 0 = [b]" "b = JObj b'"
      "\<And>k. k \<noteq> lit ''messages'' \<Longrightarrow> map_of b' k = map_of sample_body k"
    by auto
  have "map_of b' (lit ''model'') = Some (JStr (lit ''m''))" using b(3) [of "lit ''model''"] by (simp add: sample_body_def)
  with b(1,2) show ?thesis by blast
qed

lemma interleaved_audit_witness:
  "verify_chain (pl_float_repr crowd_pipeline) (pl_writer crowd_pipeline) (gw_audit (sy_gateway after_turns)) = Inr ()"
  using interleaved_audit [OF after_turns_reachable sample_fresh_start] by blast

lemma schedule_drains_witness: "map_of (ss_maps (gw_store (sy_gateway after_turns))) = Map.empty"
  using schedule_drains [OF sample_turns_ok sample_fresh_start HOL.refl] by (simp add: sample_gateway_def empty_store_def)

end
