(* ===== verification/Crowds.thy ===== *)
theory Crowds
  imports Backends Interleaving
begin

text \<open>
  Requests in flight together over any audit backend. The writes of \<open>AuditWriter\<close> are blocking, so one
  piece of a request writes at most once and nothing runs meanwhile. Over a backend that keeps the laws
  of \<open>keyed_log\<close> a system of requests does, step by step, what the same system does over the in-memory
  log, so what \<open>Interleaving\<close> shows of it holds of the database too.
\<close>

definition system_with_log :: "'b \<Rightarrow> 'a system_on \<Rightarrow> 'b system_on" where
  "system_with_log recs s = \<lparr>sy_gateway = with_log recs (sy_gateway s), sy_phases = sy_phases s, sy_sent = sy_sent s\<rparr>"

lemma system_with_log_fields [simp]:
  "sy_gateway (system_with_log recs s) = with_log recs (sy_gateway s)"
  "sy_phases (system_with_log recs s) = sy_phases s" "sy_sent (system_with_log recs s) = sy_sent s"
  by (simp_all add: system_with_log_def)

lemma initial_with_log: "system_with_log recs (initial calls gw) = initial calls (with_log recs gw)"
  by (simp add: system_with_log_def initial_def)

lemma leave_with_log [simp]:
  "leave c r sm (with_log recs gw) = with_log recs (leave c r sm gw)"
  "with_log recs (leave c r sm (gw\<lparr>gw_audit := b\<rparr>)) = with_log recs (leave c r sm gw)"
  "gw_audit (leave c r sm gw) = gw_audit gw"
  by (simp_all add: leave_def with_log_def)

lemma with_log_updates [simp]:
  "(with_log recs gw)\<lparr>gw_audit := recs'\<rparr> = with_log recs' gw"
  "(with_log recs gw)\<lparr>gw_store := st\<rparr> = with_log recs (gw\<lparr>gw_store := st\<rparr>)"
  by (simp_all add: with_log_def)

abbreviation unfinished :: "phase \<Rightarrow> bool" where
  "unfinished ph \<equiv> \<forall>res. ph \<noteq> Done res"

section \<open>Over every backend keyed by the record identifier\<close>

text \<open>Writing a record takes no other identifier away.\<close>

locale keyed_log = log_backend +
  assumes accepts_other: "invar b \<Longrightarrow> append_record r b = Inr b' \<Longrightarrow> ar_record_id r' \<noteq> ar_record_id r \<Longrightarrow>
    accepts r' b' = accepts r' b"
begin

lemma latest_takes: "invar b \<Longrightarrow> latest b = Inr (h, b') \<Longrightarrow> takes q ctx b' = takes q ctx b"
  using latest_total [of b] by (fastforce simp: takes_def)

lemma record_takes:
  assumes "invar b" "writer_record latest append_record A fr w cur dr rid ev p b = Inr (r, b')"
    and "ad_uuid (rq_audit q) \<noteq> ad_uuid dr"
  shows "takes q ctx b' = takes q ctx b"
proof -
  from assms(2) obtain rec prev b1 where s: "prepare_record A fr w cur dr rid ev p = Inr rec"
      "latest b = Inr (prev, b1)" "seal_record w rec prev = Inr r" "append_record r b1 = Inr b'"
    by (auto simp: writer_record_def bindE_eq_Inr)
  have "ar_record_id r = ad_uuid dr" using s(3) prepared_id [OF s(1)] by (auto simp: seal_record_def bindE_eq_Inr)
  moreover have "invar b1" using latest_head [OF assms(1) s(2)] by simp
  ultimately have "accepts x b' = accepts x b1" if "ar_record_id x = ad_uuid (rq_audit q)" for x
    using accepts_other [OF _ s(4)] assms(3) that by simp
  then have "takes q ctx b' = takes q ctx b1" unfolding takes_def using prepared_id by blast
  with latest_takes [OF assms(1) s(2)] show ?thesis by simp
qed

lemma failed_takes: "invar b \<Longrightarrow> takes q ctx (failed_record latest A fr w cur dr rid ev p b) = takes q ctx b"
  using latest_takes [of b] by (auto simp: failed_record_def bindE_eq_Inr split: sum.splits)

lemma finish_as_memory:
  assumes "invar b" "takes (ca_draws c) (ca_context c) b"
    and "finish_reply_on latest append_record P c m n fr resp sm b = (res, sm', b')"
  shows "finish_reply P c m n fr resp sm (all_records b) = (res, sm', all_records b') \<and> invar b'"
  using assms(3) record_raised [OF assms(1,2)] record_recorded [OF assms(1,2)] assms(1)
  unfolding finish_reply_on_def Let_def
  by (auto simp: failed_record_log split: sum.splits prod.splits)

lemma finish_takes:
  assumes "invar b" "finish_reply_on latest append_record P c m n fr resp sm b = (res, sm', b')"
    and "ad_uuid (rq_audit q) \<noteq> call_record_id c"
  shows "takes q ctx b' = takes q ctx b"
  using assms(2) record_takes [OF assms(1) _ assms(3)]
  unfolding finish_reply_on_def Let_def
  by (auto simp: failed_takes [OF assms(1)] split: sum.splits prod.splits)

section \<open>One piece of a request\<close>

lemma advance_as_memory:
  assumes "invar (gw_audit gw)" "unfinished ph \<Longrightarrow> takes (ca_draws c) (ca_context c) (gw_audit gw)"
    and "advance_on latest append_record P c ph gw = (ph', gw', out)"
  shows "advance P c ph (with_log (all_records (gw_audit gw)) gw) =
      (ph', with_log (all_records (gw_audit gw')) gw', out) \<and> invar (gw_audit gw')"
proof (cases ph)
  case (Replied n m r fr resp)
  obtain res sm b' where f: "finish_reply_on latest append_record P c m n fr resp (ss_heap (gw_store gw) ! r) (gw_audit gw) =
      (res, sm, b')" by (rule prod_cases3)
  from finish_as_memory [OF assms(1) assms(2) f] Replied assms(3) f show ?thesis by auto
qed (use assms(1,3) in \<open>auto split: sum.splits prod.splits\<close>)

lemma advance_takes:
  assumes "invar (gw_audit gw)" "advance_on latest append_record P c ph gw = (ph', gw', out)"
    and "ad_uuid (rq_audit q) \<noteq> call_record_id c"
  shows "takes q ctx (gw_audit gw') = takes q ctx (gw_audit gw)"
proof (cases ph)
  case (Replied n m r fr resp)
  obtain res sm b' where f: "finish_reply_on latest append_record P c m n fr resp (ss_heap (gw_store gw) ! r) (gw_audit gw) =
      (res, sm, b')" by (rule prod_cases3)
  from finish_takes [OF assms(1) f assms(3)] Replied assms(2) f show ?thesis by auto
qed (use assms(2) in \<open>auto split: sum.splits prod.splits\<close>)

lemma advance_finished: "\<not> unfinished ph \<Longrightarrow> advance_on latest append_record P c ph gw = (ph, gw, [])"
  by auto

section \<open>The system\<close>

text \<open>Every request that has not ended can still write its record.\<close>

definition can_record :: "chat_call list \<Rightarrow> 'a system_on \<Rightarrow> bool" where
  "can_record calls s =
     (invar (gw_audit (sy_gateway s)) \<and> length (sy_phases s) = length calls \<and>
      (\<forall>i < length calls. unfinished (sy_phases s ! i) \<longrightarrow> takes (ca_draws (calls ! i)) (ca_context (calls ! i)) (gw_audit (sy_gateway s))))"

definition memory_view :: "'a system_on \<Rightarrow> system" where
  "memory_view s = system_with_log (all_records (gw_audit (sy_gateway s))) s"

lemma run_call_as_memory:
  assumes "can_record calls s" "distinct (map call_record_id calls)" "i < length calls"
  shows "run_call P calls i (memory_view s) = memory_view (run_call_on latest append_record P calls i s) \<and>
    can_record calls (run_call_on latest append_record P calls i s)"
proof -
  let ?gw = "sy_gateway s" and ?ph = "sy_phases s ! i"
  obtain ph' gw' out where a: "advance_on latest append_record P (calls ! i) ?ph ?gw = (ph', gw', out)" by (rule prod_cases3)
  have c: "invar (gw_audit ?gw)" "length (sy_phases s) = length calls"
    "unfinished (sy_phases s ! j) \<Longrightarrow> takes (ca_draws (calls ! j)) (ca_context (calls ! j)) (gw_audit ?gw)" if "j < length calls" for j
    using assms(1) that by (simp_all add: can_record_def)
  note m = advance_as_memory [OF c(1) c(3) a, OF assms(3) assms(3)]
  have "takes (ca_draws (calls ! j)) (ca_context (calls ! j)) (gw_audit gw')"
    if j: "j < length calls" "unfinished ((sy_phases s)[i := ph'] ! j)" for j
  proof (cases "j = i")
    case True
    then have "unfinished ph'" using j c(2) by simp
    then show ?thesis
      using a c(1,3) [OF assms(3)] True by (cases ?ph) (auto split: sum.splits prod.splits)
  next
    case False
    then have "call_record_id (calls ! j) \<noteq> call_record_id (calls ! i)"
      using assms(2,3) j(1) by (simp add: distinct_conv_nth)
    from advance_takes [OF c(1) a this] c(3) [OF j(1)] j False assms(3) show ?thesis by simp
  qed
  then have "can_record calls (run_call_on latest append_record P calls i s)"
    using m c(2) [OF assms(3)] by (simp add: can_record_def run_call_on_def a)
  moreover have "run_call P calls i (memory_view s) = memory_view (run_call_on latest append_record P calls i s)"
    using m by (simp add: memory_view_def run_call_on_def a system_with_log_def)
  ultimately show ?thesis by blast
qed

lemma with_rules_view: "with_rules R X (memory_view s) = memory_view (with_rules R X s)"
  by (simp add: with_rules_def memory_view_def system_with_log_def with_log_def)

lemma with_rules_can_record: "can_record calls (with_rules R X s) = can_record calls s"
  by (simp add: with_rules_def can_record_def)

theorem interleaving_as_memory:
  assumes "sys_reachable_on latest append_record P calls RS XS s0 s" "can_record calls s0" "distinct (map call_record_id calls)"
  shows "sys_reachable P calls RS XS (memory_view s0) (memory_view s) \<and> can_record calls s"
  using assms(1)
proof induction
  case sys_start
  show ?case using assms(2) by (simp add: sys_reachable_on.sys_start)
next
  case (sys_more s s')
  from sys_more(2) show ?case
  proof (rule sys_stepE)
    fix i
    assume s': "s' = run_call_on latest append_record P calls i s" "i < length calls"
    with run_call_as_memory [OF _ assms(3) s'(2), of s P] sys_more.IH show ?thesis
      by (metis sys_reachable_on.sys_more runs)
  next
    fix R X
    assume s': "s' = with_rules R X s" "R \<in> RS" "X \<in> XS"
    with sys_more.IH show ?thesis
      using sys_reachable_on.sys_more [OF _ changes [OF s'(2,3)], of memory_latest_hash memory_append P calls "memory_view s0" "memory_view s"]
      by (simp add: with_rules_view with_rules_can_record)
  qed
qed

lemma schedule_as_memory:
  assumes "can_record calls s" "distinct (map call_record_id calls)" "set sch \<subseteq> {..<length calls}"
  shows "run_schedule P calls sch (memory_view s) = memory_view (run_schedule_on latest append_record P calls sch s) \<and>
    can_record calls (run_schedule_on latest append_record P calls sch s)"
  using assms(1,3)
proof (induction sch arbitrary: s)
  case (Cons i sch)
  from Cons.prems(2) have "i < length calls" by simp
  note r = run_call_as_memory [OF Cons.prems(1) assms(2) this, of P]
  with Cons.IH [of "run_call_on latest append_record P calls i s"] Cons.prems(2) show ?case
    by (simp add: run_schedule_on_def)
qed (simp add: run_schedule_on_def)

end

interpretation memory_keyed: keyed_log memory_latest_hash memory_append memory_all "\<lambda>_. True" "\<lambda>_ _. True"
  by unfold_locales simp

interpretation pg_keyed: keyed_log pg_latest_hash pg_append pg_select_all pg_sound pg_accepts
  by unfold_locales (auto simp: pg_append_def pg_insert_def pg_accepts_def bindE_eq_Inr split: if_splits)

section \<open>The database\<close>

lemma pg_can_record:
  assumes "pg_sound (gw_audit gw)" "\<forall>c \<in> set calls. call_storable c \<and> call_record_id c \<notin> logged_ids (gw_audit gw)"
  shows "pg_keyed.can_record calls (initial calls gw)"
  using assms by (simp add: pg_keyed.can_record_def initial_def pg_takes)

text \<open>
  C17. Requests in flight together over the database log do what they do over the in-memory log: each
  state that an interleaving of requests with fresh record identifiers and storable texts reaches over the table, with rules and
  exceptions changing at will, is a state the same requests reach over the in-memory log that starts
  with the records of the table, with the same phases and results, bodies sent, session store and
  records, as long as one process writes and the database clock advances.
\<close>

theorem pg_interleaving_refines_memory:
  assumes "pg_sound (gw_audit gw)" and "distinct (map call_record_id calls)"
    and "\<forall>c \<in> set calls. call_storable c \<and> call_record_id c \<notin> logged_ids (gw_audit gw)"
    and "sys_reachable_on pg_latest_hash pg_append P calls RS XS (initial calls gw) s"
  shows "\<exists>mem. sys_reachable P calls RS XS (initial calls (with_log (pg_select_all (gw_audit gw)) gw)) mem \<and>
    sy_phases mem = sy_phases s \<and> sy_sent mem = sy_sent s \<and> gw_store (sy_gateway mem) = gw_store (sy_gateway s) \<and>
    gw_audit (sy_gateway mem) = pg_select_all (gw_audit (sy_gateway s)) \<and> pg_sound (gw_audit (sy_gateway s))"
proof -
  note r = pg_keyed.interleaving_as_memory [OF assms(4) pg_can_record [OF assms(1,3)] assms(2)]
  have "pg_keyed.memory_view (initial calls gw) = initial calls (with_log (pg_select_all (gw_audit gw)) gw)"
    by (simp add: pg_keyed.memory_view_def initial_with_log) (simp add: initial_def)
  with r show ?thesis
    by (intro exI [of _ "pg_keyed.memory_view s"]) (simp add: pg_keyed.memory_view_def pg_keyed.can_record_def)
qed

text \<open>For a schedule: the same system, with the records of the table for the log.\<close>

lemma pg_schedule_as_memory:
  assumes "pg_sound (gw_audit gw)" "distinct (map call_record_id calls)"
    and "\<forall>c \<in> set calls. call_storable c \<and> call_record_id c \<notin> logged_ids (gw_audit gw)" "set sch \<subseteq> {..<length calls}"
    and "s = run_schedule_on pg_latest_hash pg_append P calls sch (initial calls gw)"
  shows "run_schedule P calls sch (initial calls (with_log (pg_select_all (gw_audit gw)) gw)) =
      system_with_log (pg_select_all (gw_audit (sy_gateway s))) s \<and> pg_sound (gw_audit (sy_gateway s))"
proof -
  have "pg_keyed.memory_view (initial calls gw) = initial calls (with_log (pg_select_all (gw_audit gw)) gw)"
    by (simp add: pg_keyed.memory_view_def initial_with_log) (simp add: initial_def)
  with pg_keyed.schedule_as_memory [OF pg_can_record [OF assms(1,3)] assms(2,4), of P] assms(5) show ?thesis
    by (simp add: pg_keyed.memory_view_def pg_keyed.can_record_def)
qed

section \<open>Witness\<close>

text \<open>Two requests turn by turn over an empty table, with record identifiers of their own.\<close>

definition pg_calls :: "chat_call list" where
  "pg_calls = [sample_calls ! 0, (sample_calls ! 0)\<lparr>ca_draws := sample_request\<lparr>rq_uuid_hex := lit ''1'',
     rq_audit := (rq_audit sample_request)\<lparr>ad_uuid := lit ''1''\<rparr>\<rparr>\<rparr>]"

lemma pg_calls_storable: "\<forall>c \<in> set pg_calls. call_storable c"
  by (simp add: pg_calls_def call_storable_def sample_request_def sample_audit_def sample_customer_def request_id_def text_ok_ascii)

lemma pg_interleaving_refines_memory_witness:
  "\<exists>mem. sy_phases mem = sy_phases (run_schedule_on pg_latest_hash pg_append crowd_pipeline pg_calls sample_turns
      (initial pg_calls (with_log (new_pg_audit int []) sample_gateway))) \<and>
    sys_reachable crowd_pipeline pg_calls UNIV UNIV (initial pg_calls (with_log [] sample_gateway)) mem"
proof -
  let ?gw = "with_log (new_pg_audit int []) sample_gateway"
  let ?s = "run_schedule_on pg_latest_hash pg_append crowd_pipeline pg_calls sample_turns (initial pg_calls ?gw)"
  have e: "pg_select_all (new_pg_audit int []) = []" by (simp add: pg_select_all_def new_pg_audit_def)
  have sound: "pg_sound (gw_audit ?gw)" by (simp add: pg_sound_def new_pg_audit_def strict_mono_def)
  have ids: "distinct (map call_record_id pg_calls)" by (simp add: pg_calls_def sample_request_def sample_audit_def)
  have reach: "sys_reachable_on pg_latest_hash pg_append crowd_pipeline pg_calls UNIV UNIV (initial pg_calls ?gw) ?s"
    by (rule schedule_reachable [OF _ sys_start]) (use sample_turns_ok(1) in \<open>simp add: pg_calls_def\<close>)
  have fresh: "\<forall>c \<in> set pg_calls. call_storable c \<and> call_record_id c \<notin> logged_ids (gw_audit ?gw)"
    using pg_calls_storable e by (simp add: logged_ids_def)
  from pg_interleaving_refines_memory [OF sound ids fresh reach] e show ?thesis by auto
qed

end
