(* ===== verification/Schema.thy ===== *)
theory Schema
  imports Rules PgAudit
begin

text \<open>
  \<open>src/db.py\<close>: the tables the migration creates, as data, and what an \<open>INSERT\<close> does under them: columns
  that are not named get their default, and types, \<open>NOT NULL\<close>, \<open>CHECK\<close> and primary keys are enforced.
  The statements of the stores that write and the reading of their rows are translated over these
  tables; the lemmas say that they do what the models of the stores, which keep records, do.
  A failing statement is an \<open>ExternalError\<close> with its SQLSTATE.
\<close>

section \<open>Tables\<close>

datatype sql_type = Sql_text | Sql_smallint | Sql_boolean | Sql_real | Sql_double | Sql_text_array | Sql_bytea | Sql_timestamptz

datatype sql_value =
    Null
  | Text_value ustr
  | Int_value int
  | Bool_value bool
  | Float_value pyfloat
  | Texts_value "ustr list"
  | Bytes_value bytes
  | Time_value int

datatype sql_default =
    No_default
  | Default_to sql_value
  | Default_now

record column =
  co_name :: ustr
  co_type :: sql_type
  co_not_null :: bool
  co_default :: sql_default
  co_check :: "int list"

text \<open>The first column of every table is its primary key; an empty \<open>co_check\<close> is no check.\<close>

type_synonym table = "column list"

definition col :: "ustr \<Rightarrow> sql_type \<Rightarrow> column" where
  "col name ty = \<lparr>co_name = name, co_type = ty, co_not_null = False, co_default = No_default, co_check = []\<rparr>"

definition required :: "ustr \<Rightarrow> sql_type \<Rightarrow> column" where
  "required name ty = (col name ty)\<lparr>co_not_null := True\<rparr>"

definition timestamp_now :: "ustr \<Rightarrow> column" where
  "timestamp_now name = (required name Sql_timestamptz)\<lparr>co_default := Default_now\<rparr>"

definition rules_table :: table where
  "rules_table =
     [required (lit ''rule_id'') Sql_text, (required (lit ''tier'') Sql_smallint)\<lparr>co_check := [1, 2, 3]\<rparr>,
      required (lit ''entity_type'') Sql_text, required (lit ''description'') Sql_text,
      col (lit ''country_code'') Sql_text, col (lit ''industry'') Sql_text, col (lit ''customer_id'') Sql_text,
      (required (lit ''enabled'') Sql_boolean)\<lparr>co_default := Default_to (Bool_value True)\<rparr>,
      (required (lit ''confidence_floor'') Sql_real)\<lparr>co_default := Default_to (Float_value (Finite 0))\<rparr>,
      (required (lit ''keywords'') Sql_text_array)\<lparr>co_default := Default_to (Texts_value [])\<rparr>,
      timestamp_now (lit ''created_at''), timestamp_now (lit ''updated_at'')]"

definition rule_exceptions_table :: table where
  "rule_exceptions_table =
     [required (lit ''exception_id'') Sql_text, required (lit ''customer_id'') Sql_text, col (lit ''rule_id'') Sql_text,
      col (lit ''entity_type'') Sql_text, col (lit ''text_match'') Sql_text, col (lit ''note'') Sql_text,
      timestamp_now (lit ''created_at'')]"

definition audit_log_table :: table where
  "audit_log_table =
     [required (lit ''record_id'') Sql_text, required (lit ''customer_id'') Sql_text, required (lit ''request_id'') Sql_text,
      required (lit ''event_type'') Sql_text, required (lit ''occurred_at'') Sql_double,
      required (lit ''payload_nonce'') Sql_bytea, required (lit ''payload_ciphertext'') Sql_bytea,
      required (lit ''content_hash'') Sql_text, required (lit ''prev_hash'') Sql_text,
      required (lit ''hmac_signature'') Sql_text, timestamp_now (lit ''created_at'')]"

definition customer_config_table :: table where
  "customer_config_table =
     [required (lit ''customer_id'') Sql_text, required (lit ''country_code'') Sql_text, required (lit ''plan'') Sql_text,
      required (lit ''api_key_hash'') Sql_text, required (lit ''upstream_provider_key'') Sql_text,
      (required (lit ''failure_mode'') Sql_text)\<lparr>co_default := Default_to (Text_value (lit ''strict''))\<rparr>,
      timestamp_now (lit ''created_at'')]"

section \<open>Inserting a row\<close>

type_synonym row = "(ustr, sql_value) dict"

text \<open>The types take the values \<open>Postgres\<close> says; a smallint has 16 bits.\<close>

fun fits :: "(pyfloat \<Rightarrow> pyfloat) \<Rightarrow> sql_type \<Rightarrow> sql_value \<Rightarrow> bool" where
  "fits to_real ty Null = True"
| "fits to_real Sql_text (Text_value s) = text_ok s"
| "fits to_real Sql_smallint (Int_value i) = (- 32768 \<le> i \<and> i \<le> 32767)"
| "fits to_real Sql_boolean (Bool_value b) = True"
| "fits to_real Sql_real (Float_value x) = real_ok to_real x"
| "fits to_real Sql_double (Float_value x) = True"
| "fits to_real Sql_text_array (Texts_value ss) = (\<forall>s \<in> set ss. text_ok s)"
| "fits to_real Sql_bytea (Bytes_value bs) = True"
| "fits to_real Sql_timestamptz (Time_value t) = True"
| "fits to_real _ _ = False"

text \<open>A \<open>real\<close> column keeps single precision; \<open>to_real\<close> is the rounding.\<close>

fun stored :: "(pyfloat \<Rightarrow> pyfloat) \<Rightarrow> sql_type \<Rightarrow> sql_value \<Rightarrow> sql_value" where
  "stored to_real Sql_real (Float_value x) = Float_value (to_real x)"
| "stored to_real ty v = v"

definition column_value :: "(pyfloat \<Rightarrow> pyfloat) \<Rightarrow> int \<Rightarrow> row \<Rightarrow> column \<Rightarrow> sql_value" where
  "column_value to_real now vals c =
     (case map_of vals (co_name c) of
        Some v \<Rightarrow> stored to_real (co_type c) v
      | None \<Rightarrow> (case co_default c of No_default \<Rightarrow> Null | Default_to v \<Rightarrow> v | Default_now \<Rightarrow> Time_value now))"

definition check_ok :: "column \<Rightarrow> sql_value \<Rightarrow> bool" where
  "check_ok c v = (co_check c = [] \<or> v = Null \<or> v \<in> Int_value ` set (co_check c))"

text \<open>
  The arguments of a statement must fit their columns; then the row is made from them and the defaults, and
  \<open>NOT NULL\<close>, the checks and the primary key are enforced.
\<close>

definition insert_row :: "(pyfloat \<Rightarrow> pyfloat) \<Rightarrow> table \<Rightarrow> int \<Rightarrow> row \<Rightarrow> row list \<Rightarrow> row list res" where
  "insert_row to_real t now vals rows =
     (let new = map (\<lambda>c. (co_name c, column_value to_real now vals c)) t;
          given = \<lambda>c. case map_of vals (co_name c) of None \<Rightarrow> Null | Some v \<Rightarrow> v
      in if \<not> fst ` set vals \<subseteq> co_name ` set t then Inl (ExternalError 42703)
         else if list_ex (\<lambda>c. \<not> fits to_real (co_type c) (given c)) t then Inl (ExternalError 22021)
         else if list_ex (\<lambda>(c, _, v). co_not_null c \<and> v = Null) (zip t new) then Inl (ExternalError 23502)
         else if list_ex (\<lambda>(c, _, v). \<not> check_ok c v) (zip t new) then Inl (ExternalError 23514)
         else if hd new \<in> hd ` set rows then Inl (ExternalError 23505)
         else Inr (rows @ [new]))"

section \<open>The statements of the stores\<close>

fun text_or_null :: "ustr option \<Rightarrow> sql_value" where
  "text_or_null None = Null"
| "text_or_null (Some s) = Text_value s"

definition rule_values :: "rule \<Rightarrow> row" where
  "rule_values r =
     [(lit ''rule_id'', Text_value (r_rule_id r)), (lit ''tier'', Int_value (r_tier r)),
      (lit ''entity_type'', Text_value (r_entity_type r)), (lit ''description'', Text_value (r_description r)),
      (lit ''country_code'', text_or_null (r_country_code r)), (lit ''industry'', text_or_null (r_industry r)),
      (lit ''customer_id'', text_or_null (r_customer_id r)), (lit ''enabled'', Bool_value (r_enabled r)),
      (lit ''confidence_floor'', Float_value (r_confidence_floor r)), (lit ''keywords'', Texts_value (r_keywords r))]"

text \<open>
  The upsert of a rule: the unique violation of the primary key turns into an update of the row that has it,
  of the columns the statement names, if the row is the customer's. A comparison with \<open>NULL\<close> is not true.
\<close>

definition set_columns :: "row \<Rightarrow> row \<Rightarrow> row" where
  "set_columns vals row = map (\<lambda>(c, v). (c, case map_of vals c of None \<Rightarrow> v | Some v' \<Rightarrow> v')) row"

definition updated_values :: "(pyfloat \<Rightarrow> pyfloat) \<Rightarrow> int \<Rightarrow> rule \<Rightarrow> row" where
  "updated_values to_real now r =
     [(lit ''description'', Text_value (r_description r)), (lit ''entity_type'', Text_value (r_entity_type r)),
      (lit ''enabled'', Bool_value (r_enabled r)), (lit ''confidence_floor'', Float_value (to_real (r_confidence_floor r))),
      (lit ''keywords'', Texts_value (r_keywords r)), (lit ''updated_at'', Time_value now)]"

definition same_customer :: "rule \<Rightarrow> row \<Rightarrow> bool" where
  "same_customer r row = (case r_customer_id r of None \<Rightarrow> False
     | Some cid \<Rightarrow> map_of row (lit ''customer_id'') = Some (Text_value cid))"

definition upsert_rule :: "(pyfloat \<Rightarrow> pyfloat) \<Rightarrow> int \<Rightarrow> rule \<Rightarrow> row list \<Rightarrow> row list res" where
  "upsert_rule to_real now r rows =
     (case insert_row to_real rules_table now (rule_values r) rows of
        Inl e \<Rightarrow>
          if e = ExternalError 23505
          then Inr (map (\<lambda>row. if hd row = (lit ''rule_id'', Text_value (r_rule_id r)) \<and> same_customer r row
                 then set_columns (updated_values to_real now r) row else row) rows)
          else Inl e
      | Inr rows' \<Rightarrow> Inr rows')"

definition exception_values :: "rule_exception \<Rightarrow> row" where
  "exception_values e =
     [(lit ''exception_id'', Text_value (x_exception_id e)), (lit ''customer_id'', Text_value (x_customer_id e)),
      (lit ''rule_id'', text_or_null (x_rule_id e)), (lit ''entity_type'', text_or_null (x_entity_type e)),
      (lit ''text_match'', text_or_null (x_text_match e)), (lit ''note'', text_or_null (x_note e))]"

definition record_values :: "audit_record \<Rightarrow> row" where
  "record_values rec =
     [(lit ''record_id'', Text_value (ar_record_id rec)), (lit ''customer_id'', Text_value (ar_customer_id rec)),
      (lit ''request_id'', Text_value (ar_request_id rec)), (lit ''event_type'', Text_value (ar_event_type rec)),
      (lit ''occurred_at'', Float_value (ar_occurred_at rec)), (lit ''payload_nonce'', Bytes_value (ar_payload_nonce rec)),
      (lit ''payload_ciphertext'', Bytes_value (ar_payload_ciphertext rec)), (lit ''content_hash'', Text_value (ar_content_hash rec)),
      (lit ''prev_hash'', Text_value (ar_prev_hash rec)), (lit ''hmac_signature'', Text_value (ar_hmac_signature rec))]"

text \<open>Reading a column of a row, as a value of the type the code expects.\<close>

definition cell :: "row \<Rightarrow> ustr \<Rightarrow> sql_value res" where
  "cell row name = (case map_of row name of None \<Rightarrow> Inl KeyError | Some v \<Rightarrow> Inr v)"

fun as_text :: "sql_value \<Rightarrow> ustr res" where
  "as_text (Text_value s) = Inr s"
| "as_text _ = Inl TypeError"

fun as_optional_text :: "sql_value \<Rightarrow> ustr option res" where
  "as_optional_text Null = Inr None"
| "as_optional_text v = bindE (as_text v) (\<lambda>s. Inr (Some s))"

fun as_int :: "sql_value \<Rightarrow> int res" where
  "as_int (Int_value i) = Inr i"
| "as_int _ = Inl TypeError"

fun as_bool :: "sql_value \<Rightarrow> bool res" where
  "as_bool (Bool_value b) = Inr b"
| "as_bool _ = Inl TypeError"

fun as_float :: "sql_value \<Rightarrow> pyfloat res" where
  "as_float (Float_value x) = Inr x"
| "as_float _ = Inl TypeError"

fun as_bytes :: "sql_value \<Rightarrow> bytes res" where
  "as_bytes (Bytes_value b) = Inr b"
| "as_bytes _ = Inl TypeError"

text \<open>\<open>tuple(row["keywords"] or ())\<close>.\<close>

fun as_texts_or_empty :: "sql_value \<Rightarrow> ustr list res" where
  "as_texts_or_empty Null = Inr []"
| "as_texts_or_empty (Texts_value ss) = Inr ss"
| "as_texts_or_empty _ = Inl TypeError"

abbreviation field :: "row \<Rightarrow> ustr \<Rightarrow> (sql_value \<Rightarrow> 'a res) \<Rightarrow> 'a res" where
  "field row name as \<equiv> bindE (cell row name) as"

definition rule_of_row :: "row \<Rightarrow> rule res" where
  "rule_of_row row =
     bindE (field row (lit ''rule_id'') as_text) (\<lambda>rule_id.
     bindE (field row (lit ''tier'') as_int) (\<lambda>tier.
     bindE (field row (lit ''entity_type'') as_text) (\<lambda>entity_type.
     bindE (field row (lit ''description'') as_text) (\<lambda>description.
     bindE (field row (lit ''country_code'') as_optional_text) (\<lambda>country_code.
     bindE (field row (lit ''industry'') as_optional_text) (\<lambda>industry.
     bindE (field row (lit ''customer_id'') as_optional_text) (\<lambda>customer_id.
     bindE (field row (lit ''enabled'') as_bool) (\<lambda>enabled.
     bindE (field row (lit ''confidence_floor'') as_float) (\<lambda>confidence_floor.
     bindE (field row (lit ''keywords'') as_texts_or_empty) (\<lambda>keywords.
       rule_post_init \<lparr>r_rule_id = rule_id, r_tier = tier, r_entity_type = entity_type, r_description = description,
         r_country_code = country_code, r_industry = industry, r_customer_id = customer_id, r_enabled = enabled,
         r_confidence_floor = confidence_floor, r_keywords = keywords\<rparr>))))))))))"

definition entry_of_row :: "row \<Rightarrow> exception_entry res" where
  "entry_of_row row =
     bindE (field row (lit ''rule_id'') as_optional_text) (\<lambda>rule_id.
     bindE (field row (lit ''entity_type'') as_optional_text) (\<lambda>entity_type.
     bindE (field row (lit ''text_match'') as_optional_text) (\<lambda>text_match.
       Inr \<lparr>ee_rule_id = rule_id, ee_entity_type = entity_type, ee_text_match = text_match\<rparr>)))"

definition record_of_row :: "row \<Rightarrow> audit_record res" where
  "record_of_row row =
     bindE (field row (lit ''record_id'') as_text) (\<lambda>record_id.
     bindE (field row (lit ''customer_id'') as_text) (\<lambda>customer_id.
     bindE (field row (lit ''request_id'') as_text) (\<lambda>request_id.
     bindE (field row (lit ''event_type'') as_text) (\<lambda>event_type.
     bindE (field row (lit ''occurred_at'') as_float) (\<lambda>occurred_at.
     bindE (field row (lit ''payload_nonce'') as_bytes) (\<lambda>payload_nonce.
     bindE (field row (lit ''payload_ciphertext'') as_bytes) (\<lambda>payload_ciphertext.
     bindE (field row (lit ''content_hash'') as_text) (\<lambda>content_hash.
     bindE (field row (lit ''prev_hash'') as_text) (\<lambda>prev_hash.
     bindE (field row (lit ''hmac_signature'') as_text) (\<lambda>hmac_signature.
       Inr \<lparr>ar_record_id = record_id, ar_customer_id = customer_id, ar_request_id = request_id, ar_event_type = event_type,
         ar_occurred_at = occurred_at, ar_payload_nonce = payload_nonce, ar_payload_ciphertext = payload_ciphertext,
         ar_content_hash = content_hash, ar_prev_hash = prev_hash, ar_hmac_signature = hmac_signature\<rparr>))))))))))"

section \<open>The rows they make\<close>

definition rule_cells :: "rule \<Rightarrow> int \<Rightarrow> int \<Rightarrow> row" where
  "rule_cells r created updated = rule_values r @
     [(lit ''created_at'', Time_value created), (lit ''updated_at'', Time_value updated)]"

abbreviation rule_row :: "(pyfloat \<Rightarrow> pyfloat) \<Rightarrow> int \<Rightarrow> rule \<Rightarrow> row" where
  "rule_row to_real now r \<equiv> rule_cells (r\<lparr>r_confidence_floor := to_real (r_confidence_floor r)\<rparr>) now now"

definition exception_row :: "int \<Rightarrow> rule_exception \<Rightarrow> row" where
  "exception_row now e = exception_values e @ [(lit ''created_at'', Time_value now)]"

definition record_row :: "log_row \<Rightarrow> row" where
  "record_row x = record_values (lr_record x) @ [(lit ''created_at'', Time_value (lr_created_at x))]"

lemma text_or_null_simps [simp]:
  "fits to_real Sql_text (text_or_null s) = option_ok s" "stored f Sql_text v = v" "as_optional_text (text_or_null s) = Inr s"
  by (cases s; simp) (cases v, simp_all, cases s, simp_all)

lemmas table_defs = col_def required_def timestamp_now_def

lemma rule_columns:
  "map (\<lambda>c. (co_name c, column_value to_real now (rule_values r) c)) rules_table = rule_row to_real now r"
  by (simp add: rules_table_def table_defs column_value_def rule_values_def rule_cells_def)

lemma exception_columns:
  "map (\<lambda>c. (co_name c, column_value to_real now (exception_values e) c)) rule_exceptions_table = exception_row now e"
  by (simp add: rule_exceptions_table_def table_defs column_value_def exception_values_def exception_row_def)

lemma record_columns:
  "map (\<lambda>c. (co_name c, column_value to_real now (record_values rec) c)) audit_log_table =
    record_row \<lparr>lr_created_at = now, lr_record = rec\<rparr>"
  by (simp add: audit_log_table_def table_defs column_value_def record_values_def record_row_def)

lemma rule_insert:
  "insert_row to_real rules_table now (rule_values r) rows =
    (if \<not> rule_storable to_real r then Inl (ExternalError 22021)
     else if r_tier r \<notin> {1, 2, 3} then Inl (ExternalError 23514)
     else if (lit ''rule_id'', Text_value (r_rule_id r)) \<in> hd ` set rows then Inl (ExternalError 23505)
     else Inr (rows @ [rule_row to_real now r]))"
proof -
  have n: "fst ` set (rule_values r) \<subseteq> co_name ` set rules_table"
    by (simp add: rule_values_def rules_table_def table_defs)
  have f: "list_ex (\<lambda>c. \<not> fits to_real (co_type c) (case map_of (rule_values r) (co_name c) of None \<Rightarrow> Null | Some v \<Rightarrow> v)) rules_table \<longleftrightarrow>
      \<not> rule_storable to_real r"
    by (simp add: rules_table_def table_defs rule_values_def rule_storable_def) blast
  have m: "\<not> list_ex (\<lambda>(c, _, v). co_not_null c \<and> v = Null) (zip rules_table (rule_row to_real now r))"
    by (simp add: rules_table_def table_defs rule_cells_def rule_values_def)
  have c: "list_ex (\<lambda>(c, _, v). \<not> check_ok c v) (zip rules_table (rule_row to_real now r)) \<longleftrightarrow> r_tier r \<notin> {1, 2, 3}"
    by (simp add: rules_table_def table_defs rule_cells_def rule_values_def check_ok_def)
  have h: "hd (rule_row to_real now r) = (lit ''rule_id'', Text_value (r_rule_id r))"
    by (simp add: rule_cells_def rule_values_def)
  show ?thesis unfolding insert_row_def rule_columns Let_def f c h using n m by simp
qed

lemma exception_insert:
  "insert_row to_real rule_exceptions_table now (exception_values e) rows =
    (if \<not> exception_storable e then Inl (ExternalError 22021)
     else if (lit ''exception_id'', Text_value (x_exception_id e)) \<in> hd ` set rows then Inl (ExternalError 23505)
     else Inr (rows @ [exception_row now e]))"
proof -
  have n: "fst ` set (exception_values e) \<subseteq> co_name ` set rule_exceptions_table"
    by (simp add: exception_values_def rule_exceptions_table_def table_defs)
  have f: "list_ex (\<lambda>c. \<not> fits to_real (co_type c) (case map_of (exception_values e) (co_name c) of None \<Rightarrow> Null | Some v \<Rightarrow> v))
      rule_exceptions_table \<longleftrightarrow> \<not> exception_storable e"
    by (simp add: rule_exceptions_table_def table_defs exception_values_def exception_storable_def)
  have m: "\<not> list_ex (\<lambda>(c, _, v). co_not_null c \<and> v = Null) (zip rule_exceptions_table (exception_row now e))"
    "\<not> list_ex (\<lambda>(c, _, v). \<not> check_ok c v) (zip rule_exceptions_table (exception_row now e))"
    by (simp_all add: rule_exceptions_table_def table_defs exception_row_def exception_values_def check_ok_def)
  have h: "hd (exception_row now e) = (lit ''exception_id'', Text_value (x_exception_id e))"
    by (simp add: exception_row_def exception_values_def)
  show ?thesis unfolding insert_row_def exception_columns Let_def f h using n m by simp
qed

lemma record_insert:
  "insert_row to_real audit_log_table now (record_values rec) rows =
    (if \<not> record_storable rec then Inl (ExternalError 22021)
     else if (lit ''record_id'', Text_value (ar_record_id rec)) \<in> hd ` set rows then Inl (ExternalError 23505)
     else Inr (rows @ [record_row \<lparr>lr_created_at = now, lr_record = rec\<rparr>]))"
proof -
  let ?row = "record_row \<lparr>lr_created_at = now, lr_record = rec\<rparr>"
  have n: "fst ` set (record_values rec) \<subseteq> co_name ` set audit_log_table"
    by (simp add: record_values_def audit_log_table_def table_defs)
  have f: "list_ex (\<lambda>c. \<not> fits to_real (co_type c) (case map_of (record_values rec) (co_name c) of None \<Rightarrow> Null | Some v \<Rightarrow> v))
      audit_log_table \<longleftrightarrow> \<not> record_storable rec"
    by (simp add: audit_log_table_def table_defs record_values_def record_storable_def)
  have m: "\<not> list_ex (\<lambda>(c, _, v). co_not_null c \<and> v = Null) (zip audit_log_table ?row)"
    "\<not> list_ex (\<lambda>(c, _, v). \<not> check_ok c v) (zip audit_log_table ?row)"
    by (simp_all add: audit_log_table_def table_defs record_row_def record_values_def check_ok_def)
  have h: "hd ?row = (lit ''record_id'', Text_value (ar_record_id rec))"
    by (simp add: record_row_def record_values_def)
  show ?thesis unfolding insert_row_def record_columns Let_def f h using n m by simp
qed

lemma rule_of_rule_row: "rule_of_row (rule_cells r created updated) = row_to_rule r"
  by (cases r) (simp add: rule_of_row_def rule_cells_def rule_values_def cell_def row_to_rule_def)

lemma entry_of_exception_row: "entry_of_row (exception_row now e) = Inr (to_entry e)"
  by (simp add: entry_of_row_def exception_row_def exception_values_def cell_def to_entry_def)

lemma record_of_record_row: "record_of_row (record_row x) = Inr (lr_record x)"
  by (simp add: record_of_row_def record_row_def record_values_def cell_def)

section \<open>Properties\<close>

text \<open>
  C30. What the table \<open>rules\<close> takes and gives back: upserting a rule whose identifier is free succeeds
  exactly when its texts encode without a character 0, its confidence floor is in the range of single
  precision and its tier is 1, 2 or 3, and then the new row reads back as the rule with its floor in single
  precision; every other row stays.
\<close>

theorem rule_row_roundtrip:
  assumes "(lit ''rule_id'', Text_value (r_rule_id r)) \<notin> hd ` set rows"
  shows "case upsert_rule to_real now r rows of
      Inl e \<Rightarrow> \<not> rule_storable to_real r \<or> r_tier r \<notin> {1, 2, 3}
    | Inr rows' \<Rightarrow> rule_storable to_real r \<and> r_tier r \<in> {1, 2, 3} \<and> (\<exists>row. rows' = rows @ [row] \<and>
        rule_of_row row = rule_post_init (r\<lparr>r_confidence_floor := to_real (r_confidence_floor r)\<rparr>))"
  using assms by (simp add: upsert_rule_def rule_insert rule_of_rule_row row_to_rule_def)

text \<open>The upsert does on the rows what the model of the store does on the rules they hold.\<close>

definition rule_rows :: "row list \<Rightarrow> rule_table \<Rightarrow> bool" where
  "rule_rows rows tbl = list_all2 (\<lambda>row r. \<exists>created updated. row = rule_cells r created updated) rows tbl"

lemma rule_rows_ids:
  "rule_rows rows tbl \<Longrightarrow> (lit ''rule_id'', Text_value k) \<in> hd ` set rows \<longleftrightarrow> k \<in> r_rule_id ` set tbl"
  unfolding rule_rows_def by (induction rule: list_all2_induct) (auto simp: rule_cells_def rule_values_def)

lemma same_customer_cells [simp]: "same_customer r (rule_cells x c u) \<longleftrightarrow> r_customer_id r \<noteq> None \<and> r_customer_id x = r_customer_id r"
  by (cases "r_customer_id r"; cases "r_customer_id x") (auto simp: same_customer_def rule_cells_def rule_values_def)

lemma set_updated_cells:
  "set_columns (updated_values to_real now r) (rule_cells x c u) =
    rule_cells (x\<lparr>r_description := r_description r, r_entity_type := r_entity_type r, r_enabled := r_enabled r,
      r_confidence_floor := to_real (r_confidence_floor r), r_keywords := r_keywords r\<rparr>) c now"
  by (simp add: set_columns_def updated_values_def rule_cells_def rule_values_def)

lemma upsert_rule_refines:
  assumes "rule_rows rows tbl" "r_tier r = 3" "r_customer_id r = Some (cc_customer_id ctx)"
  shows "case (upsert_rule to_real now r rows, pg_upsert_tier3 to_real (Some ctx) r tbl) of
      (Inl e, Inl e') \<Rightarrow> e = e' | (Inr rows', Inr tbl') \<Rightarrow> rule_rows rows' tbl' | _ \<Rightarrow> False"
proof -
  let ?up = "\<lambda>row. if hd row = (lit ''rule_id'', Text_value (r_rule_id r)) \<and> same_customer r row
    then set_columns (updated_values to_real now r) row else row"
  have row: "?up (rule_cells x c u) = rule_cells (upsert_row to_real r x) c
      (if r_rule_id x = r_rule_id r \<and> r_customer_id x = r_customer_id r then now else u)" for x c u
    using assms(3) by (simp add: set_updated_cells upsert_row_def) (simp add: rule_cells_def rule_values_def)
  have "rule_rows (map ?up rows) (map (upsert_row to_real r) tbl)"
    using assms(1) unfolding rule_rows_def list_all2_map1 list_all2_map2 by (rule list_all2_mono) (use row in blast)
  moreover have "rule_rows (rows @ [rule_row to_real now r]) (tbl @ [r\<lparr>r_confidence_floor := to_real (r_confidence_floor r)\<rparr>])"
    using assms(1) unfolding rule_rows_def by (auto intro: list_all2_appendI)
  moreover have "(\<exists>x \<in> set tbl. r_rule_id x = r_rule_id r) \<longleftrightarrow> (lit ''rule_id'', Text_value (r_rule_id r)) \<in> hd ` set rows"
    unfolding rule_rows_ids [OF assms(1)] by (metis image_iff)
  ultimately show ?thesis
    using assms(2,3) by (auto simp: upsert_rule_def rule_insert pg_upsert_tier3_def)
qed

text \<open>
  C31. The audit table does what the model of the backend does: on the rows of a log, the \<open>INSERT\<close> of a
  record fails on texts that Postgres cannot store and on a used identifier, with the same error, and
  otherwise adds the row that the model adds, with the time of the server; reading the rows gives the
  records back.
\<close>

theorem audit_table_refines:
  "insert_row to_real audit_log_table (pa_clock b (length (pa_rows b))) (record_values rec) (map record_row (pa_rows b)) =
      bindE (pg_insert rec b) (\<lambda>b'. Inr (map record_row (pa_rows b'))) \<and>
    mapE record_of_row (map record_row (sort_key row_key (pa_rows b))) = Inr (pg_select_all b)"
proof -
  have h: "hd (record_row x) = (lit ''record_id'', Text_value (ar_record_id (lr_record x)))" for x
    by (simp add: record_row_def record_values_def)
  have i: "(lit ''record_id'', Text_value (ar_record_id rec)) \<in> hd ` set (map record_row (pa_rows b)) \<longleftrightarrow>
      ar_record_id rec \<in> (ar_record_id \<circ> lr_record) ` set (pa_rows b)"
    by (auto simp: h image_iff)
  have "insert_row to_real audit_log_table (pa_clock b (length (pa_rows b))) (record_values rec) (map record_row (pa_rows b)) =
      bindE (pg_insert rec b) (\<lambda>b'. Inr (map record_row (pa_rows b')))"
    unfolding record_insert i by (simp add: pg_insert_def)
  moreover have "mapE record_of_row (map record_row xs) = Inr (map lr_record xs)" for xs
    by (induction xs) (simp_all add: record_of_record_row)
  ultimately show ?thesis by (simp add: pg_select_all_def)
qed

text \<open>The table of exceptions agrees with its model, up to the times the model leaves out.\<close>

definition exception_rows :: "row list \<Rightarrow> exception_table \<Rightarrow> bool" where
  "exception_rows rows tbl = list_all2 (\<lambda>row e. \<exists>now. row = exception_row now e) rows tbl"

lemma exception_rows_ids:
  assumes "exception_rows rows tbl"
  shows "(lit ''exception_id'', Text_value k) \<in> hd ` set rows \<longleftrightarrow> k \<in> x_exception_id ` set tbl"
  using assms unfolding exception_rows_def
  by (induction rule: list_all2_induct) (auto simp: exception_row_def exception_values_def)

lemma exceptions_table_refines:
  assumes "exception_rows rows tbl" "x_customer_id e = cc_customer_id ctx"
  shows "case (insert_row to_real rule_exceptions_table now (exception_values e) rows, pg_add_exception (Some ctx) e tbl) of
      (Inl c, Inl c') \<Rightarrow> c = c' | (Inr rows', Inr tbl') \<Rightarrow> exception_rows rows' tbl' | _ \<Rightarrow> False"
  using assms exception_rows_ids [OF assms(1), of "x_exception_id e"]
  by (auto simp: exception_insert pg_add_exception_def exception_rows_def intro: list_all2_appendI)

text \<open>Single precision: a floor of 0.8 comes back as another number.\<close>

lemma floor_not_kept:
  assumes "rule_storable real_column r" "r_tier r \<in> {1, 2, 3}" "r_confidence_floor r = Finite (float_lit 8 10)"
    and "rule_post_init r = Inr r"
  shows "\<exists>row. insert_row real_column rules_table now (rule_values r) [] = Inr [row] \<and>
    rule_of_row row = Inr (r\<lparr>r_confidence_floor := Finite (13421773 / 16777216)\<rparr>) \<and> rule_of_row row \<noteq> Inr r"
proof -
  have "float_lit 8 10 \<noteq> 13421773 / 16777216" by (simp add: float_0_8)
  then have n: "r\<lparr>r_confidence_floor := Finite (13421773 / 16777216)\<rparr> \<noteq> r" using assms(3) by (cases r) simp
  have "rule_post_init (r\<lparr>r_confidence_floor := x\<rparr>) = Inr (r\<lparr>r_confidence_floor := x\<rparr>)" for x
    using assms(4) by (simp add: rule_post_init_def split: if_splits)
  then show ?thesis
    using assms(1-3) n by (simp add: rule_insert rule_of_rule_row row_to_rule_def to_single_0_8)
qed

section \<open>Witnesses\<close>

definition stored_rule :: rule where
  "stored_rule = \<lparr>r_rule_id = lit ''r1'', r_tier = 2, r_entity_type = lit ''custom'', r_description = lit ''d'',
     r_country_code = None, r_industry = Some (lit ''bank''), r_customer_id = None, r_enabled = True,
     r_confidence_floor = Finite (1 / 2), r_keywords = [lit ''iban'']\<rparr>"

lemma stored_rule_ok: "rule_storable id stored_rule" "r_tier stored_rule = 2"
  by (simp_all add: rule_storable_def stored_rule_def text_ok_ascii real_ok_def infinite_float_def)

text \<open>A rule the table takes, one with a character 0, and one whose floor is out of range.\<close>

lemma rule_row_roundtrip_witness:
  "(\<exists>row. upsert_rule id 0 stored_rule [] = Inr [row] \<and> rule_of_row row = Inr stored_rule) \<and>
   \<not> isOk (upsert_rule id 0 (stored_rule\<lparr>r_description := [65, 0]\<rparr>) []) \<and>
   \<not> isOk (upsert_rule real_column 0 (stored_rule\<lparr>r_confidence_floor := Finite (2 ^ 200)\<rparr>) [])"
proof -
  have "isOk (upsert_rule id 0 stored_rule [])"
    using stored_rule_ok by (simp add: upsert_rule_def rule_insert)
  then obtain rows' where i: "upsert_rule id 0 stored_rule [] = Inr rows'" by (auto simp: isOk_iff)
  have p: "rule_post_init (stored_rule\<lparr>r_confidence_floor := r_confidence_floor stored_rule\<rparr>) = Inr stored_rule"
    by (simp add: rule_post_init_def stored_rule_def)
  obtain row where "rows' = [row]" "rule_of_row row = Inr stored_rule"
    using rule_row_roundtrip [of stored_rule "[]" id 0] i p by auto
  moreover have "\<not> rule_storable id (stored_rule\<lparr>r_description := [65, 0]\<rparr>)" by (simp add: rule_storable_def text_ok_def)
  then have "\<not> isOk (upsert_rule id 0 (stored_rule\<lparr>r_description := [65, 0]\<rparr>) [])"
    using rule_row_roundtrip [of "stored_rule\<lparr>r_description := [65, 0]\<rparr>" "[]" id 0] by (simp add: isOk_def split: sum.splits)
  moreover have "\<not> isOk (upsert_rule real_column 0 (stored_rule\<lparr>r_confidence_floor := v\<rparr>) [])" if "\<not> real_ok real_column v" for v
    using rule_row_roundtrip [of "stored_rule\<lparr>r_confidence_floor := v\<rparr>" "[]" real_column 0] that
    by (simp add: rule_storable_def isOk_def split: sum.splits)
  from this [OF real_range] have "\<not> isOk (upsert_rule real_column 0 (stored_rule\<lparr>r_confidence_floor := Finite (2 ^ 200)\<rparr>) [])" .
  ultimately show ?thesis using i by blast
qed

definition stored_record :: audit_record where
  "stored_record = \<lparr>ar_record_id = lit ''a'', ar_customer_id = lit ''c'', ar_request_id = lit ''q'', ar_event_type = lit ''request'',
     ar_occurred_at = Finite 0, ar_payload_nonce = [0], ar_payload_ciphertext = [1], ar_content_hash = lit ''h'',
     ar_prev_hash = lit ''p'', ar_hmac_signature = lit ''s''\<rparr>"

end
