(* ===== verification/Migration.thy ===== *)
theory Migration
  imports Schema
begin

text \<open>
  \<open>migrate\<close> in \<open>src/db.py\<close>: the statements of \<open>SCHEMA_DDL\<close>, run as one script. asyncpg sends a script
  without arguments as one simple query, which Postgres runs as one transaction: either all of it
  happens or none. Every statement says \<open>IF NOT EXISTS\<close>, which looks at the name only: a table that is
  there already, of whatever shape, stays as it is. Creating an index first asks for its table and
  for the columns, then whether the name is taken. The SQLSTATE of an error is written without its letter.
\<close>

section \<open>The database\<close>

record database =
  db_available :: "ustr list"
  db_extensions :: "ustr list"
  db_tables :: "(ustr, table \<times> row list) dict"
  db_indexes :: "(ustr, ustr \<times> ustr list) dict"
  db_clock :: "nat \<Rightarrow> int"

datatype ddl =
    Create_extension ustr
  | Create_table ustr table
  | Create_index ustr ustr "ustr list"

text \<open>Tables and indexes share one name space.\<close>

definition relation_exists :: "ustr \<Rightarrow> database \<Rightarrow> bool" where
  "relation_exists name db = (name \<in> fst ` set (db_tables db) \<or> name \<in> fst ` set (db_indexes db))"

definition has_columns :: "table \<Rightarrow> ustr list \<Rightarrow> bool" where
  "has_columns t cols = (set cols \<subseteq> co_name ` set t)"

fun run_ddl :: "ddl \<Rightarrow> database \<Rightarrow> database res" where
  "run_ddl (Create_extension e) db =
     (if e \<in> set (db_extensions db) then Inr db
      else if e \<in> set (db_available db) then Inr (db\<lparr>db_extensions := db_extensions db @ [e]\<rparr>)
      else Inl (ExternalError 5801))"
| "run_ddl (Create_table name t) db =
     (if relation_exists name db then Inr db
      else Inr (db\<lparr>db_tables := db_tables db @ [(name, t, [])]\<rparr>))"
| "run_ddl (Create_index name on cols) db =
     (case map_of (db_tables db) on of
        None \<Rightarrow> Inl (ExternalError 4201)
      | Some (t, rows) \<Rightarrow>
          if \<not> has_columns t cols then Inl (ExternalError 42703)
          else if relation_exists name db then Inr db
          else Inr (db\<lparr>db_indexes := db_indexes db @ [(name, on, cols)]\<rparr>))"

definition schema_ddl :: "ddl list" where
  "schema_ddl =
     [Create_extension (lit ''pgcrypto''),
      Create_table (lit ''rules'') rules_table,
      Create_index (lit ''rules_tenant_idx'') (lit ''rules'') [lit ''customer_id'', lit ''tier''],
      Create_index (lit ''rules_country_idx'') (lit ''rules'') [lit ''country_code'', lit ''tier''],
      Create_table (lit ''rule_exceptions'') rule_exceptions_table,
      Create_index (lit ''rule_exceptions_tenant_idx'') (lit ''rule_exceptions'') [lit ''customer_id''],
      Create_table (lit ''audit_log'') audit_log_table,
      Create_index (lit ''audit_log_tenant_idx'') (lit ''audit_log'') [lit ''customer_id'', lit ''created_at''],
      Create_index (lit ''audit_log_chain_idx'') (lit ''audit_log'') [lit ''created_at''],
      Create_table (lit ''customer_config'') customer_config_table]"

definition migrate :: "database \<Rightarrow> database res" where
  "migrate db = foldE run_ddl schema_ddl db"

text \<open>
  The log in a database, for the model of the backend: the rows of its table as records. The rows a
  table of the migration holds are of this shape (\<open>log_rows_table\<close>).
\<close>

definition log_row_of :: "row \<Rightarrow> log_row option" where
  "log_row_of row =
     (case map_of row (lit ''created_at'') of
        Some (Time_value t) \<Rightarrow>
          (case record_of_row row of Inl e \<Rightarrow> None | Inr rec \<Rightarrow> Some \<lparr>lr_created_at = t, lr_record = rec\<rparr>)
      | _ \<Rightarrow> None)"

definition log_rows :: "database \<Rightarrow> log_row list" where
  "log_rows db =
     (case map_of (db_tables db) (lit ''audit_log'') of None \<Rightarrow> [] | Some (t, rows) \<Rightarrow> List.map_filter log_row_of rows)"

lemma log_row_of_row: "log_row_of (record_row x) = Some x"
  unfolding log_row_of_def record_of_record_row by (simp add: record_row_def record_values_def)

lemma log_rows_table:
  "map_of (db_tables db) (lit ''audit_log'') = Some (t, map record_row xs) \<Longrightarrow> log_rows db = xs"
  by (simp add: log_rows_def List.map_filter_def comp_def log_row_of_row)

section \<open>Statements only add\<close>

definition extends :: "database \<Rightarrow> database \<Rightarrow> bool" where
  "extends db db' =
     (set (db_extensions db) \<subseteq> set (db_extensions db') \<and> (\<exists>ts. db_tables db' = db_tables db @ ts) \<and>
      (\<exists>ixs. db_indexes db' = db_indexes db @ ixs) \<and> db_available db' = db_available db \<and> db_clock db' = db_clock db)"

lemma extends_refl [simp]: "extends db db"
  by (simp add: extends_def)

lemma extends_trans: "extends a b \<Longrightarrow> extends b c \<Longrightarrow> extends a c"
  by (auto simp: extends_def)

lemma run_ddl_extends: "run_ddl st db = Inr db' \<Longrightarrow> extends db db'"
  by (cases st) (auto simp: extends_def split: if_splits option.splits)

lemma script_extends: "foldE run_ddl script db = Inr db' \<Longrightarrow> extends db db'"
  by (induction script arbitrary: db) (auto simp: bindE_eq_Inr intro: extends_trans run_ddl_extends)

text \<open>A statement that has nothing to do has nothing to do in any larger database.\<close>

definition fulfilled :: "ddl \<Rightarrow> database \<Rightarrow> bool" where
  "fulfilled st db = (run_ddl st db = Inr db)"

lemma relation_exists_extends: "extends db db' \<Longrightarrow> relation_exists name db \<Longrightarrow> relation_exists name db'"
  by (auto simp: extends_def relation_exists_def)

lemma extensions_kept: "extends db db' \<Longrightarrow> e \<in> set (db_extensions db) \<Longrightarrow> e \<in> set (db_extensions db')"
  by (auto simp: extends_def)

lemma table_kept: "extends db db' \<Longrightarrow> map_of (db_tables db) name = Some t \<Longrightarrow> map_of (db_tables db') name = Some t"
  by (auto simp: extends_def map_add_Some_iff)

lemma index_list_grows: "db\<lparr>db_indexes := db_indexes db @ [x]\<rparr> \<noteq> db" "db\<lparr>db_tables := db_tables db @ [y]\<rparr> \<noteq> db"
  "db\<lparr>db_extensions := db_extensions db @ [e]\<rparr> \<noteq> db"
  by (cases db; simp)+

lemma fulfilled_iff [simp]:
  "fulfilled (Create_extension e) db \<longleftrightarrow> e \<in> set (db_extensions db)"
  "fulfilled (Create_table name t) db \<longleftrightarrow> relation_exists name db"
  "fulfilled (Create_index name on cols) db \<longleftrightarrow>
    (\<exists>t rows. map_of (db_tables db) on = Some (t, rows) \<and> has_columns t cols) \<and> relation_exists name db"
  by (auto simp: fulfilled_def index_list_grows split: option.split)

lemma fulfilled_extends: "fulfilled st db \<Longrightarrow> extends db db' \<Longrightarrow> fulfilled st db'"
  by (cases st) (auto dest: relation_exists_extends table_kept extensions_kept)

lemma run_ddl_fulfils: "run_ddl st db = Inr db' \<Longrightarrow> fulfilled st db'"
  by (cases st) (auto simp: relation_exists_def split: if_splits option.splits)

lemma script_fulfils: "foldE run_ddl script db = Inr db' \<Longrightarrow> st \<in> set script \<Longrightarrow> fulfilled st db'"
proof (induction script arbitrary: db)
  case (Cons s script)
  then obtain db1 where 1: "run_ddl s db = Inr db1" "foldE run_ddl script db1 = Inr db'" by (auto simp: bindE_eq_Inr)
  show ?case
  proof (cases "st = s")
    case True
    show ?thesis using fulfilled_extends [OF run_ddl_fulfils [OF 1(1)] script_extends [OF 1(2)]] by (simp add: True)
  qed (use Cons 1 in auto)
qed simp

lemma fulfilled_script: "\<forall>st \<in> set script. fulfilled st db \<Longrightarrow> foldE run_ddl script db = Inr db"
  by (induction script) (simp_all add: fulfilled_def)

section \<open>New tables\<close>

text \<open>The table a script first creates under a name, if it makes no index of that name before.\<close>

fun first_table :: "ustr \<Rightarrow> ddl list \<Rightarrow> table option" where
  "first_table name [] = None"
| "first_table name (Create_table n t # script) = (if n = name then Some t else first_table name script)"
| "first_table name (Create_index n on cols # script) = (if n = name then None else first_table name script)"
| "first_table name (st # script) = first_table name script"

lemma script_creates:
  assumes "foldE run_ddl script db = Inr db'" "\<not> relation_exists name db" "first_table name script = Some t"
  shows "map_of (db_tables db') name = Some (t, [])"
  using assms
proof (induction script arbitrary: db)
  case (Cons st script)
  from Cons.prems(1) obtain db1 where 1: "run_ddl st db = Inr db1" "foldE run_ddl script db1 = Inr db'" by (auto simp: bindE_eq_Inr)
  show ?case
  proof (cases "\<exists>t'. st = Create_table name t'")
    case True
    with Cons.prems(3) have "st = Create_table name t" by auto
    moreover have "map_of (db_tables db) name = None" using Cons.prems(2) by (simp add: relation_exists_def map_of_eq_None_iff)
    ultimately have "map_of (db_tables db1) name = Some (t, [])"
      using 1(1) Cons.prems(2) by (auto simp: map_add_def)
    then show ?thesis by (rule table_kept [OF script_extends [OF 1(2)]])
  next
    case False
    then have "first_table name script = Some t" "\<not> relation_exists name db1"
      using 1(1) Cons.prems(2,3) by (cases st; force simp: relation_exists_def split: if_splits option.splits)+
    with Cons.IH [OF 1(2)] show ?thesis by blast
  qed
qed simp

definition schema_tables :: "(ustr \<times> table) list" where
  "schema_tables = [(lit ''rules'', rules_table), (lit ''rule_exceptions'', rule_exceptions_table),
     (lit ''audit_log'', audit_log_table), (lit ''customer_config'', customer_config_table)]"

lemma migrate_creates:
  assumes "migrate db = Inr db'"
  shows "\<forall>(name, t) \<in> set schema_tables. \<not> relation_exists name db \<longrightarrow> map_of (db_tables db') name = Some (t, [])"
proof -
  have "\<forall>(name, t) \<in> set schema_tables. first_table name schema_ddl = Some t"
    by (simp add: schema_tables_def schema_ddl_def)
  with script_creates assms show ?thesis unfolding migrate_def by blast
qed

section \<open>When the script runs through\<close>

text \<open>A table and its indexes: tables of other names are not touched, and only the index names are new.\<close>

abbreviation index_ddl :: "ustr \<Rightarrow> (ustr \<times> ustr list) list \<Rightarrow> ddl list" where
  "index_ddl on ixs \<equiv> map (\<lambda>(name, cols). Create_index name on cols) ixs"

lemma indexes_ok:
  assumes "map_of (db_tables db) on = Some (t, rows)"
  shows "isOk (foldE run_ddl (index_ddl on ixs) db) \<longleftrightarrow> (\<forall>(name, cols) \<in> set ixs. has_columns t cols)"
  using assms
proof (induction ixs arbitrary: db)
  case (Cons ix ixs)
  obtain name cols where ix: "ix = (name, cols)" by (cases ix)
  show ?case
    using Cons.prems Cons.IH [of db] Cons.IH [of "db\<lparr>db_indexes := db_indexes db @ [(name, on, cols)]\<rparr>"]
    by (auto simp: ix)
qed simp

lemma indexes_effect:
  assumes "foldE run_ddl (index_ddl on ixs) db = Inr db'"
  shows "db_tables db' = db_tables db \<and> db_extensions db' = db_extensions db \<and> db_clock db' = db_clock db \<and>
    fst ` set (db_indexes db') \<subseteq> fst ` set (db_indexes db) \<union> fst ` set ixs"
  using assms
proof (induction ixs arbitrary: db)
  case (Cons ix ixs)
  obtain name cols where ix: "ix = (name, cols)" by (cases ix)
  obtain db1 where 1: "run_ddl (Create_index name on cols) db = Inr db1" "foldE run_ddl (index_ddl on ixs) db1 = Inr db'"
    using Cons.prems by (auto simp: ix bindE_eq_Inr)
  have "db1 = db \<or> db1 = db\<lparr>db_indexes := db_indexes db @ [(name, on, cols)]\<rparr>"
    using 1(1) by (auto split: option.splits if_splits)
  then have "db_tables db1 = db_tables db \<and> db_extensions db1 = db_extensions db \<and> db_clock db1 = db_clock db \<and>
    fst ` set (db_indexes db1) \<subseteq> insert name (fst ` set (db_indexes db))"
    by (elim disjE) (simp_all add: subset_insertI)
  with Cons.IH [OF 1(2)] show ?case by (simp add: ix) blast
qed simp

definition table_fits :: "ustr \<Rightarrow> ustr list list \<Rightarrow> database \<Rightarrow> bool" where
  "table_fits name needed db =
     (case map_of (db_tables db) name of
        None \<Rightarrow> name \<notin> fst ` set (db_indexes db)
      | Some (t, rows) \<Rightarrow> \<forall>cols \<in> set needed. has_columns t cols)"

lemma block_ok:
  assumes "\<forall>(i, cols) \<in> set ixs. has_columns t cols" "ixs \<noteq> []"
  shows "isOk (foldE run_ddl (Create_table name t # index_ddl name ixs) db) \<longleftrightarrow> table_fits name (map snd ixs) db"
proof (cases "map_of (db_tables db) name")
  case None
  obtain i cols rest where ixs: "ixs = (i, cols) # rest" using assms(2) by (cases ixs) auto
  show ?thesis
  proof (cases "name \<in> fst ` set (db_indexes db)")
    case True
    then show ?thesis using None by (simp add: table_fits_def relation_exists_def ixs)
  next
    case False
    then have "run_ddl (Create_table name t) db = Inr (db\<lparr>db_tables := db_tables db @ [(name, t, [])]\<rparr>)"
      using None by (simp add: relation_exists_def map_of_eq_None_iff)
    moreover have "map_of (db_tables db @ [(name, t, [])]) name = Some (t, [])" using None by (simp add: map_add_def)
    ultimately show ?thesis
      using indexes_ok [of "db\<lparr>db_tables := db_tables db @ [(name, t, [])]\<rparr>" name t "[]" ixs] assms(1) None False
      by (simp add: table_fits_def)
  qed
next
  case (Some tr)
  obtain t' rows where tr: "tr = (t', rows)" by (cases tr)
  have "name \<in> fst ` set (db_tables db)" using map_of_SomeD [OF Some] by force
  then show ?thesis using indexes_ok [of db name t' rows ixs] Some by (auto simp: table_fits_def relation_exists_def tr)
qed

lemma block_effect:
  assumes "foldE run_ddl (Create_table name t # index_ddl name ixs) db = Inr db'" "other \<noteq> name" "other \<notin> fst ` set ixs"
  shows "table_fits other needed db' = table_fits other needed db"
proof -
  obtain db1 where 1: "run_ddl (Create_table name t) db = Inr db1" "foldE run_ddl (index_ddl name ixs) db1 = Inr db'"
    using assms(1) by (auto simp: bindE_eq_Inr)
  have t: "map_of (db_tables db1) other = map_of (db_tables db) other" "db_indexes db1 = db_indexes db"
    using 1(1) assms(2) by (auto simp: map_add_def split: if_splits option.split)
  have x: "db_tables db' = db_tables db1" "fst ` set (db_indexes db') \<subseteq> fst ` set (db_indexes db1) \<union> fst ` set ixs"
    using indexes_effect [OF 1(2)] by simp_all
  obtain ixs' where "db_indexes db' = db_indexes db1 @ ixs'" using script_extends [OF 1(2)] by (auto simp: extends_def)
  with x assms(3) t have "other \<in> fst ` set (db_indexes db') \<longleftrightarrow> other \<in> fst ` set (db_indexes db)" by auto
  with x(1) t(1) show ?thesis by (auto simp: table_fits_def split: option.split)
qed

text \<open>A script of such blocks, block by block.\<close>

lemma block_then:
  assumes "\<forall>(i, cols) \<in> set ixs. has_columns t cols" "ixs \<noteq> []"
    and "\<And>d. isOk (foldE run_ddl rest d) \<longleftrightarrow> (\<forall>(n, needed) \<in> set later. table_fits n needed d)"
    and "\<forall>(n, needed) \<in> set later. n \<noteq> name \<and> n \<notin> fst ` set ixs"
  shows "isOk (foldE run_ddl ((Create_table name t # index_ddl name ixs) @ rest) d) \<longleftrightarrow>
    (\<forall>(n, needed) \<in> set ((name, map snd ixs) # later). table_fits n needed d)"
proof -
  let ?block = "foldE run_ddl (Create_table name t # index_ddl name ixs) d"
  have later: "(\<forall>(n, needed) \<in> set later. table_fits n needed d') \<longleftrightarrow> (\<forall>(n, needed) \<in> set later. table_fits n needed d)"
    if "?block = Inr d'" for d'
    using block_effect [OF that] assms(4) by fastforce
  have "isOk (foldE run_ddl ((Create_table name t # index_ddl name ixs) @ rest) d) \<longleftrightarrow>
      (\<exists>d'. ?block = Inr d' \<and> isOk (foldE run_ddl rest d'))"
    unfolding foldE_append isOk_bindE ..
  also have "\<dots> \<longleftrightarrow> isOk ?block \<and> (\<forall>(n, needed) \<in> set later. table_fits n needed d)"
  proof (cases ?block)
    case (Inr d')
    then show ?thesis unfolding Inr using later [OF Inr] by (simp add: assms(3))
  qed (simp del: foldE.simps)
  also have "isOk ?block \<longleftrightarrow> table_fits name (map snd ixs) d" by (rule block_ok [OF assms(1,2)])
  finally show ?thesis by simp
qed

definition needed_columns :: "(ustr \<times> ustr list list) list" where
  "needed_columns =
     [(lit ''rules'', [[lit ''customer_id'', lit ''tier''], [lit ''country_code'', lit ''tier'']]),
      (lit ''rule_exceptions'', [[lit ''customer_id'']]),
      (lit ''audit_log'', [[lit ''customer_id'', lit ''created_at''], [lit ''created_at'']])]"

abbreviation rules_indexes :: "(ustr \<times> ustr list) list" where
  "rules_indexes \<equiv> [(lit ''rules_tenant_idx'', [lit ''customer_id'', lit ''tier'']),
     (lit ''rules_country_idx'', [lit ''country_code'', lit ''tier''])]"

abbreviation exceptions_indexes :: "(ustr \<times> ustr list) list" where
  "exceptions_indexes \<equiv> [(lit ''rule_exceptions_tenant_idx'', [lit ''customer_id''])]"

abbreviation audit_indexes :: "(ustr \<times> ustr list) list" where
  "audit_indexes \<equiv> [(lit ''audit_log_tenant_idx'', [lit ''customer_id'', lit ''created_at'']),
     (lit ''audit_log_chain_idx'', [lit ''created_at''])]"

lemma schema_blocks:
  "schema_ddl = [Create_extension (lit ''pgcrypto'')] @
     (Create_table (lit ''rules'') rules_table # index_ddl (lit ''rules'') rules_indexes) @
     (Create_table (lit ''rule_exceptions'') rule_exceptions_table # index_ddl (lit ''rule_exceptions'') exceptions_indexes) @
     (Create_table (lit ''audit_log'') audit_log_table # index_ddl (lit ''audit_log'') audit_indexes) @
     [Create_table (lit ''customer_config'') customer_config_table]"
  by (simp add: schema_ddl_def)

lemma own_columns:
  "\<forall>(i, cols) \<in> set rules_indexes. has_columns rules_table cols"
  "\<forall>(i, cols) \<in> set exceptions_indexes. has_columns rule_exceptions_table cols"
  "\<forall>(i, cols) \<in> set audit_indexes. has_columns audit_log_table cols"
  by (simp_all add: has_columns_def rules_table_def rule_exceptions_table_def audit_log_table_def table_defs)

lemma migrate_runs:
  "isOk (migrate db) \<longleftrightarrow> lit ''pgcrypto'' \<in> set (db_extensions db) \<union> set (db_available db) \<and>
    (\<forall>(name, needed) \<in> set needed_columns. table_fits name needed db)"
proof -
  have last: "isOk (foldE run_ddl [Create_table (lit ''customer_config'') customer_config_table] d) \<longleftrightarrow>
      (\<forall>(n, needed) \<in> set []. table_fits n needed d)" for d
    by simp
  note block = block_then [OF _ list.distinct(2)]
  have audit: "isOk (foldE run_ddl ((Create_table (lit ''audit_log'') audit_log_table # index_ddl (lit ''audit_log'') audit_indexes) @
      [Create_table (lit ''customer_config'') customer_config_table]) d) \<longleftrightarrow>
      (\<forall>(n, needed) \<in> set (drop 2 needed_columns). table_fits n needed d)" for d
    by (subst block [OF own_columns(3) last]) (simp_all add: needed_columns_def)
  have exceptions: "isOk (foldE run_ddl ((Create_table (lit ''rule_exceptions'') rule_exceptions_table #
      index_ddl (lit ''rule_exceptions'') exceptions_indexes) @
      (Create_table (lit ''audit_log'') audit_log_table # index_ddl (lit ''audit_log'') audit_indexes) @
      [Create_table (lit ''customer_config'') customer_config_table]) d) \<longleftrightarrow>
      (\<forall>(n, needed) \<in> set (drop 1 needed_columns). table_fits n needed d)" for d
    by (subst block [OF own_columns(2) audit]) (simp_all add: needed_columns_def)
  have rules: "isOk (foldE run_ddl ((Create_table (lit ''rules'') rules_table # index_ddl (lit ''rules'') rules_indexes) @
      (Create_table (lit ''rule_exceptions'') rule_exceptions_table # index_ddl (lit ''rule_exceptions'') exceptions_indexes) @
      (Create_table (lit ''audit_log'') audit_log_table # index_ddl (lit ''audit_log'') audit_indexes) @
      [Create_table (lit ''customer_config'') customer_config_table]) d) \<longleftrightarrow>
      (\<forall>(n, needed) \<in> set needed_columns. table_fits n needed d)" for d
    by (subst block [OF own_columns(1) exceptions]) (simp_all add: needed_columns_def)
  have ext: "table_fits n cs (db\<lparr>db_extensions := e\<rparr>) = table_fits n cs db" for n cs e
    by (cases "map_of (db_tables db) n") (simp_all add: table_fits_def)
  show ?thesis
    unfolding migrate_def schema_blocks foldE_append [of _ "[_]"] isOk_bindE rules
    by (auto simp: ext split: if_splits)
qed

section \<open>Properties\<close>

text \<open>
  C35. The migration can be run at every start: once it went through, running it again changes nothing;
  no table that was there is altered, no row is lost, and a table whose name was free is the one the
  stores write to, empty.
\<close>

theorem migrate_repeatable:
  assumes "migrate db = Inr db'"
  shows "migrate db' = Inr db' \<and>
    (\<forall>name t. map_of (db_tables db) name = Some t \<longrightarrow> map_of (db_tables db') name = Some t) \<and>
    (\<forall>(name, t) \<in> set schema_tables. \<not> relation_exists name db \<longrightarrow> map_of (db_tables db') name = Some (t, []))"
proof -
  have "fulfilled st db'" if "st \<in> set schema_ddl" for st
    using script_fulfils [of schema_ddl db db'] assms that by (simp add: migrate_def)
  then have "migrate db' = Inr db'" unfolding migrate_def by (blast intro: fulfilled_script)
  moreover have "extends db db'" using assms unfolding migrate_def by (rule script_extends)
  ultimately show ?thesis using table_kept migrate_creates [OF assms] by blast
qed

text \<open>
  C36. What the migration asks for: it goes through if and only if the extension is or can be installed, and each of the
  tables for rules, exceptions and the log either is not there and no index has its name, or has the
  columns that its indexes are on. Nothing else about an existing table is looked at.
\<close>

theorem migrate_ok_iff:
  "isOk (migrate db) \<longleftrightarrow> lit ''pgcrypto'' \<in> set (db_extensions db) \<union> set (db_available db) \<and>
    (\<forall>(name, needed) \<in> set needed_columns. table_fits name needed db)"
  by (rule migrate_runs)

text \<open>
  A log table of another shape passes the migration and is found out at the first write: it stays as it is, and as long as
  it lacks one of the columns that a record has, every \<open>INSERT\<close> of a record fails.
\<close>

theorem drifted_log_unwritable:
  assumes "migrate db = Inr db'" and "map_of (db_tables db) (lit ''audit_log'') = Some (t, rows)"
    and "c \<in> fst ` set (record_values rec)" and "c \<notin> co_name ` set t"
  shows "map_of (db_tables db') (lit ''audit_log'') = Some (t, rows) \<and>
    insert_row to_real t now (record_values rec) rows = Inl (ExternalError 42703)"
proof -
  have "extends db db'" using assms(1) unfolding migrate_def by (rule script_extends)
  moreover have "\<not> fst ` set (record_values rec) \<subseteq> co_name ` set t" using assms(3,4) by blast
  ultimately show ?thesis using table_kept assms(2) by (simp add: insert_row_def)
qed

section \<open>Witnesses\<close>

text \<open>An empty database, and one whose log table has no column for the signature.\<close>

definition empty_database :: database where
  "empty_database = \<lparr>db_available = [lit ''pgcrypto''], db_extensions = [], db_tables = [], db_indexes = [], db_clock = int\<rparr>"

definition unsigned_log_table :: table where
  "unsigned_log_table = filter (\<lambda>c. co_name c \<noteq> lit ''hmac_signature'') audit_log_table"

definition drifted_database :: database where
  "drifted_database = empty_database\<lparr>db_tables := [(lit ''audit_log'', unsigned_log_table, [])]\<rparr>"

lemma empty_database_migrates: "isOk (migrate empty_database)"
  unfolding migrate_runs by (simp add: empty_database_def needed_columns_def table_fits_def)

lemma drifted_database_migrates: "isOk (migrate drifted_database)"
  unfolding migrate_runs
  by (simp add: drifted_database_def empty_database_def needed_columns_def table_fits_def has_columns_def unsigned_log_table_def
      audit_log_table_def table_defs)

lemma migrate_repeatable_witness:
  "\<exists>db'. migrate empty_database = Inr db' \<and> migrate db' = Inr db' \<and>
    map_of (db_tables db') (lit ''audit_log'') = Some (audit_log_table, [])"
proof -
  obtain db' where db: "migrate empty_database = Inr db'" using empty_database_migrates by (auto simp: isOk_iff)
  have "\<not> relation_exists (lit ''audit_log'') empty_database" by (simp add: relation_exists_def empty_database_def)
  with migrate_repeatable [OF db] db show ?thesis by (auto simp: schema_tables_def)
qed

lemma migrate_ok_iff_witness:
  "isOk (migrate drifted_database) \<and> \<not> isOk (migrate (drifted_database\<lparr>db_available := []\<rparr>))"
  unfolding migrate_ok_iff
  by (simp add: drifted_database_def empty_database_def needed_columns_def table_fits_def has_columns_def unsigned_log_table_def
      audit_log_table_def table_defs)

text \<open>The log of a migrated empty database is empty.\<close>

lemma empty_log:
  assumes "migrate empty_database = Inr db'"
  shows "log_rows db' = []" "db_clock db' = int"
proof -
  have "\<not> relation_exists (lit ''audit_log'') empty_database" by (simp add: relation_exists_def empty_database_def)
  with migrate_creates [OF assms] show "log_rows db' = []" by (auto simp: schema_tables_def log_rows_def List.map_filter_def)
  show "db_clock db' = int"
    using script_extends [OF assms[unfolded migrate_def]] by (simp add: extends_def empty_database_def)
qed

lemma drifted_log_unwritable_witness:
  "\<exists>db'. migrate drifted_database = Inr db' \<and>
    insert_row id unsigned_log_table 0 (record_values stored_record) [] = Inl (ExternalError 42703)"
proof -
  obtain db' where db: "migrate drifted_database = Inr db'" using drifted_database_migrates by (auto simp: isOk_iff)
  have t: "map_of (db_tables drifted_database) (lit ''audit_log'') = Some (unsigned_log_table, [])"
    by (simp add: drifted_database_def)
  have c: "lit ''hmac_signature'' \<in> fst ` set (record_values stored_record)" "lit ''hmac_signature'' \<notin> co_name ` set unsigned_log_table"
    by (simp add: record_values_def) (auto simp: unsigned_log_table_def)
  from drifted_log_unwritable [OF db t c] db show ?thesis by blast
qed

end
