(* ===== verification/Logging.thy ===== *)
theory Logging
  imports Json
begin

text \<open>
  \<open>src/logging_setup.py\<close>: the configuration of structlog, as data, and what a call of a logger does
  under it. structlog itself is the parameter \<open>log_library\<close>; which processors and renderer it is given,
  in which order, and from which level on is the code's.
\<close>

section \<open>Configuration\<close>

datatype log_processor =
    Merge_contextvars
  | Add_log_level
  | Add_logger_name
  | Time_stamper
  | Stack_info_renderer
  | Format_exc_info
  | Unicode_decoder

datatype log_renderer =
    Json_renderer
  | Console_renderer

text \<open>The factory makes the loggers the processors are given.\<close>

datatype logger_factory =
    Print_logger_factory

record log_config =
  lc_processors :: "log_processor list"
  lc_renderer :: log_renderer
  lc_min_level :: nat
  lc_factory :: logger_factory
  lc_cache_loggers :: bool

text \<open>
  \<open>getattr(logging, level.upper(), logging.INFO)\<close>: the level constants of the module \<open>logging\<close>; \<open>upper\<close>
  is \<open>str.upper\<close>.
\<close>

definition logging_levels :: "(ustr, nat) dict" where
  "logging_levels = [(lit ''CRITICAL'', 50), (lit ''FATAL'', 50), (lit ''ERROR'', 40), (lit ''WARNING'', 30),
     (lit ''WARN'', 30), (lit ''INFO'', 20), (lit ''DEBUG'', 10), (lit ''NOTSET'', 0)]"

definition level_number :: "(ustr \<Rightarrow> ustr) \<Rightarrow> ustr \<Rightarrow> nat" where
  "level_number upper level = (case map_of logging_levels (upper level) of Some n \<Rightarrow> n | None \<Rightarrow> 20)"

definition configure_logging :: "(ustr \<Rightarrow> ustr) \<Rightarrow> ustr \<Rightarrow> bool \<Rightarrow> log_config" where
  "configure_logging upper level json_output =
     \<lparr>lc_processors = [Merge_contextvars, Add_log_level, Add_logger_name, Time_stamper, Stack_info_renderer,
        Format_exc_info] @ [Unicode_decoder],
      lc_renderer = (if json_output then Json_renderer else Console_renderer),
      lc_min_level = level_number upper level, lc_factory = Print_logger_factory, lc_cache_loggers = True\<rparr>"

section \<open>A call of a logger\<close>

text \<open>
  The library: what emitting an event of a level under a configuration does, and its parts: a
  processor, given a logger of a factory, maps the event to an event or raises, a renderer makes the
  line that is written.
\<close>

record log_library =
  ll_emit :: "log_config \<Rightarrow> nat \<Rightarrow> (ustr, json) dict \<Rightarrow> unit res"
  ll_process :: "logger_factory \<Rightarrow> log_processor \<Rightarrow> (ustr, json) dict \<Rightarrow> (ustr, json) dict res"
  ll_render :: "log_renderer \<Rightarrow> (ustr, json) dict \<Rightarrow> ustr res"
  ll_write :: "ustr \<Rightarrow> unit res"

text \<open>\<open>log.warning(event, error=str(exc))\<close>; \<open>str_of\<close> is \<open>str\<close> of an exception.\<close>

definition log_warning :: "log_library \<Rightarrow> log_config \<Rightarrow> (py_error \<Rightarrow> ustr) \<Rightarrow> ustr \<Rightarrow> py_error \<Rightarrow> unit res" where
  "log_warning lib conf str_of event exc =
     ll_emit lib conf 30 [(lit ''error'', JStr (str_of exc)), (lit ''event'', JStr event)]"

section \<open>When a warning raises\<close>

text \<open>
  What structlog documents: a filtering logger drops events below its level and sends the others through
  the processors in the order of the list, the last of which renders the line that is written.
\<close>

definition runs_chain :: "log_library \<Rightarrow> bool" where
  "runs_chain lib = (\<forall>conf level event. ll_emit lib conf level event =
     (if level < lc_min_level conf then Inr ()
      else bindE (foldE (ll_process lib (lc_factory conf)) (lc_processors conf) event) (\<lambda>event'.
           bindE (ll_render lib (lc_renderer conf) event') (ll_write lib))))"

text \<open>
  And of the processors: the first two never raise, and \<open>add_logger_name\<close> reads the attribute \<open>name\<close>
  of the logger. The loggers of \<open>PrintLoggerFactory\<close> have none.
\<close>

definition nameless_loggers :: "log_library \<Rightarrow> bool" where
  "nameless_loggers lib = ((\<forall>f e. isOk (ll_process lib f Merge_contextvars e)) \<and> (\<forall>f e. isOk (ll_process lib f Add_log_level e)) \<and>
     (\<forall>e. ll_process lib Print_logger_factory Add_logger_name e = Inl AttributeError))"

text \<open>A library whose every processor, renderer and stream works.\<close>

definition working_library :: "log_library \<Rightarrow> bool" where
  "working_library lib = ((\<forall>f p e. isOk (ll_process lib f p e)) \<and> (\<forall>r e. isOk (ll_render lib r e)) \<and> (\<forall>s. ll_write lib s = Inr ()))"

lemma nameless_run:
  assumes "nameless_loggers lib"
  shows "foldE (ll_process lib Print_logger_factory) (lc_processors (configure_logging upper level json_output)) e = Inl AttributeError"
proof -
  obtain e1 where 1: "ll_process lib Print_logger_factory Merge_contextvars e = Inr e1" using assms by (meson nameless_loggers_def isOk_iff)
  obtain e2 where 2: "ll_process lib Print_logger_factory Add_log_level e1 = Inr e2" using assms by (meson nameless_loggers_def isOk_iff)
  show ?thesis using assms 1 2 by (simp add: configure_logging_def nameless_loggers_def)
qed

lemma nameless_warning:
  assumes "runs_chain lib" "nameless_loggers lib"
  shows "log_warning lib (configure_logging upper level json_output) str_of event exc =
    (if level_number upper level \<le> 30 then Inl AttributeError else Inr ())"
  using nameless_run [OF assms(2)] assms(1) by (simp add: log_warning_def runs_chain_def) (simp add: configure_logging_def)

lemma working_run: "working_library lib \<Longrightarrow> isOk (foldE (ll_process lib f) ps e)"
proof (induction ps arbitrary: e)
  case (Cons p ps)
  obtain e' where "ll_process lib f p e = Inr e'" using Cons.prems by (meson working_library_def isOk_iff)
  with Cons show ?case by simp
qed simp

lemma working_warning:
  assumes "runs_chain lib" "working_library lib"
  shows "log_warning lib conf str_of event exc = Inr ()"
proof -
  let ?e = "[(lit ''error'', JStr (str_of exc)), (lit ''event'', JStr event)]"
  obtain e1 where 1: "foldE (ll_process lib (lc_factory conf)) (lc_processors conf) ?e = Inr e1" using working_run [OF assms(2)] by (meson isOk_iff)
  obtain s where "ll_render lib (lc_renderer conf) e1 = Inr s" using assms(2) by (meson working_library_def isOk_iff)
  with 1 assms show ?thesis by (simp add: log_warning_def runs_chain_def working_library_def)
qed

text \<open>The four levels the settings admit, and the one that silences warnings.\<close>

lemma level_numbers:
  "level_number id (lit ''DEBUG'') = 10" "level_number id (lit ''INFO'') = 20" "level_number id (lit ''WARNING'') = 30"
  "level_number id (lit ''ERROR'') = 40"
  by (simp_all add: level_number_def logging_levels_def)

text \<open>A library with loggers that have no name.\<close>

definition sample_log :: log_library where
  "sample_log =
     (let process = (\<lambda>f p e. if p = Add_logger_name then Inl AttributeError else Inr e)
      in \<lparr>ll_emit = (\<lambda>conf level event. if level < lc_min_level conf then Inr ()
            else bindE (foldE (process (lc_factory conf)) (lc_processors conf) event) (\<lambda>_. Inr ())),
          ll_process = process, ll_render = (\<lambda>_ _. Inr []), ll_write = (\<lambda>_. Inr ())\<rparr>)"

lemma sample_log_nameless: "runs_chain sample_log" "nameless_loggers sample_log"
  by (simp_all add: runs_chain_def nameless_loggers_def sample_log_def Let_def)

end
