(* ===== verification/Settings.thy ===== *)
theory Settings
  imports Pipeline
begin

text \<open>
  \<open>src/config/settings.py\<close>: the settings with their defaults, how they are read from the variables of
  the process and the \<open>.env\<close> file, what is refused, and the cache of \<open>get_settings\<close>. The conversions of
  pydantic from strings to numbers and booleans are parameters; a float setting is a rational.
\<close>

section \<open>The settings and their defaults\<close>

record settings =
  st_country_code :: ustr
  st_plane :: ustr
  st_environment :: ustr
  st_software_version :: ustr
  st_rule_pack_version :: ustr
  st_default_failure_mode :: failure_mode
  st_master_plane_mock :: bool
  st_master_plane_url :: "ustr option"
  st_master_plane_api_key :: "ustr option"
  st_master_plane_poll_interval_s :: int
  st_telemetry_push_interval_s :: int
  st_upstream_openai_base_url :: ustr
  st_upstream_request_timeout_s :: rat
  st_session_map_key :: ustr
  st_audit_encryption_key :: ustr
  st_audit_hmac_key :: ustr
  st_session_map_idle_timeout_s :: int
  st_ner_backend :: ustr
  st_ner_model_path :: "ustr option"
  st_ner_tokenizer_path :: "ustr option"
  st_vllm_backend :: ustr
  st_vllm_url :: "ustr option"
  st_vllm_model :: ustr
  st_vllm_request_timeout_s :: rat
  st_vllm_top_k_rules :: int
  st_tier1_confidence_threshold :: rat
  st_tier2_confidence_threshold :: rat
  st_tier3_confidence_threshold :: rat
  st_rule_store_backend :: ustr
  st_audit_store_backend :: ustr
  st_postgres_dsn :: "ustr option"
  st_redis_url :: "ustr option"
  st_log_level :: ustr
  st_log_json :: bool

definition default_settings :: settings where
  "default_settings = \<lparr>st_country_code = lit ''DZ'', st_plane = lit ''country'', st_environment = lit ''dev'',
     st_software_version = lit ''0.1.0'', st_rule_pack_version = lit ''DZ-1.0.0'', st_default_failure_mode = Strict,
     st_master_plane_mock = True, st_master_plane_url = None, st_master_plane_api_key = None,
     st_master_plane_poll_interval_s = 300, st_telemetry_push_interval_s = 60,
     st_upstream_openai_base_url = lit ''https://api.openai.com/v1'', st_upstream_request_timeout_s = 60,
     st_session_map_key = replicate 64 48, st_audit_encryption_key = replicate 64 48, st_audit_hmac_key = replicate 64 48,
     st_session_map_idle_timeout_s = 30 * 60, st_ner_backend = lit ''stub'', st_ner_model_path = None,
     st_ner_tokenizer_path = None, st_vllm_backend = lit ''stub'', st_vllm_url = None,
     st_vllm_model = lit ''Qwen/Qwen2.5-7B-Instruct-AWQ'', st_vllm_request_timeout_s = 30, st_vllm_top_k_rules = 10,
     st_tier1_confidence_threshold = float_lit 80 100, st_tier2_confidence_threshold = float_lit 70 100,
     st_tier3_confidence_threshold = float_lit 65 100, st_rule_store_backend = lit ''memory'',
     st_audit_store_backend = lit ''memory'', st_postgres_dsn = None, st_redis_url = None,
     st_log_level = lit ''INFO'', st_log_json = True\<rparr>"

section \<open>Where a value comes from\<close>

text \<open>
  pydantic-settings looks a field up under its name with the prefix, without regard to case; a
  variable of the process goes before the same one of the \<open>.env\<close> file, and of two variables that
  differ in case only the later one counts. Other variables are ignored.
\<close>

record setting_parsers =
  sp_lower :: "ustr \<Rightarrow> ustr"
  sp_int :: "ustr \<Rightarrow> int option"
  sp_float :: "ustr \<Rightarrow> rat option"
  sp_bool :: "ustr \<Rightarrow> bool option"

record process_env =
  pe_environ :: "(ustr, ustr) dict"
  pe_dotenv :: "(ustr, ustr) dict"

definition env_lookup :: "(ustr \<Rightarrow> ustr) \<Rightarrow> (ustr, ustr) dict \<Rightarrow> ustr \<Rightarrow> ustr option" where
  "env_lookup lower d name = map_of (rev (map (\<lambda>(k, v). (lower k, v)) d)) (lower (lit ''GATEWAY_'' @ name))"

definition raw_setting :: "setting_parsers \<Rightarrow> process_env \<Rightarrow> ustr \<Rightarrow> ustr option" where
  "raw_setting p env name =
     (case env_lookup (sp_lower p) (pe_environ env) name of
        Some v \<Rightarrow> Some v
      | None \<Rightarrow> env_lookup (sp_lower p) (pe_dotenv env) name)"

section \<open>Validation\<close>

definition str_setting :: "(ustr \<Rightarrow> ustr option) \<Rightarrow> ustr \<Rightarrow> ustr \<Rightarrow> ustr" where
  "str_setting raw name default_value = (case raw name of None \<Rightarrow> default_value | Some v \<Rightarrow> v)"

definition parsed_setting :: "(ustr \<Rightarrow> ustr option) \<Rightarrow> (ustr \<Rightarrow> 'a option) \<Rightarrow> ustr \<Rightarrow> 'a \<Rightarrow> 'a res" where
  "parsed_setting raw parse name default_value =
     (case raw name of
        None \<Rightarrow> Inr default_value
      | Some v \<Rightarrow> (case parse v of None \<Rightarrow> Inl ValidationError | Some x \<Rightarrow> Inr x))"

text \<open>\<open>Literal[...]\<close>: one of the given strings, compared exactly.\<close>

definition literal :: "ustr list \<Rightarrow> ustr \<Rightarrow> ustr option" where
  "literal options v = (if v \<in> set options then Some v else None)"

definition failure_mode_literal :: "ustr \<Rightarrow> failure_mode option" where
  "failure_mode_literal v = map_of [(lit ''strict'', Strict), (lit ''audit_only'', Audit_only), (lit ''fallback'', Fallback)] v"

definition ner_backends :: "ustr list" where "ner_backends = [lit ''stub'', lit ''onnx'']"
definition vllm_backends :: "ustr list" where "vllm_backends = [lit ''stub'', lit ''http'']"
definition rule_store_backends :: "ustr list" where "rule_store_backends = [lit ''memory'', lit ''postgres'']"
definition audit_store_backends :: "ustr list" where "audit_store_backends = [lit ''memory'', lit ''postgres'']"
definition log_levels :: "ustr list" where "log_levels = [lit ''DEBUG'', lit ''INFO'', lit ''WARNING'', lit ''ERROR'']"

definition two_letters :: "ustr \<Rightarrow> ustr option" where
  "two_letters v = (if length v = 2 then Some v else None)"

definition load_settings :: "setting_parsers \<Rightarrow> (ustr \<Rightarrow> ustr option) \<Rightarrow> settings res" where
  "load_settings p raw =
     bindE (parsed_setting raw two_letters (lit ''country_code'') (lit ''DZ'')) (\<lambda>country_code.
     bindE (parsed_setting raw (literal [lit ''country'', lit ''company'']) (lit ''plane'') (lit ''country'')) (\<lambda>plane.
     bindE (parsed_setting raw (literal [lit ''dev'', lit ''staging'', lit ''prod'']) (lit ''environment'') (lit ''dev'')) (\<lambda>environment.
     bindE (parsed_setting raw failure_mode_literal (lit ''default_failure_mode'') Strict) (\<lambda>failure_mode.
     bindE (parsed_setting raw (sp_bool p) (lit ''master_plane_mock'') True) (\<lambda>mock.
     bindE (parsed_setting raw (sp_int p) (lit ''master_plane_poll_interval_s'') 300) (\<lambda>poll.
     bindE (parsed_setting raw (sp_int p) (lit ''telemetry_push_interval_s'') 60) (\<lambda>push.
     bindE (parsed_setting raw (sp_float p) (lit ''upstream_request_timeout_s'') 60) (\<lambda>upstream_timeout.
     bindE (parsed_setting raw (sp_int p) (lit ''session_map_idle_timeout_s'') (30 * 60)) (\<lambda>idle.
     bindE (parsed_setting raw (literal ner_backends) (lit ''ner_backend'') (lit ''stub'')) (\<lambda>ner.
     bindE (parsed_setting raw (literal vllm_backends) (lit ''vllm_backend'') (lit ''stub'')) (\<lambda>vllm.
     bindE (parsed_setting raw (sp_float p) (lit ''vllm_request_timeout_s'') 30) (\<lambda>vllm_timeout.
     bindE (parsed_setting raw (sp_int p) (lit ''vllm_top_k_rules'') 10) (\<lambda>top_k.
     bindE (parsed_setting raw (sp_float p) (lit ''tier1_confidence_threshold'') (float_lit 80 100)) (\<lambda>tier1.
     bindE (parsed_setting raw (sp_float p) (lit ''tier2_confidence_threshold'') (float_lit 70 100)) (\<lambda>tier2.
     bindE (parsed_setting raw (sp_float p) (lit ''tier3_confidence_threshold'') (float_lit 65 100)) (\<lambda>tier3.
     bindE (parsed_setting raw (literal rule_store_backends) (lit ''rule_store_backend'') (lit ''memory'')) (\<lambda>rules.
     bindE (parsed_setting raw (literal audit_store_backends) (lit ''audit_store_backend'') (lit ''memory'')) (\<lambda>audit.
     bindE (parsed_setting raw (literal log_levels) (lit ''log_level'') (lit ''INFO'')) (\<lambda>level.
     bindE (parsed_setting raw (sp_bool p) (lit ''log_json'') True) (\<lambda>log_json.
       Inr \<lparr>st_country_code = country_code, st_plane = plane, st_environment = environment,
         st_software_version = str_setting raw (lit ''software_version'') (lit ''0.1.0''),
         st_rule_pack_version = str_setting raw (lit ''rule_pack_version'') (lit ''DZ-1.0.0''),
         st_default_failure_mode = failure_mode, st_master_plane_mock = mock,
         st_master_plane_url = raw (lit ''master_plane_url''), st_master_plane_api_key = raw (lit ''master_plane_api_key''),
         st_master_plane_poll_interval_s = poll, st_telemetry_push_interval_s = push,
         st_upstream_openai_base_url = str_setting raw (lit ''upstream_openai_base_url'') (lit ''https://api.openai.com/v1''),
         st_upstream_request_timeout_s = upstream_timeout,
         st_session_map_key = str_setting raw (lit ''session_map_key'') (replicate 64 48),
         st_audit_encryption_key = str_setting raw (lit ''audit_encryption_key'') (replicate 64 48),
         st_audit_hmac_key = str_setting raw (lit ''audit_hmac_key'') (replicate 64 48),
         st_session_map_idle_timeout_s = idle, st_ner_backend = ner, st_ner_model_path = raw (lit ''ner_model_path''),
         st_ner_tokenizer_path = raw (lit ''ner_tokenizer_path''), st_vllm_backend = vllm, st_vllm_url = raw (lit ''vllm_url''),
         st_vllm_model = str_setting raw (lit ''vllm_model'') (lit ''Qwen/Qwen2.5-7B-Instruct-AWQ''),
         st_vllm_request_timeout_s = vllm_timeout, st_vllm_top_k_rules = top_k,
         st_tier1_confidence_threshold = tier1, st_tier2_confidence_threshold = tier2, st_tier3_confidence_threshold = tier3,
         st_rule_store_backend = rules, st_audit_store_backend = audit, st_postgres_dsn = raw (lit ''postgres_dsn''),
         st_redis_url = raw (lit ''redis_url''), st_log_level = level, st_log_json = log_json\<rparr>))))))))))))))))))))"

text \<open>\<open>get_settings\<close> under \<open>lru_cache\<close>: an exception is not cached.\<close>

type_synonym settings_cache = "settings option"

definition get_settings :: "setting_parsers \<Rightarrow> process_env \<Rightarrow> settings_cache \<Rightarrow> settings res \<times> settings_cache" where
  "get_settings p env cache =
     (case cache of
        Some cfg \<Rightarrow> (Inr cfg, cache)
      | None \<Rightarrow> (case load_settings p (raw_setting p env) of
          Inl e \<Rightarrow> (Inl e, None)
        | Inr cfg \<Rightarrow> (Inr cfg, Some cfg)))"

definition reset_settings_cache :: "settings_cache \<Rightarrow> settings_cache" where
  "reset_settings_cache cache = None"

section \<open>Lemmas\<close>

lemma parsed_setting_Inr:
  "parsed_setting raw parse name d = Inr x \<longleftrightarrow> (case raw name of None \<Rightarrow> x = d | Some v \<Rightarrow> parse v = Some x)"
  by (auto simp: parsed_setting_def split: option.splits)

lemma literal_Some: "literal options v = Some x \<longleftrightarrow> x = v \<and> v \<in> set options"
  by (auto simp: literal_def)

lemma parsed_literal:
  "parsed_setting raw (literal options) name d = Inr x \<Longrightarrow> d \<in> set options \<Longrightarrow> x \<in> set options"
  by (auto simp: parsed_setting_Inr literal_Some split: option.splits)

text \<open>Without any variable set, the settings are the defaults.\<close>

lemma empty_environment: "load_settings p (\<lambda>_. None) = Inr default_settings"
  by (simp add: load_settings_def parsed_setting_def str_setting_def default_settings_def)

lemma raw_setting_priority:
  "env_lookup (sp_lower p) (pe_environ env) name = Some v \<Longrightarrow> raw_setting p env name = Some v"
  by (simp add: raw_setting_def)

definition settings_valid :: "settings \<Rightarrow> bool" where
  "settings_valid cfg =
     (length (st_country_code cfg) = 2 \<and> st_plane cfg \<in> {lit ''country'', lit ''company''} \<and>
      st_environment cfg \<in> {lit ''dev'', lit ''staging'', lit ''prod''} \<and> st_ner_backend cfg \<in> set ner_backends \<and>
      st_vllm_backend cfg \<in> set vllm_backends \<and> st_rule_store_backend cfg \<in> set rule_store_backends \<and>
      st_audit_store_backend cfg \<in> set audit_store_backends \<and> st_log_level cfg \<in> set log_levels)"

lemma load_settings_valid:
  assumes "load_settings p raw = Inr cfg"
  shows "settings_valid cfg"
proof -
  have two: "parsed_setting raw two_letters name (lit ''DZ'') = Inr x \<Longrightarrow> length x = 2" for name x
    by (auto simp: parsed_setting_Inr two_letters_def split: option.splits if_splits)
  obtain cc pl en nb vb rb ab lv where v:
    "parsed_setting raw two_letters (lit ''country_code'') (lit ''DZ'') = Inr cc"
    "parsed_setting raw (literal [lit ''country'', lit ''company'']) (lit ''plane'') (lit ''country'') = Inr pl"
    "parsed_setting raw (literal [lit ''dev'', lit ''staging'', lit ''prod'']) (lit ''environment'') (lit ''dev'') = Inr en"
    "parsed_setting raw (literal ner_backends) (lit ''ner_backend'') (lit ''stub'') = Inr nb"
    "parsed_setting raw (literal vllm_backends) (lit ''vllm_backend'') (lit ''stub'') = Inr vb"
    "parsed_setting raw (literal rule_store_backends) (lit ''rule_store_backend'') (lit ''memory'') = Inr rb"
    "parsed_setting raw (literal audit_store_backends) (lit ''audit_store_backend'') (lit ''memory'') = Inr ab"
    "parsed_setting raw (literal log_levels) (lit ''log_level'') (lit ''INFO'') = Inr lv"
    and f: "st_country_code cfg = cc" "st_plane cfg = pl" "st_environment cfg = en" "st_ner_backend cfg = nb"
      "st_vllm_backend cfg = vb" "st_rule_store_backend cfg = rb" "st_audit_store_backend cfg = ab" "st_log_level cfg = lv"
    using assms unfolding load_settings_def bindE_eq_Inr Inr_inject by (elim exE conjE) fastforce
  have d: "lit ''stub'' \<in> set ner_backends" "lit ''stub'' \<in> set vllm_backends" "lit ''memory'' \<in> set rule_store_backends"
    "lit ''memory'' \<in> set audit_store_backends" "lit ''INFO'' \<in> set log_levels"
    unfolding ner_backends_def vllm_backends_def rule_store_backends_def audit_store_backends_def log_levels_def by simp_all
  have "pl \<in> {lit ''country'', lit ''company''}" using parsed_literal [OF v(2)] by simp
  moreover have "en \<in> {lit ''dev'', lit ''staging'', lit ''prod''}" using parsed_literal [OF v(3)] by simp
  ultimately show ?thesis
    unfolding settings_valid_def f
    using two [OF v(1)] parsed_literal [OF v(4) d(1)] parsed_literal [OF v(5) d(2)] parsed_literal [OF v(6) d(3)]
      parsed_literal [OF v(7) d(4)] parsed_literal [OF v(8) d(5)] by blast
qed

section \<open>Properties\<close>

text \<open>
  C29. Settings are valid and frozen: what the first successful read gives has a country code of two
  characters and one of the admitted values in every enumerated field, and every later read
  gives the same settings, whatever the environment has become, until the cache is cleared; then
  the environment counts again. A failed read is not remembered.
\<close>

theorem settings_frozen_until_reset:
  assumes "get_settings p env None = (r, cache)"
  shows "(case r of
      Inr cfg \<Rightarrow> settings_valid cfg \<and> (\<forall>env'. get_settings p env' cache = (Inr cfg, cache))
    | Inl e \<Rightarrow> cache = None) \<and>
    get_settings p env' (reset_settings_cache cache) = get_settings p env' None"
  using assms load_settings_valid
  by (auto simp: get_settings_def reset_settings_cache_def split: sum.splits)

section \<open>Witnesses\<close>

definition sample_parsers :: setting_parsers where
  "sample_parsers = \<lparr>sp_lower = id, sp_int = (\<lambda>_. None), sp_float = (\<lambda>_. None), sp_bool = (\<lambda>_. None)\<rparr>"

definition error_level_env :: process_env where
  "error_level_env = \<lparr>pe_environ = [(lit ''GATEWAY_log_level'', lit ''ERROR'')], pe_dotenv = [(lit ''GATEWAY_log_level'', lit ''DEBUG'')]\<rparr>"

lemma settings_frozen_until_reset_witness:
  "\<exists>cfg. get_settings sample_parsers error_level_env None = (Inr cfg, Some cfg) \<and> settings_valid cfg \<and>
    st_log_level cfg = lit ''ERROR'' \<and>
    get_settings sample_parsers \<lparr>pe_environ = [], pe_dotenv = []\<rparr> (Some cfg) = (Inr cfg, Some cfg)"
proof -
  have "\<exists>cfg. load_settings sample_parsers (raw_setting sample_parsers error_level_env) = Inr cfg \<and> st_log_level cfg = lit ''ERROR''"
    by (simp add: load_settings_def parsed_setting_def raw_setting_def env_lookup_def error_level_env_def sample_parsers_def
        literal_def log_levels_def)
  then obtain cfg where c: "load_settings sample_parsers (raw_setting sample_parsers error_level_env) = Inr cfg"
    "st_log_level cfg = lit ''ERROR''" by blast
  then have g: "get_settings sample_parsers error_level_env None = (Inr cfg, Some cfg)" by (simp add: get_settings_def)
  from settings_frozen_until_reset [OF g] g c(2) show ?thesis by simp
qed

end
