(* ===== verification/App.thy ===== *)
theory App
  imports Web MasterPlane Crowds Migration Logging Settings
begin

text \<open>
  \<open>src/proxy/app.py\<close>: the factory that turns the settings into a running gateway: keys, back ends, detectors, pipeline. What the factory
  calls outside the repository (the database, the ONNX run time, the HTTP clients and their construction from
  a base URL, which fails on a malformed one, AES-GCM, the phone number library, the Unicode tables) is the
  \<open>environment\<close>.
\<close>

section \<open>Keys\<close>

text \<open>\<open>bytes.fromhex\<close>: pairs of hexadecimal digits, with ASCII white space allowed between pairs.\<close>

definition hex_digit_value :: "nat \<Rightarrow> nat option" where
  "hex_digit_value c = (if 48 \<le> c \<and> c \<le> 57 then Some (c - 48) else if 97 \<le> c \<and> c \<le> 102 then Some (c - 87)
     else if 65 \<le> c \<and> c \<le> 70 then Some (c - 55) else None)"

fun fromhex :: "ustr \<Rightarrow> bytes res" where
  "fromhex [] = Inr []"
| "fromhex (c # s) =
     (if c = 32 \<or> 9 \<le> c \<and> c \<le> 13 then fromhex s
      else case s of [] \<Rightarrow> Inl ValueError
        | d # s' \<Rightarrow> (case (hex_digit_value c, hex_digit_value d) of
             (Some h, Some l) \<Rightarrow> bindE (fromhex s') (\<lambda>bs. Inr ((16 * h + l) # bs))
           | _ \<Rightarrow> Inl ValueError))"

definition hex_to_bytes :: "ustr \<Rightarrow> nat \<Rightarrow> bytes res" where
  "hex_to_bytes hex expected_len =
     bindE (fromhex hex) (\<lambda>raw. if length raw \<noteq> expected_len then Inl ValueError else Inr raw)"

section \<open>The factory\<close>

record environment =
  en_aead :: aead
  en_float_repr :: "pyfloat \<Rightarrow> ustr"
  en_runtime :: runtime
  en_lower :: "ustr \<Rightarrow> ustr"
  en_upper :: "ustr \<Rightarrow> ustr"
  en_str :: "py_error \<Rightarrow> ustr"
  en_log :: log_library
  en_is_word :: "nat \<Rightarrow> bool"
  en_phone :: phone_matcher
  en_onnx :: "ustr \<Rightarrow> ustr \<Rightarrow> (ustr \<Rightarrow> ner_token list res) res"
  en_vllm :: "ustr \<Rightarrow> ustr \<Rightarrow> json \<Rightarrow> http_response res"
  en_http :: http_post
  en_new_client :: "ustr option \<Rightarrow> unit res"
  en_create_pool :: "ustr \<Rightarrow> database res"

datatype audit_store =
    Memory_store audit_log
  | Postgres_store pg_audit

datatype master_client =
    Mock_master
  | Real_master ustr ustr

record app =
  ap_settings :: settings
  ap_audit_store :: audit_store
  ap_session_store :: session_store
  ap_rule_store :: rule_store
  ap_exception_store :: rule_exception_store
  ap_master_client :: master_client
  ap_pipeline :: pipeline

definition bring_up_postgres_audit :: "environment \<Rightarrow> settings \<Rightarrow> pg_audit res" where
  "bring_up_postgres_audit env cfg =
     (case st_postgres_dsn cfg of
        None \<Rightarrow> Inl ValueError
      | Some dsn \<Rightarrow> bindE (en_create_pool env dsn) (\<lambda>pool. bindE (migrate pool) (\<lambda>pool'.
          Inr (new_pg_audit (db_clock pool') (log_rows pool')))))"

definition audit_store_of :: "environment \<Rightarrow> settings \<Rightarrow> audit_store res" where
  "audit_store_of env cfg =
     (if st_audit_store_backend cfg = lit ''postgres''
      then bindE (bring_up_postgres_audit env cfg) (\<lambda>b. Inr (Postgres_store b))
      else Inr (Memory_store []))"

definition ner_detector :: "environment \<Rightarrow> settings \<Rightarrow> (scope \<Rightarrow> ustr \<Rightarrow> detection list res) res" where
  "ner_detector env cfg =
     bindE (make_ner (st_ner_backend cfg) (st_ner_model_path cfg) (st_ner_tokenizer_path cfg)) (\<lambda>b.
       case b of Stub_ner \<Rightarrow> Inr (stub_ner_detect (en_is_word env))
       | Onnx_ner model tokenizer \<Rightarrow> bindE (en_onnx env model tokenizer) (\<lambda>infer. Inr (onnx_ner_detect infer)))"

definition contextual_detector ::
    "environment \<Rightarrow> settings \<Rightarrow> (rule_snippet list option \<Rightarrow> scope \<Rightarrow> ustr \<Rightarrow> detection list res) res" where
  "contextual_detector env cfg =
     bindE (make_contextual (st_vllm_backend cfg) (st_vllm_url cfg) (st_vllm_model cfg)) (\<lambda>b.
       case b of Stub_contextual \<Rightarrow> Inr stub_contextual_detect
       | Vllm_contextual url model \<Rightarrow>
           bindE (en_new_client env (Some url)) (\<lambda>_. Inr (vllm_detect (en_runtime env) (en_vllm env url) model)))"

definition master_client_of :: "environment \<Rightarrow> settings \<Rightarrow> master_client res" where
  "master_client_of env cfg =
     (if st_master_plane_mock cfg \<or> \<not> truthy_str (st_master_plane_url cfg) then Inr Mock_master
      else bindE (en_new_client env (st_master_plane_url cfg)) (\<lambda>_.
             Inr (Real_master (the (st_master_plane_url cfg))
               (case st_master_plane_api_key cfg of None \<Rightarrow> [] | Some k \<Rightarrow> k))))"

definition create_app :: "environment \<Rightarrow> settings \<Rightarrow> app res" where
  "create_app env cfg =
     bindE (hex_to_bytes (st_audit_encryption_key cfg) 32) (\<lambda>audit_enc_key.
     bindE (hex_to_bytes (st_audit_hmac_key cfg) 32) (\<lambda>audit_hmac_key.
     bindE (hex_to_bytes (st_session_map_key cfg) 32) (\<lambda>session_key.
     bindE (audit_store_of env cfg) (\<lambda>audit_backend.
     bindE (mk_audit_writer audit_enc_key audit_hmac_key) (\<lambda>writer.
     bindE (ner_detector env cfg) (\<lambda>ner.
     bindE (contextual_detector env cfg) (\<lambda>contextual.
     bindE (en_new_client env None) (\<lambda>_.
     bindE (master_client_of env cfg) (\<lambda>master.
       Inr \<lparr>ap_settings = cfg, ap_audit_store = audit_backend,
         ap_session_store = \<lparr>ss_key = session_key, ss_idle_timeout_s = st_session_map_idle_timeout_s cfg,
           ss_maps = [], ss_heap = []\<rparr>,
         ap_rule_store = new_rule_store [], ap_exception_store = new_exception_store,
         ap_master_client = master,
         ap_pipeline = \<lparr>pl_aead = en_aead env, pl_packs = initial_packs, pl_writer = writer,
           pl_float_repr = en_float_repr env, pl_runtime = en_runtime env,
           pl_merge = \<lparr>tier1_threshold = st_tier1_confidence_threshold cfg,
             tier2_threshold = st_tier2_confidence_threshold cfg, tier3_threshold = st_tier3_confidence_threshold cfg\<rparr>,
           pl_failure_mode = st_default_failure_mode cfg, pl_lower = en_lower env, pl_is_word = en_is_word env,
           pl_top_k = st_vllm_top_k_rules cfg,
           pl_log = log_warning (en_log env) (configure_logging (en_upper env) (st_log_level cfg) (st_log_json cfg)) (en_str env),
           pl_structural = structural_detect (en_phone env), pl_ner = ner,
           pl_contextual = contextual,
           pl_upstream = upstream_chat (en_http env) (st_upstream_openai_base_url cfg)\<rparr>\<rparr>)))))))))"

text \<open>Shutdown: the finally clause of the lifespan closes every registered session map.\<close>

definition shutdown :: "session_store \<Rightarrow> session_store" where
  "shutdown st = fold store_close (map fst (ss_maps st)) st"

text \<open>The state requests share, with the in-memory audit log or with the database.\<close>

abbreviation app_state :: "app \<Rightarrow> 'b \<Rightarrow> 'b gateway_on" where
  "app_state a b \<equiv> \<lparr>gw_store = ap_session_store a, gw_audit = b, gw_rules = ap_rule_store a, gw_exceptions = ap_exception_store a\<rparr>"

definition app_gateway :: "app \<Rightarrow> gateway option" where
  "app_gateway a = (case ap_audit_store a of Memory_store recs \<Rightarrow> Some (app_state a recs) | Postgres_store _ \<Rightarrow> None)"

definition pg_gateway :: "app \<Rightarrow> pg_audit gateway_on option" where
  "pg_gateway a = (case ap_audit_store a of Postgres_store b \<Rightarrow> Some (app_state a b) | Memory_store _ \<Rightarrow> None)"

definition healthz :: "app \<Rightarrow> json" where
  "healthz a = JObj [(lit ''status'', JStr (lit ''ok'')), (lit ''version'', JStr (st_software_version (ap_settings a)))]"

section \<open>Lemmas\<close>

lemma hex_digit_value_digit: "v < 16 \<Longrightarrow> hex_digit_value (hex_digit v) = Some v"
  by (auto simp: hex_digit_value_def hex_digit_def)

lemma hex_digit_not_space: "hex_digit v \<noteq> 32" "\<not> hex_digit v \<le> 13"
  by (simp_all add: hex_digit_def)

lemma fromhex_to_hex: "is_bytes bs \<Longrightarrow> fromhex (to_hex bs) = Inr bs"
proof (induction bs)
  case (Cons b bs)
  then have "b div 16 < 16" "b mod 16 < 16" "16 * (b div 16) + b mod 16 = b" by auto
  with Cons show ?case
    by (simp add: to_hex_Cons hex_digit_value_digit hex_digit_not_space)
qed (simp add: to_hex_def)

lemma hex_to_bytes_Inr: "hex_to_bytes s n = Inr raw \<longleftrightarrow> fromhex s = Inr raw \<and> length raw = n"
  by (auto simp: hex_to_bytes_def bindE_eq_Inr)

lemma to_hex_zeros: "to_hex (replicate n 0) = replicate (2 * n) 48"
  by (induction n) (simp_all add: to_hex_Cons hex_digit_def, simp add: to_hex_def)

lemma zero_key: "hex_to_bytes (replicate 64 48) 32 = Inr (replicate 32 0)"
proof -
  have "replicate 64 48 = to_hex (replicate 32 0)" unfolding to_hex_zeros by simp
  then show ?thesis using fromhex_to_hex [of "replicate 32 0"] by (simp only: hex_to_bytes_Inr) simp
qed

lemma writer_ok: "(\<exists>w. mk_audit_writer ek hk = Inr w) \<longleftrightarrow> length ek = 32 \<and> 32 \<le> length hk"
  by (auto simp: mk_audit_writer_def)

lemma stub_backends:
  assumes "st_ner_backend cfg \<noteq> lit ''onnx''" "st_vllm_backend cfg \<noteq> lit ''http''"
  shows "ner_detector env cfg = Inr (stub_ner_detect (en_is_word env))" "contextual_detector env cfg = Inr stub_contextual_detect"
  using assms by (simp_all add: ner_detector_def make_ner_def contextual_detector_def make_contextual_def)

lemma create_app_Inr:
  assumes "create_app env cfg = Inr a"
  obtains ek hk sk backend ner contextual where
    "hex_to_bytes (st_audit_encryption_key cfg) 32 = Inr ek" "hex_to_bytes (st_audit_hmac_key cfg) 32 = Inr hk"
    "hex_to_bytes (st_session_map_key cfg) 32 = Inr sk" "audit_store_of env cfg = Inr backend"
    "ner_detector env cfg = Inr ner" "contextual_detector env cfg = Inr contextual"
    "ap_audit_store a = backend"
    "ap_session_store a = empty_store sk (st_session_map_idle_timeout_s cfg)"
    "ap_rule_store a = new_rule_store []" "ap_exception_store a = new_exception_store"
    "pl_float_repr (ap_pipeline a) = en_float_repr env"
    "pl_structural (ap_pipeline a) = structural_detect (en_phone env)" "pl_ner (ap_pipeline a) = ner"
    "pl_contextual (ap_pipeline a) = contextual"
    "pl_upstream (ap_pipeline a) = upstream_chat (en_http env) (st_upstream_openai_base_url cfg)"
  using assms by (auto simp: create_app_def bindE_eq_Inr empty_store_def)

text \<open>What \<open>ready\<close> asks of the shared state is kept by every request.\<close>

definition serving :: "pipeline \<Rightarrow> gateway \<Rightarrow> bool" where
  "serving P gw = (length (ss_key (gw_store gw)) = 32 \<and> float_repr_ok (pl_float_repr P) \<and>
     verify_chain (pl_float_repr P) (pl_writer P) (gw_audit gw) = Inr ())"

lemma serving_kept:
  assumes "serving P gw" "handle_chat P q (Some ctx) body key gw = (res, gw', sent)"
  shows "serving P gw'"
  using assms(2)
proof (cases rule: handle_chat_cases)
  case (ran ctx' tx n m r store sm recs)
  have "ss_key (gw_store gw') = ss_key (gw_store gw)"
    using ran(3,5) by (auto simp: store_open_Inr store_close_fields)
  with handle_chat_audited [OF assms(2)] assms(1) show ?thesis by (simp add: serving_def)
qed (use assms(1) in simp)

definition good_call :: "chat_call \<Rightarrow> bool" where
  "good_call c = (rq_salt (ca_draws c) \<noteq> [] \<and> scalar_str (rq_salt (ca_draws c)) \<and> scalar_str (request_id (ca_draws c)) \<and>
     scalar_str (cc_customer_id (ca_context c)) \<and> scalar_str (cc_country_code (ca_context c)) \<and>
     (\<exists>tx. request_text (ca_body c) = Inr tx \<and> scalar_str tx))"

abbreviation serve :: "pipeline \<Rightarrow> chat_call list \<Rightarrow> gateway \<Rightarrow> json res list \<times> gateway" where
  "serve \<equiv> serve_on memory_latest_hash memory_append"

definition sound_detectors :: "pipeline \<Rightarrow> bool" where
  "sound_detectors P = (\<forall>ctx text rules. \<forall>r \<in> set (detector_results P (Some ctx) text rules).
     \<exists>ds. r = Inr ds \<and> (\<forall>d \<in> set ds. wf_detection d))"

definition answers :: "(json \<Rightarrow> ustr \<Rightarrow> json res) \<Rightarrow> bool" where
  "answers upstream = (\<forall>b key. \<exists>resp. upstream b key = Inr resp \<and> completion_shape resp)"

lemma call_answered:
  assumes "serving P gw" "sound_detectors P" "answers (pl_upstream P)" "good_call c"
  shows "\<exists>final. fst (handle_chat P (ca_draws c) (Some (ca_context c)) (ca_body c) (ca_key c) gw) = Inr final"
proof -
  obtain tx where tx: "request_text (ca_body c) = Inr tx" "scalar_str tx" using assms(4) by (auto simp: good_call_def)
  have r: "ready P (ca_draws c) (ca_context c) gw" using assms(1,4) by (auto simp: ready_def serving_def good_call_def)
  obtain rules where rules: "retrieve list_for_customer (pl_lower P) (pl_is_word P) (pl_top_k P) (Some (ca_context c)) tx None
      (gw_rules gw) = Inr rules"
    by (simp add: retrieve_def list_for_customer_def Let_def)
  have ner: "isOk (pl_ner P (Some (ca_context c)) t)" for t
    using assms(2) by (simp add: sound_detectors_def detector_results_def isOk_iff) blast
  show ?thesis
    by (rule answered [OF r tx rules]) (use assms(2,3) ner in \<open>auto simp: sound_detectors_def answers_def\<close>)
qed

lemma serve_answers:
  assumes "sound_detectors P" "answers (pl_upstream P)"
  shows "serving P gw \<Longrightarrow> \<forall>c \<in> set cs. good_call c \<Longrightarrow> serve P cs gw = (rs, gw') \<Longrightarrow>
    (\<forall>r \<in> set rs. isOk r) \<and> serving P gw' \<and> length (gw_audit gw') = length (gw_audit gw) + length cs"
proof (induction cs arbitrary: gw rs gw')
  case (Cons c cs)
  obtain res gw1 sent where h: "handle_chat P (ca_draws c) (Some (ca_context c)) (ca_body c) (ca_key c) gw = (res, gw1, sent)"
    by (rule prod_cases3)
  obtain rs1 gw2 where s: "serve P cs gw1 = (rs1, gw2)" by (rule prod.exhaust)
  have ok: "\<exists>final. res = Inr final" using call_answered [OF Cons.prems(1) assms, of c] Cons.prems(2) h by simp
  have one: "serving P gw1" by (rule serving_kept [OF Cons.prems(1) h])
  have l: "length (gw_audit gw1) = Suc (length (gw_audit gw))"
    using handle_chat_audited [OF h] Cons.prems(1) ok by (auto simp: serving_def)
  have "\<forall>c \<in> set cs. good_call c" using Cons.prems(2) by simp
  from Cons.IH [OF one this s] ok l Cons.prems(3) h s show ?case by auto
qed simp

lemma stub_detectors_sound:
  assumes "phone_matcher_ok (en_phone env)" "create_app env cfg = Inr a"
    and "st_ner_backend cfg \<noteq> lit ''onnx''" "st_vllm_backend cfg \<noteq> lit ''http''"
  shows "sound_detectors (ap_pipeline a)"
  using assms(2)
proof (rule create_app_Inr)
  fix ner contextual
  assume p: "ner_detector env cfg = Inr ner" "contextual_detector env cfg = Inr contextual"
    "pl_structural (ap_pipeline a) = structural_detect (en_phone env)" "pl_ner (ap_pipeline a) = ner"
    "pl_contextual (ap_pipeline a) = contextual"
  have s: "\<exists>ds. structural_detect (en_phone env) (Some ctx) tx = Inr ds \<and> (\<forall>d \<in> set ds. wf_detection d)" for ctx tx
    using algeria_total [OF assms(1), of tx] by (auto simp: structural_detect_cases structural_ok_def)
  have n: "\<exists>ds. stub_ner_detect (en_is_word env) (Some ctx) tx = Inr ds \<and> (\<forall>d \<in> set ds. wf_detection d)" for ctx tx
    using stub_ner_total [of "en_is_word env" ctx tx] by blast
  show ?thesis
    using s n p stub_backends [OF assms(3,4), of env]
    by (auto simp: sound_detectors_def detector_results_def stub_contextual_detect_def)
qed

text \<open>
  With no setting at all the application starts, with keys of zero bytes.
\<close>

lemma zero_keys_start:
  "en_new_client env None = Inr () \<Longrightarrow> \<exists>a. create_app env default_settings = Inr a \<and> ss_key (ap_session_store a) = replicate 32 0 \<and>
     pl_writer (ap_pipeline a) = \<lparr>aw_encryption_key = replicate 32 0, aw_hmac_key = replicate 32 0\<rparr>"
  unfolding create_app_def audit_store_of_def ner_detector_def make_ner_def contextual_detector_def make_contextual_def
    mk_audit_writer_def master_client_of_def
  by (simp add: default_settings_def zero_key)

text \<open>The rule store setting changes nothing but the recorded settings.\<close>

lemma rule_store_backend_ignored:
  "create_app env (cfg\<lparr>st_rule_store_backend := s\<rparr>) =
     bindE (create_app env cfg) (\<lambda>a. Inr (a\<lparr>ap_settings := cfg\<lparr>st_rule_store_backend := s\<rparr>\<rparr>))"
proof -
  have "audit_store_of env (cfg\<lparr>st_rule_store_backend := s\<rparr>) = audit_store_of env cfg"
    "ner_detector env (cfg\<lparr>st_rule_store_backend := s\<rparr>) = ner_detector env cfg"
    "contextual_detector env (cfg\<lparr>st_rule_store_backend := s\<rparr>) = contextual_detector env cfg"
    "master_client_of env (cfg\<lparr>st_rule_store_backend := s\<rparr>) = master_client_of env cfg"
    by (simp_all add: audit_store_of_def bring_up_postgres_audit_def ner_detector_def contextual_detector_def master_client_of_def)
  then show ?thesis
    unfolding create_app_def
    by (simp add: bindE_def split: sum.split)
qed

text \<open>A process without any variable set starts, with keys of zero bytes.\<close>

lemma empty_process_starts:
  assumes "fst (get_settings p \<lparr>pe_environ = [], pe_dotenv = []\<rparr> None) = Inr cfg" "en_new_client env None = Inr ()"
  shows "cfg = default_settings \<and> (\<exists>a. create_app env cfg = Inr a)"
proof -
  have "raw_setting p \<lparr>pe_environ = [], pe_dotenv = []\<rparr> = (\<lambda>_. None)"
    by (simp add: fun_eq_iff raw_setting_def env_lookup_def)
  with assms(1) have "cfg = default_settings" by (simp add: get_settings_def empty_environment)
  then show ?thesis using zero_keys_start [OF assms(2)] by blast
qed

section \<open>Properties\<close>

lemma started_parts:
  assumes "create_app env cfg = Inr a"
    and "st_ner_backend cfg \<noteq> lit ''onnx''" and "st_vllm_backend cfg \<noteq> lit ''http''"
    and "phone_matcher_ok (en_phone env)"
    and "\<And>url headers b. \<exists>resp. en_http env url headers b = Inr (200, Inr resp) \<and> completion_shape resp"
  shows "sound_detectors (ap_pipeline a)" "answers (pl_upstream (ap_pipeline a))" "length (ss_key (ap_session_store a)) = 32"
    "ap_session_store a = empty_store (ss_key (ap_session_store a)) (st_session_map_idle_timeout_s cfg)"
    "pl_float_repr (ap_pipeline a) = en_float_repr env" "audit_store_of env cfg = Inr (ap_audit_store a)"
proof -
  from assms(1) obtain sk backend where p: "hex_to_bytes (st_session_map_key cfg) 32 = Inr sk" "audit_store_of env cfg = Inr backend"
    "ap_audit_store a = backend" "ap_session_store a = empty_store sk (st_session_map_idle_timeout_s cfg)"
    "pl_float_repr (ap_pipeline a) = en_float_repr env"
    "pl_upstream (ap_pipeline a) = upstream_chat (en_http env) (st_upstream_openai_base_url cfg)"
    by (rule create_app_Inr)
  show "sound_detectors (ap_pipeline a)" by (rule stub_detectors_sound [OF assms(4,1,2,3)])
  show "length (ss_key (ap_session_store a)) = 32"
    "ap_session_store a = empty_store (ss_key (ap_session_store a)) (st_session_map_idle_timeout_s cfg)"
    using p(1) by (simp_all add: p(4) hex_to_bytes_Inr empty_store_def)
  show "pl_float_repr (ap_pipeline a) = en_float_repr env" "audit_store_of env cfg = Inr (ap_audit_store a)"
    using p(2,3,5) by simp_all
  show "answers (pl_upstream (ap_pipeline a))"
    unfolding answers_def p(6)
  proof (intro allI)
    fix b key
    show "\<exists>resp. upstream_chat (en_http env) (st_upstream_openai_base_url cfg) b key = Inr resp \<and> completion_shape resp"
      using assms(5) [of "rstrip_slash (st_upstream_openai_base_url cfg) @ lit ''/chat/completions''"
        "[(lit ''Authorization'', lit ''Bearer '' @ key), (lit ''Content-Type'', lit ''application/json'')]" b]
      unfolding upstream_chat_def by (elim exE conjE) (simp only: bindE_simps prod.case, simp)
  qed
qed

lemma started_serves:
  assumes "create_app env cfg = Inr a" and "app_gateway a = Some gw"
    and "st_ner_backend cfg \<noteq> lit ''onnx''" and "st_vllm_backend cfg \<noteq> lit ''http''"
    and "phone_matcher_ok (en_phone env)" and "float_repr_ok (en_float_repr env)"
    and "\<And>url headers b. \<exists>resp. en_http env url headers b = Inr (200, Inr resp) \<and> completion_shape resp"
  shows "sound_detectors (ap_pipeline a)" "answers (pl_upstream (ap_pipeline a))" "serving (ap_pipeline a) gw"
    "gw_audit gw = []" "ss_maps (gw_store gw) = []" "store_ok (gw_store gw)" "pl_float_repr (ap_pipeline a) = en_float_repr env"
proof -
  note st = started_parts [OF assms(1,3-5,7)]
  have gw: "gw_audit gw = []" "gw_store gw = ap_session_store a"
    using assms(2) st(6) by (auto simp: app_gateway_def audit_store_of_def bindE_eq_Inr split: audit_store.splits if_splits)
  show "sound_detectors (ap_pipeline a)" "answers (pl_upstream (ap_pipeline a))" "pl_float_repr (ap_pipeline a) = en_float_repr env"
    by (rule st(1,2,5))+
  show "serving (ap_pipeline a) gw" using gw st(3,5) assms(6) by (simp add: serving_def verify_chain_def)
  show "gw_audit gw = []" by (rule gw(1))
  show "ss_maps (gw_store gw) = []" "store_ok (gw_store gw)"
    unfolding gw(2) by (subst st(4), simp add: empty_store_def) (subst st(4), rule empty_store_ok)
qed

text \<open>
  Whatever requests come, each is answered: an application started with the heuristic detectors
  and the in-memory log, whatever its other settings, answers every request of any sequence of
  requests with text and identifiers free of lone surrogates, as long as its provider answers in the
  shape of its API; the log gets one record per request and verifies.
\<close>

theorem every_request_answered:
  assumes "create_app env cfg = Inr a" and "app_gateway a = Some gw"
    and "st_ner_backend cfg \<noteq> lit ''onnx''" and "st_vllm_backend cfg \<noteq> lit ''http''"
    and "phone_matcher_ok (en_phone env)" and "float_repr_ok (en_float_repr env)"
    and "\<And>url headers b. \<exists>resp. en_http env url headers b = Inr (200, Inr resp) \<and> completion_shape resp"
    and "\<forall>c \<in> set calls. good_call c" and "serve (ap_pipeline a) calls gw = (results, gw')"
  shows "(\<forall>r \<in> set results. isOk r) \<and> length (gw_audit gw') = length calls \<and>
    verify_chain (en_float_repr env) (pl_writer (ap_pipeline a)) (gw_audit gw') = Inr ()"
proof -
  note st = started_serves [OF assms(1-7)]
  from serve_answers [OF st(1-3) assms(8,9)] st(4,7) show ?thesis by (simp add: serving_def)
qed

text \<open>A crowd of good requests on a gateway that serves and has no session open.\<close>

lemma crowd_answered:
  assumes "sound_detectors P" "answers (pl_upstream P)" "serving P gw" "ss_maps (gw_store gw) = []" "store_ok (gw_store gw)"
    and "\<forall>c \<in> set calls. good_call c" "distinct (map call_id calls)"
    and "set sch \<subseteq> {..<length calls}" "\<And>i. i < length calls \<Longrightarrow> 5 \<le> count_list sch i"
    and "s = run_schedule P calls sch (initial calls gw)"
  shows "\<forall>i < length calls. \<exists>final. sy_phases s ! i = Done (Inr final)"
    and "\<exists>new. gw_audit (sy_gateway s) = gw_audit gw @ new \<and> length new = length calls"
    and "log_ok P (gw_audit (sy_gateway s))" and "\<forall>k. map_of (ss_maps (gw_store (sy_gateway s))) k = None"
proof -
  have fresh: "fresh_start P calls {gw_rules gw} {gw_exceptions gw} gw"
    using assms(3-5,7) by (simp add: fresh_start_def serving_def)
  have reach: "sys_reachable P calls {gw_rules gw} {gw_exceptions gw} (initial calls gw) s"
    unfolding assms(10) by (rule schedule_reachable [OF assms(8) sys_start])
  have done': "\<exists>final. sy_phases s ! i = Done (Inr final)" if i: "i < length calls" for i
  proof -
    obtain res where r: "sy_phases s ! i = Done res" using schedule_done [OF i] assms(9) i assms(10) by blast
    from interleaved_alone [OF reach fresh i r]
    have "alone P (calls ! i) gw = (res, sy_sent s ! i)" by (simp add: snapshot_def)
    then have "fst (handle_chat P (ca_draws (calls ! i)) (Some (ca_context (calls ! i))) (ca_body (calls ! i)) (ca_key (calls ! i)) gw) = res"
      by (auto simp: alone_def split: prod.splits)
    with call_answered [OF assms(3,1,2), of "calls ! i"] assms(6) i r show ?thesis by auto
  qed
  then show "\<forall>i < length calls. \<exists>final. sy_phases s ! i = Done (Inr final)" by blast
  have coh: "coherent P calls {gw_rules gw} {gw_exceptions gw} gw s" by (rule coherent_reachable [OF reach fresh])
  then have lp: "log_part P (gw_audit gw) calls (sy_phases s) (gw_audit (sy_gateway s))" by (simp add: coherent_def)
  then obtain order new where o: "gw_audit (sy_gateway s) = gw_audit gw @ new" "distinct order"
      "set order = {i. i < length calls \<and> answered_phase (sy_phases s ! i)}"
      "map (\<lambda>rec. (ar_request_id rec, ar_customer_id rec)) new =
        map (\<lambda>i. (call_id (calls ! i), cc_customer_id (ca_context (calls ! i)))) order"
    unfolding log_part_def by blast
  from map_eq_imp_length_eq [OF o(4)] have len: "length new = length order" .
  have "set order = {..<length calls}" using o(3) done' by (auto simp: answered_phase_def)
  then have "length order = length calls" using distinct_card [OF o(2)] by simp
  then show "\<exists>new. gw_audit (sy_gateway s) = gw_audit gw @ new \<and> length new = length calls" using o(1) len by auto
  have "slot_of (sy_phases s ! i) = None" if "i < length calls" for i using done' [OF that] by auto
  from drained(1) [OF coh fresh this] assms(4) show "\<forall>k. map_of (ss_maps (gw_store (sy_gateway s))) k = None" by simp
  show "log_ok P (gw_audit (sy_gateway s))" using lp by (simp add: log_part_def)
qed

text \<open>
  C5. The same for requests in flight together: whatever the order in which the event loop runs the
  pieces of the requests, as long as it runs each five times, every request is answered; the log has
  one record per request and verifies, and no session map is left in the registry. This is for an
  application created from settings with the heuristic NER and the stub contextual detector, with the
  in-memory log, under the contracts of the phone number matcher and of \<open>repr\<close>, for a provider that always answers 200 in the shape of
  a completion, and for requests with distinct ids that have a text, whose texts and ids hold no surrogates.
\<close>

theorem every_crowd_answered:
  assumes "create_app env cfg = Inr a" and "app_gateway a = Some gw"
    and "st_ner_backend cfg \<noteq> lit ''onnx''" and "st_vllm_backend cfg \<noteq> lit ''http''"
    and "phone_matcher_ok (en_phone env)" and "float_repr_ok (en_float_repr env)"
    and "\<And>url headers b. \<exists>resp. en_http env url headers b = Inr (200, Inr resp) \<and> completion_shape resp"
    and "\<forall>c \<in> set calls. good_call c" and "distinct (map call_id calls)"
    and "set sch \<subseteq> {..<length calls}" and "\<And>i. i < length calls \<Longrightarrow> 5 \<le> count_list sch i"
    and "s = run_schedule (ap_pipeline a) calls sch (initial calls gw)"
  shows "(\<forall>i < length calls. \<exists>final. sy_phases s ! i = Done (Inr final)) \<and>
    length (gw_audit (sy_gateway s)) = length calls \<and>
    verify_chain (en_float_repr env) (pl_writer (ap_pipeline a)) (gw_audit (sy_gateway s)) = Inr () \<and>
    (\<forall>k. map_of (ss_maps (gw_store (sy_gateway s))) k = None)"
proof -
  note st = started_serves [OF assms(1-7)]
  from crowd_answered [OF st(1-3,5,6) assms(8-12)] st(4,7) show ?thesis by auto
qed

text \<open>
  C6. The same, under the same conditions, with the Postgres log: if the table so far verifies and this
  process alone writes it, the database clock advances, and the identifiers of the records are new and
  distinct and the texts ones that Postgres can store, every request is answered, in whatever order the
  event loop runs the pieces; the table keeps its records, gets one for each request, and verifies.
\<close>

theorem pg_crowd_answered:
  assumes "create_app env cfg = Inr a" and "pg_gateway a = Some gw"
    and "st_ner_backend cfg \<noteq> lit ''onnx''" and "st_vllm_backend cfg \<noteq> lit ''http''"
    and "phone_matcher_ok (en_phone env)" and "float_repr_ok (en_float_repr env)"
    and "\<And>url headers b. \<exists>resp. en_http env url headers b = Inr (200, Inr resp) \<and> completion_shape resp"
    and "pg_sound (gw_audit gw)"
    and "verify_chain (en_float_repr env) (pl_writer (ap_pipeline a)) (pg_select_all (gw_audit gw)) = Inr ()"
    and "\<forall>c \<in> set calls. good_call c \<and> call_storable c \<and> call_record_id c \<notin> logged_ids (gw_audit gw)"
    and "distinct (map call_id calls)" and "distinct (map call_record_id calls)"
    and "set sch \<subseteq> {..<length calls}" and "\<And>i. i < length calls \<Longrightarrow> 5 \<le> count_list sch i"
    and "s = run_schedule_on pg_latest_hash pg_append (ap_pipeline a) calls sch (initial calls gw)"
  shows "(\<forall>i < length calls. \<exists>final. sy_phases s ! i = Done (Inr final)) \<and>
    (\<exists>new. pg_select_all (gw_audit (sy_gateway s)) = pg_select_all (gw_audit gw) @ new \<and> length new = length calls) \<and>
    verify_chain (en_float_repr env) (pl_writer (ap_pipeline a)) (pg_select_all (gw_audit (sy_gateway s))) = Inr () \<and>
    (\<forall>k. map_of (ss_maps (gw_store (sy_gateway s))) k = None)"
proof -
  let ?mem = "with_log (pg_select_all (gw_audit gw)) gw"
  note st = started_parts [OF assms(1,3-5,7)]
  have gw: "gw_store gw = ap_session_store a" using assms(2) by (auto simp: pg_gateway_def split: audit_store.splits)
  have serving: "serving (ap_pipeline a) ?mem" using st(3,5) assms(6,9) by (simp add: serving_def gw)
  have empty: "ss_maps (gw_store ?mem) = []" "store_ok (gw_store ?mem)"
    unfolding with_log_fields gw by (subst st(4), simp add: empty_store_def) (subst st(4), rule empty_store_ok)
  have good: "\<forall>c \<in> set calls. good_call c" "\<forall>c \<in> set calls. call_storable c \<and> call_record_id c \<notin> logged_ids (gw_audit gw)" using assms(10) by auto
  note same = pg_schedule_as_memory [OF assms(8,12) good(2) assms(13,15)]
  from crowd_answered [OF st(1,2) serving empty good(1) assms(11,13,14) HOL.refl] st(5) show ?thesis
    unfolding same [THEN conjunct1] by auto
qed

text \<open>
  C34. When the application starts: if and only if the three keys are hexadecimal for 32 bytes, a database
  log has a connection string, a pool and a database that migrates, the ONNX detector has both its paths and
  loads, the HTTP detector has a URL, and the HTTP library makes the clients, of the HTTP detector and the
  master plane from their URLs. A missing URL of the master plane is not noticed: the mock client is used.
\<close>

theorem create_app_iff:
  "isOk (create_app env cfg) \<longleftrightarrow>
    (\<forall>k \<in> {st_audit_encryption_key cfg, st_audit_hmac_key cfg, st_session_map_key cfg}.
       \<exists>raw. fromhex k = Inr raw \<and> length raw = 32) \<and>
    (st_audit_store_backend cfg = lit ''postgres'' \<longrightarrow>
       (\<exists>dsn pool. st_postgres_dsn cfg = Some dsn \<and> en_create_pool env dsn = Inr pool \<and> isOk (migrate pool))) \<and>
    (st_ner_backend cfg = lit ''onnx'' \<longrightarrow>
       (\<exists>m t. st_ner_model_path cfg = Some m \<and> m \<noteq> [] \<and> st_ner_tokenizer_path cfg = Some t \<and> t \<noteq> [] \<and>
          isOk (en_onnx env m t))) \<and>
    (st_vllm_backend cfg = lit ''http'' \<longrightarrow>
       (\<exists>u. st_vllm_url cfg = Some u \<and> u \<noteq> [] \<and> isOk (en_new_client env (Some u)))) \<and>
    isOk (en_new_client env None) \<and>
    (\<forall>u. \<not> st_master_plane_mock cfg \<and> st_master_plane_url cfg = Some u \<and> u \<noteq> [] \<longrightarrow> isOk (en_new_client env (Some u)))"
proof -
  have a: "isOk (audit_store_of env cfg) \<longleftrightarrow> (st_audit_store_backend cfg = lit ''postgres'' \<longrightarrow>
       (\<exists>dsn pool. st_postgres_dsn cfg = Some dsn \<and> en_create_pool env dsn = Inr pool \<and> isOk (migrate pool)))"
    by (auto simp: audit_store_of_def bring_up_postgres_audit_def isOk_iff bindE_eq_Inr split: option.splits)
  have n: "isOk (ner_detector env cfg) \<longleftrightarrow> (st_ner_backend cfg = lit ''onnx'' \<longrightarrow>
       (\<exists>m t. st_ner_model_path cfg = Some m \<and> m \<noteq> [] \<and> st_ner_tokenizer_path cfg = Some t \<and> t \<noteq> [] \<and>
          isOk (en_onnx env m t)))"
    by (cases "st_ner_model_path cfg"; cases "st_ner_tokenizer_path cfg")
      (auto simp: ner_detector_def make_ner_def truthy_str_def isOk_iff bindE_eq_Inr)
  have c: "isOk (contextual_detector env cfg) \<longleftrightarrow>
      (st_vllm_backend cfg = lit ''http'' \<longrightarrow>
        (\<exists>u. st_vllm_url cfg = Some u \<and> u \<noteq> [] \<and> isOk (en_new_client env (Some u))))"
    by (cases "st_vllm_url cfg") (auto simp: contextual_detector_def make_contextual_def truthy_str_def isOk_iff bindE_eq_Inr)
  have m: "isOk (master_client_of env cfg) \<longleftrightarrow>
      (\<forall>u. \<not> st_master_plane_mock cfg \<and> st_master_plane_url cfg = Some u \<and> u \<noteq> [] \<longrightarrow> isOk (en_new_client env (Some u)))"
    by (cases "st_master_plane_url cfg") (auto simp: master_client_of_def truthy_str_def isOk_iff bindE_eq_Inr)
  have k: "isOk (hex_to_bytes s 32) \<longleftrightarrow> (\<exists>raw. fromhex s = Inr raw \<and> length raw = 32)" for s
    by (auto simp: isOk_iff hex_to_bytes_Inr)
  have "isOk (create_app env cfg) \<longleftrightarrow> isOk (hex_to_bytes (st_audit_encryption_key cfg) 32) \<and>
      isOk (hex_to_bytes (st_audit_hmac_key cfg) 32) \<and> isOk (hex_to_bytes (st_session_map_key cfg) 32) \<and>
      isOk (audit_store_of env cfg) \<and> isOk (ner_detector env cfg) \<and> isOk (contextual_detector env cfg) \<and>
      isOk (en_new_client env None) \<and> isOk (master_client_of env cfg)"
    unfolding create_app_def isOk_bindE
    by (auto simp: isOk_iff writer_ok hex_to_bytes_Inr)
  then show ?thesis unfolding a n c m k by auto
qed

lemma shutdown_purges_all:
  assumes "store_reachable A (empty_store key timeout) st" and "sm \<in> set (ss_heap (shutdown st))"
  shows "ss_maps (shutdown st) = [] \<and> sm_purged sm \<and> sm_encrypted sm = []"
proof -
  have ok: "store_ok st" by (rule reachable_ok [OF assms(1) empty_store_ok])
  have "store_ok (fold store_close rids st)" for rids
    using ok by (induction rids arbitrary: st) (simp_all add: store_close_ok)
  then have ok': "store_ok (shutdown st)" by (simp add: shutdown_def)
  have empty: "ss_maps (shutdown st) = []"
    unfolding shutdown_def conjunct1 [OF fold_close_fields] by (force simp: filter_empty_conv)
  from assms(2) obtain r where "r < length (ss_heap (shutdown st))" "sm = ss_heap (shutdown st) ! r"
    by (auto simp: in_set_conv_nth)
  with ok' empty assms(2) show ?thesis by (auto simp: store_ok_def)
qed

text \<open>
  Keys round trip: the hexadecimal text of 32 bytes, as \<open>bytes.hex\<close> prints it, loads as these
  bytes; any other length is refused.
\<close>

theorem key_roundtrip:
  assumes "is_bytes key"
  shows "hex_to_bytes (to_hex key) n = (if length key = n then Inr key else Inl ValueError)"
  using assms by (simp add: hex_to_bytes_def fromhex_to_hex)

lemma level_of_valid:
  assumes "settings_valid cfg" "\<forall>l \<in> set log_levels. en_upper env l = l"
  shows "level_number (en_upper env) (st_log_level cfg) \<le> 30 \<longleftrightarrow> st_log_level cfg \<noteq> lit ''ERROR''"
proof -
  have l: "st_log_level cfg \<in> set log_levels" using assms(1) by (simp add: settings_valid_def)
  with assms(2) have "en_upper env (st_log_level cfg) = st_log_level cfg" by blast
  then show ?thesis using l unfolding level_number_def log_levels_def logging_levels_def by auto
qed

text \<open>
  C20. A lenient failure mode is strict in production: with the logging the application configures
  at start-up, whose loggers have no name, a detector that raises ends the request with
  AttributeError in the modes that promise to go on without it; nothing is sent. Only the log
  level ERROR, which drops the warning, lets them work.
\<close>

theorem lenient_mode_fails_on_log:
  assumes "create_app env cfg = Inr a" and "runs_chain (en_log env)" and "nameless_loggers (en_log env)"
    and "settings_valid cfg" and "\<forall>l \<in> set log_levels. en_upper env l = l"
    and "st_default_failure_mode cfg \<noteq> Strict" and "st_log_level cfg \<noteq> lit ''ERROR''"
    and "request_text body = Inr tx"
    and "retrieve list_for_customer (en_lower env) (en_is_word env) (st_vllm_top_k_rules cfg) (Some ctx) tx None (gw_rules gw) = Inr rules"
    and "Inl e \<in> set (detector_results (ap_pipeline a) (Some ctx) tx rules)"
  shows "handle_chat (ap_pipeline a) q (Some ctx) body key gw = (Inl AttributeError, gw, [])"
proof -
  have p: "pl_failure_mode (ap_pipeline a) = st_default_failure_mode cfg" "pl_lower (ap_pipeline a) = en_lower env"
    "pl_is_word (ap_pipeline a) = en_is_word env" "pl_top_k (ap_pipeline a) = st_vllm_top_k_rules cfg"
    "pl_log (ap_pipeline a) = log_warning (en_log env) (configure_logging (en_upper env) (st_log_level cfg) (st_log_json cfg)) (en_str env)"
    using assms(1) by (auto simp: create_app_def bindE_eq_Inr)
  show ?thesis
    by (rule lenient_needs_log [of _ _ tx _ _ rules e])
      (use assms(6,8-10) p nameless_warning [OF assms(2,3)] level_of_valid [OF assms(4,5)] assms(7) in simp_all)
qed

section \<open>Witnesses\<close>

text \<open>An environment without phone numbers and with a provider that answers every request.\<close>

definition sample_environment :: environment where
  "sample_environment = \<lparr>en_aead = sample_aead, en_float_repr = sample_float, en_runtime = sample_runtime JNull, en_lower = id, en_upper = id,
     en_str = (\<lambda>_. lit ''error''), en_log = sample_log,
     en_is_word = (\<lambda>c. 97 \<le> c), en_phone = (\<lambda>_ _. []), en_onnx = (\<lambda>_ _. Inl FileNotFoundError),
     en_vllm = (\<lambda>_ _ _. Inl (ExternalError 0)), en_http = (\<lambda>_ _ b. Inr (200, echo_upstream b [])),
     en_new_client = (\<lambda>base. if base = Some (lit ''v:x'') then Inl ValueError else Inr ()),
     en_create_pool = (\<lambda>_. Inl (ExternalError 0))\<rparr>"

lemma create_app_iff_witness:
  "isOk (create_app sample_environment default_settings) \<and>
   \<not> isOk (create_app sample_environment (default_settings\<lparr>st_audit_store_backend := lit ''postgres''\<rparr>)) \<and>
   \<not> isOk (create_app sample_environment (default_settings\<lparr>st_master_plane_mock := False, st_master_plane_url := Some (lit ''v:x'')\<rparr>)) \<and>
   isOk (create_app sample_environment (default_settings\<lparr>st_master_plane_mock := False, st_master_plane_url := None\<rparr>))"
proof -
  have "\<exists>raw. fromhex (replicate 64 48) = Inr raw \<and> length raw = 32"
    using zero_key by (auto simp: hex_to_bytes_Inr)
  then show ?thesis unfolding create_app_iff by (simp add: default_settings_def sample_environment_def)
qed

definition sample_call :: chat_call where
  "sample_call = \<lparr>ca_draws = sample_request, ca_context = sample_customer, ca_body = sample_body, ca_key = lit ''up''\<rparr>"

lemma sample_app:
  obtains a gw where "create_app sample_environment default_settings = Inr a" "app_gateway a = Some gw"
proof -
  have "en_new_client sample_environment None = Inr ()" by (simp add: sample_environment_def)
  then obtain a where a: "create_app sample_environment default_settings = Inr a" using zero_keys_start by blast
  from a obtain backend where "audit_store_of sample_environment default_settings = Inr backend" "ap_audit_store a = backend"
    by (rule create_app_Inr)
  then obtain gw where "app_gateway a = Some gw"
    by (auto simp: app_gateway_def audit_store_of_def default_settings_def)
  with a that show ?thesis by blast
qed

lemma sample_environment_ok:
  "st_ner_backend default_settings \<noteq> lit ''onnx''" "st_vllm_backend default_settings \<noteq> lit ''http''"
  "phone_matcher_ok (en_phone sample_environment)" "float_repr_ok (en_float_repr sample_environment)"
  "\<exists>resp. en_http sample_environment url headers b = Inr (200, Inr resp) \<and> completion_shape resp"
  using echo_shape [of b "[]"]
  by (simp_all add: default_settings_def) (simp_all add: sample_environment_def phone_matcher_ok_def sample_float_ok)

lemma sample_call_good: "good_call sample_call" "c \<in> set sample_calls \<Longrightarrow> good_call c"
  using sample_text_of two_words_scalar
  by (auto simp: good_call_def sample_call_def sample_calls_def sample_request_def sample_salt_def scalar_str_def request_id_def
      sample_customer_def scalar_ascii)

lemma every_request_answered_witness:
  "\<exists>a gw r1 r2 gw'. create_app sample_environment default_settings = Inr a \<and> app_gateway a = Some gw \<and>
    serve (ap_pipeline a) [sample_call, sample_call] gw = ([r1, r2], gw') \<and> isOk r1 \<and> isOk r2 \<and> length (gw_audit gw') = 2"
proof -
  obtain a gw where a: "create_app sample_environment default_settings = Inr a" "app_gateway a = Some gw"
    by (rule sample_app)
  obtain rs gw' where s: "serve (ap_pipeline a) [sample_call, sample_call] gw = (rs, gw')" by (rule prod.exhaust)
  then obtain r1 r2 where rs: "rs = [r1, r2]" by (auto split: prod.splits)
  have good: "\<forall>c \<in> set [sample_call, sample_call]. good_call c" using sample_call_good(1) by simp
  from every_request_answered [OF a sample_environment_ok good s]
  have "isOk r1" "isOk r2" "length (gw_audit gw') = 2" by (simp_all add: rs)
  with a(1,2) s rs show ?thesis by blast
qed

lemma every_crowd_answered_witness:
  "\<exists>a gw s r1 r2. create_app sample_environment default_settings = Inr a \<and> app_gateway a = Some gw \<and>
    s = run_schedule (ap_pipeline a) sample_calls sample_turns (initial sample_calls gw) \<and>
    sy_phases s ! 0 = Done (Inr r1) \<and> sy_phases s ! 1 = Done (Inr r2) \<and> length (gw_audit (sy_gateway s)) = 2"
proof -
  obtain a gw where a: "create_app sample_environment default_settings = Inr a" "app_gateway a = Some gw"
    by (rule sample_app)
  have good: "\<forall>c \<in> set sample_calls. good_call c" using sample_call_good(2) by blast
  have "distinct (map call_id sample_calls)" using sample_fresh_start by (simp add: fresh_start_def)
  from every_crowd_answered [OF a sample_environment_ok good this sample_turns_ok HOL.refl] a(1,2) show ?thesis by fastforce
qed

text \<open>The same two requests, with record identifiers of their own, over an empty database.\<close>

definition database_environment :: environment where
  "database_environment = sample_environment\<lparr>en_create_pool := (\<lambda>_. Inr empty_database)\<rparr>"

definition pg_settings :: settings where
  "pg_settings = default_settings\<lparr>st_audit_store_backend := lit ''postgres'', st_postgres_dsn := Some (lit ''postgresql://d'')\<rparr>"

lemma pg_app:
  obtains a gw where "create_app database_environment pg_settings = Inr a" "pg_gateway a = Some gw"
    "gw_audit gw = new_pg_audit int []"
proof -
  obtain db where db: "migrate empty_database = Inr db" using empty_database_migrates by (auto simp: isOk_iff)
  have st: "audit_store_of database_environment pg_settings = Inr (Postgres_store (new_pg_audit int []))"
    using db empty_log [OF db]
    by (simp add: audit_store_of_def bring_up_postgres_audit_def database_environment_def pg_settings_def)
  have "isOk (create_app database_environment pg_settings)"
    using zero_key st by (simp add: create_app_def pg_settings_def default_settings_def mk_audit_writer_def
        ner_detector_def make_ner_def contextual_detector_def make_contextual_def master_client_of_def
        database_environment_def sample_environment_def)
  then obtain a where a: "create_app database_environment pg_settings = Inr a" by (auto simp: isOk_iff)
  moreover from a have "ap_audit_store a = Postgres_store (new_pg_audit int [])" by (rule create_app_Inr) (use st in simp)
  ultimately show ?thesis using that by (simp add: pg_gateway_def)
qed

lemma pg_crowd_answered_witness:
  "\<exists>a gw s r1 r2 new. create_app database_environment pg_settings = Inr a \<and> pg_gateway a = Some gw \<and>
    s = run_schedule_on pg_latest_hash pg_append (ap_pipeline a) pg_calls sample_turns (initial pg_calls gw) \<and>
    sy_phases s ! 0 = Done (Inr r1) \<and> sy_phases s ! 1 = Done (Inr r2) \<and>
    pg_select_all (gw_audit (sy_gateway s)) = new \<and> length new = 2"
proof -
  obtain a gw where a: "create_app database_environment pg_settings = Inr a" "pg_gateway a = Some gw"
      "gw_audit gw = new_pg_audit int []"
    by (rule pg_app)
  have env: "st_ner_backend pg_settings \<noteq> lit ''onnx''" "st_vllm_backend pg_settings \<noteq> lit ''http''"
    "phone_matcher_ok (en_phone database_environment)" "float_repr_ok (en_float_repr database_environment)"
    "\<exists>resp. en_http database_environment url headers b = Inr (200, Inr resp) \<and> completion_shape resp" for url headers b
    using sample_environment_ok by (simp_all add: pg_settings_def database_environment_def)
  have e: "pg_select_all (gw_audit gw) = []" "logged_ids (gw_audit gw) = {}"
    by (simp_all add: a(3) pg_select_all_def new_pg_audit_def logged_ids_def)
  have sound: "pg_sound (gw_audit gw)" by (simp add: a(3) pg_sound_def new_pg_audit_def strict_mono_def)
  have chain: "verify_chain (en_float_repr database_environment) (pl_writer (ap_pipeline a)) (pg_select_all (gw_audit gw)) = Inr ()"
    by (simp add: e verify_chain_def)
  have good: "\<forall>c \<in> set pg_calls. good_call c \<and> call_storable c \<and> call_record_id c \<notin> logged_ids (gw_audit gw)"
    using sample_text_of two_words_scalar pg_calls_storable
    by (auto simp: e good_call_def pg_calls_def sample_request_def sample_salt_def scalar_str_def request_id_def
        sample_customer_def scalar_ascii)
  have ids: "distinct (map call_id pg_calls)" "distinct (map call_record_id pg_calls)"
    by (simp_all add: pg_calls_def sample_request_def request_id_def sample_audit_def)
  have turns: "set sample_turns \<subseteq> {..<length pg_calls}" "5 \<le> count_list sample_turns i" if "i < length pg_calls" for i
    using sample_turns_ok that by (simp_all add: pg_calls_def)
  have t: "set sample_turns \<subseteq> {..<length pg_calls}" using sample_turns_ok(1) by (simp add: pg_calls_def)
  from pg_crowd_answered [OF a(1,2) env sound chain good ids t turns(2) HOL.refl] a(1,2) e show ?thesis
    by (fastforce simp: pg_calls_def)
qed

lemma key_roundtrip_witness:
  "hex_to_bytes (lit ''0aff'') 2 = Inr [10, 255] \<and> hex_to_bytes (lit ''0aff'') 32 = Inl ValueError"
  using key_roundtrip [of "[10, 255]" 2] key_roundtrip [of "[10, 255]" 32]
  by (simp add: to_hex_def hex_digit_def)

definition degraded_settings :: settings where
  "degraded_settings = default_settings\<lparr>st_default_failure_mode := Audit_only, st_vllm_backend := lit ''http'',
     st_vllm_url := Some (lit ''http://v'')\<rparr>"

lemma lenient_mode_fails_on_log_witness:
  "\<exists>a. create_app sample_environment degraded_settings = Inr a \<and>
    handle_chat (ap_pipeline a) sample_request (Some sample_customer) sample_body (lit ''up'') sample_gateway =
      (Inl AttributeError, sample_gateway, [])"
proof -
  have "isOk (create_app sample_environment degraded_settings)"
    using zero_key by (simp add: create_app_def degraded_settings_def default_settings_def audit_store_of_def mk_audit_writer_def
        ner_detector_def make_ner_def contextual_detector_def make_contextual_def truthy_str_def master_client_of_def sample_environment_def)
  then obtain a where a: "create_app sample_environment degraded_settings = Inr a" by (auto simp: isOk_iff)
  then have c: "pl_contextual (ap_pipeline a) = vllm_detect (sample_runtime JNull) (\<lambda>_ _. Inl (ExternalError 0)) (st_vllm_model default_settings)"
    by (auto simp: create_app_def bindE_eq_Inr degraded_settings_def contextual_detector_def make_contextual_def truthy_str_def
        sample_environment_def default_settings_def)
  have "Inl (ExternalError 0) \<in> set (detector_results (ap_pipeline a) (Some sample_customer) two_words [])"
    by (simp add: detector_results_def c vllm_detect_def Let_def)
  moreover have "retrieve list_for_customer (en_lower sample_environment) (en_is_word sample_environment)
      (st_vllm_top_k_rules degraded_settings) (Some sample_customer) two_words None (gw_rules sample_gateway) = Inr []"
    using sample_retrieve by (simp add: sample_environment_def degraded_settings_def default_settings_def sample_gateway_def)
  moreover have "st_log_level degraded_settings \<noteq> lit ''ERROR''" "\<forall>l \<in> set log_levels. en_upper sample_environment l = l"
    by (simp_all add: sample_environment_def degraded_settings_def default_settings_def)
  moreover have "settings_valid degraded_settings"
    by (simp add: settings_valid_def degraded_settings_def default_settings_def ner_backends_def vllm_backends_def
        rule_store_backends_def audit_store_backends_def log_levels_def)
  moreover have "runs_chain (en_log sample_environment)" "nameless_loggers (en_log sample_environment)" "st_default_failure_mode degraded_settings \<noteq> Strict"
    using sample_log_nameless by (simp_all add: sample_environment_def degraded_settings_def)
  ultimately show ?thesis using a lenient_mode_fails_on_log [OF a _ _ _ _ _ _ sample_text_of] by blast
qed

end
