(* ===== verification/Lifecycle.thy ===== *)
theory Lifecycle
  imports App
begin

text \<open>
  What \<open>src/proxy/app.py\<close> does to the process around it: the event loop, connection pool and HTTP
  clients that \<open>create_app\<close> opens on its way to an application, and the order in which the exit of
  \<open>_lifespan\<close> gives them back. Start-up is translated once more, with the list of its effects; its
  result is \<open>create_app\<close>.
\<close>

section \<open>Effects\<close>

datatype http_client =
    Vllm_client
  | Upstream_client
  | Master_http_client

datatype effect =
    Loop_started
  | Pool_opened ustr
  | Client_opened http_client
  | Logging_configured log_config
  | Client_closed http_client
  | Session_closed ustr
  | Loop_stopped

text \<open>A computation with effects: those up to its result or exception.\<close>

type_synonym 'a traced = "effect list \<times> 'a res"

definition bindT :: "'a traced \<Rightarrow> ('a \<Rightarrow> 'b traced) \<Rightarrow> 'b traced" where
  "bindT m f = (case snd m of Inl e \<Rightarrow> (fst m, Inl e) | Inr x \<Rightarrow> (fst m @ fst (f x), snd (f x)))"

definition pure_step :: "'a res \<Rightarrow> 'a traced" where
  "pure_step r = ([], r)"

definition does :: "effect \<Rightarrow> unit traced" where
  "does e = ([e], Inr ())"

lemma traced_simps [simp]:
  "snd (bindT m f) = bindE (snd m) (\<lambda>x. snd (f x))" "snd (pure_step r) = r" "snd (does e) = Inr ()"
  "fst (pure_step r) = []" "fst (does e) = [e]"
  "fst (bindT m f) = fst m @ (case snd m of Inl e \<Rightarrow> [] | Inr x \<Rightarrow> fst (f x))"
  by (auto simp: bindT_def bindE_def pure_step_def does_def split: sum.split)

section \<open>Start-up\<close>

text \<open>
  \<open>_bring_up_postgres_audit\<close>: the thread with the loop runs before the pool is asked for; nothing
  stops it when the pool or the migration fails.
\<close>

definition bring_up_traced :: "environment \<Rightarrow> settings \<Rightarrow> pg_audit traced" where
  "bring_up_traced env cfg =
     (case st_postgres_dsn cfg of
        None \<Rightarrow> pure_step (Inl ValueError)
      | Some dsn \<Rightarrow>
          bindT (does Loop_started) (\<lambda>_.
          bindT (pure_step (en_create_pool env dsn)) (\<lambda>pool.
          bindT (does (Pool_opened dsn)) (\<lambda>_.
          bindT (pure_step (migrate pool)) (\<lambda>pool'.
            pure_step (Inr (new_pg_audit (db_clock pool') (log_rows pool'))))))))"

definition audit_store_traced :: "environment \<Rightarrow> settings \<Rightarrow> audit_store traced" where
  "audit_store_traced env cfg =
     (if st_audit_store_backend cfg = lit ''postgres''
      then bindT (bring_up_traced env cfg) (\<lambda>b. pure_step (Inr (Postgres_store b)))
      else pure_step (Inr (Memory_store [])))"

text \<open>The clients are stored on the application in this order, each only if it is made.\<close>

definition uses_vllm :: "settings \<Rightarrow> bool" where
  "uses_vllm cfg = (st_vllm_backend cfg = lit ''http'')"

definition uses_master_http :: "settings \<Rightarrow> bool" where
  "uses_master_http cfg = (\<not> (st_master_plane_mock cfg \<or> \<not> truthy_str (st_master_plane_url cfg)))"

definition app_clients :: "settings \<Rightarrow> http_client list" where
  "app_clients cfg = (if uses_vllm cfg then [Vllm_client] else []) @ [Upstream_client] @
     (if uses_master_http cfg then [Master_http_client] else [])"

definition opened :: "bool \<Rightarrow> http_client \<Rightarrow> unit traced" where
  "opened used c = (if used then does (Client_opened c) else pure_step (Inr ()))"

text \<open>\<open>create_app\<close>, statement by statement: keys, log, detectors, upstream client, master plane client.\<close>

definition start_up :: "environment \<Rightarrow> settings \<Rightarrow> unit traced" where
  "start_up env cfg =
     bindT (pure_step (hex_to_bytes (st_audit_encryption_key cfg) 32)) (\<lambda>audit_enc_key.
     bindT (pure_step (hex_to_bytes (st_audit_hmac_key cfg) 32)) (\<lambda>audit_hmac_key.
     bindT (pure_step (hex_to_bytes (st_session_map_key cfg) 32)) (\<lambda>session_key.
     bindT (audit_store_traced env cfg) (\<lambda>audit_backend.
     bindT (pure_step (mk_audit_writer audit_enc_key audit_hmac_key)) (\<lambda>writer.
     bindT (pure_step (ner_detector env cfg)) (\<lambda>ner.
     bindT (pure_step (contextual_detector env cfg)) (\<lambda>contextual.
     bindT (opened (uses_vllm cfg) Vllm_client) (\<lambda>_.
     bindT (pure_step (en_new_client env None)) (\<lambda>_.
     bindT (opened True Upstream_client) (\<lambda>_.
     bindT (pure_step (master_client_of env cfg)) (\<lambda>master.
       opened (uses_master_http cfg) Master_http_client)))))))))))"

section \<open>The lifespan\<close>

text \<open>
  The exit: the clients are closed in turn, the first that raises ends it; then every session map
  is closed, and the loop is stopped if there is one. \<open>aclose\<close> is the HTTP library's.
\<close>

fun close_clients :: "(http_client \<Rightarrow> unit res) \<Rightarrow> http_client list \<Rightarrow> unit traced" where
  "close_clients aclose [] = ([], Inr ())"
| "close_clients aclose (c # cs) =
     bindT (pure_step (aclose c)) (\<lambda>_. bindT (does (Client_closed c)) (\<lambda>_. close_clients aclose cs))"

definition lifespan_exit ::
    "(http_client \<Rightarrow> unit res) \<Rightarrow> settings \<Rightarrow> session_store \<Rightarrow> effect list \<times> session_store \<times> unit res" where
  "lifespan_exit aclose cfg st =
     (case close_clients aclose (app_clients cfg) of
        (es, Inl e) \<Rightarrow> (es, st, Inl e)
      | (es, Inr _) \<Rightarrow>
          (es @ map Session_closed (map fst (ss_maps st)) @
             (if st_audit_store_backend cfg = lit ''postgres'' then [Loop_stopped] else []),
           shutdown st, Inr ()))"

definition lifespan_enter :: "environment \<Rightarrow> settings \<Rightarrow> unit traced" where
  "lifespan_enter env cfg = does (Logging_configured (configure_logging (en_upper env) (st_log_level cfg) (st_log_json cfg)))"

section \<open>Start-up with effects is the factory\<close>

lemma bring_up_result [simp]: "snd (bring_up_traced env cfg) = bring_up_postgres_audit env cfg"
  by (simp add: bring_up_traced_def bring_up_postgres_audit_def split: option.split)

lemma audit_store_result [simp]: "snd (audit_store_traced env cfg) = audit_store_of env cfg"
  by (simp add: audit_store_traced_def audit_store_of_def)

lemma opened_result [simp]: "snd (opened used c) = Inr ()" "fst (opened used c) = (if used then [Client_opened c] else [])"
  by (simp_all add: opened_def)

lemma start_up_result: "snd (start_up env cfg) = bindE (create_app env cfg) (\<lambda>_. Inr ())"
  unfolding start_up_def create_app_def by (auto simp: bindE_def split: sum.split)

definition opened_clients :: "effect list \<Rightarrow> http_client list" where
  "opened_clients es = List.map_filter (\<lambda>e. case e of Client_opened c \<Rightarrow> Some c | _ \<Rightarrow> None) es"

definition closed_clients :: "effect list \<Rightarrow> http_client list" where
  "closed_clients es = List.map_filter (\<lambda>e. case e of Client_closed c \<Rightarrow> Some c | _ \<Rightarrow> None) es"

lemma client_lists [simp]:
  "opened_clients (es @ es') = opened_clients es @ opened_clients es'"
  "closed_clients (es @ es') = closed_clients es @ closed_clients es'"
  "closed_clients (map Client_closed cs) = cs" "closed_clients (map Session_closed ids) = []"
  by (simp_all add: opened_clients_def closed_clients_def List.map_filter_def comp_def)

lemma start_up_effects:
  assumes "start_up env cfg = (es, Inr ())"
  shows "es = (if st_audit_store_backend cfg = lit ''postgres'' then [Loop_started, Pool_opened (the (st_postgres_dsn cfg))] else []) @
    map Client_opened (app_clients cfg)"
proof -
  have f: "fst (start_up env cfg) = es" "snd (start_up env cfg) = Inr ()" using assms by simp_all
  obtain ek hk sk b w n c where ok: "hex_to_bytes (st_audit_encryption_key cfg) 32 = Inr ek" "hex_to_bytes (st_audit_hmac_key cfg) 32 = Inr hk"
      "hex_to_bytes (st_session_map_key cfg) 32 = Inr sk" "audit_store_of env cfg = Inr b" "mk_audit_writer ek hk = Inr w"
      "ner_detector env cfg = Inr n" "contextual_detector env cfg = Inr c" "en_new_client env None = Inr ()"
      "isOk (master_client_of env cfg)"
    using f(2) unfolding start_up_def by (auto simp: bindE_eq_Inr)
  from ok(9) obtain m where m: "master_client_of env cfg = Inr m" by (auto simp: isOk_iff)
  have "fst (audit_store_traced env cfg) =
      (if st_audit_store_backend cfg = lit ''postgres'' then [Loop_started, Pool_opened (the (st_postgres_dsn cfg))] else [])"
    using ok(4) by (auto simp: audit_store_traced_def audit_store_of_def bring_up_traced_def bring_up_postgres_audit_def bindE_eq_Inr
        split: if_splits option.splits)
  with ok(1-8) m f(1) show ?thesis by (auto simp: start_up_def app_clients_def)
qed

lemma close_clients_ok: "\<forall>c \<in> set cs. aclose c = Inr () \<Longrightarrow> close_clients aclose cs = (map Client_closed cs, Inr ())"
  by (induction cs) (simp_all add: prod_eq_iff)

lemma close_clients_fails:
  "c \<in> set cs \<Longrightarrow> aclose c = Inl e \<Longrightarrow>
    \<exists>done' e'. close_clients aclose cs = (map Client_closed done', Inl e') \<and> length done' < length cs"
proof (induction cs)
  case (Cons d cs)
  show ?case
  proof (cases "aclose d")
    case (Inl e')
    then have "close_clients aclose (d # cs) = (map Client_closed [], Inl e')" by (simp add: prod_eq_iff)
    then show ?thesis by (intro exI [of _ "[]"] exI [of _ e']) simp
  next
    case (Inr u)
    with Cons obtain done' e' where "close_clients aclose cs = (map Client_closed done', Inl e')" "length done' < length cs" by auto
    with Inr have "close_clients aclose (d # cs) = (map Client_closed (d # done'), Inl e') \<and> length (d # done') < length (d # cs)"
      by (simp add: prod_eq_iff)
    then show ?thesis by blast
  qed
qed simp

section \<open>Properties\<close>

text \<open>
  C27. A clean exit gives back what start-up took: when every client closes, the clients opened at
  start-up are closed in the same order, every session map is purged and the registry is empty, and
  the audit loop is stopped if it was started.
\<close>

theorem lifespan_balanced:
  assumes "start_up env cfg = (es, Inr ())" and "\<And>c. aclose c = Inr ()"
    and "store_reachable A (empty_store key timeout) st" and "lifespan_exit aclose cfg st = (es', st', r)"
  shows "r = Inr () \<and> closed_clients es' = opened_clients es \<and> (Loop_stopped \<in> set es' \<longleftrightarrow> Loop_started \<in> set es) \<and>
    ss_maps st' = [] \<and> (\<forall>sm \<in> set (ss_heap st'). sm_purged sm \<and> sm_encrypted sm = [])"
proof -
  have x: "es' = map Client_closed (app_clients cfg) @ map Session_closed (map fst (ss_maps st)) @
      (if st_audit_store_backend cfg = lit ''postgres'' then [Loop_stopped] else [])" "st' = shutdown st" "r = Inr ()"
    using assms(4) close_clients_ok [of "app_clients cfg" aclose] assms(2) by (auto simp: lifespan_exit_def)
  have o: "opened_clients (map Client_opened cs) = cs" for cs
    by (simp add: opened_clients_def List.map_filter_def comp_def)
  have n: "opened_clients [Loop_started, Pool_opened dsn] = []" "closed_clients [Loop_stopped] = []" for dsn
    by (simp_all add: opened_clients_def closed_clients_def List.map_filter_def)
  have "closed_clients es' = opened_clients es"
    unfolding x(1) start_up_effects [OF assms(1)] by (simp add: o n) (simp add: opened_clients_def closed_clients_def List.map_filter_def)
  moreover have "Loop_stopped \<in> set es' \<longleftrightarrow> Loop_started \<in> set es"
    unfolding x(1) start_up_effects [OF assms(1)] by auto
  moreover have "ss_maps st' = []"
    unfolding x(2) shutdown_def conjunct1 [OF fold_close_fields] by (force simp: filter_empty_conv)
  ultimately show ?thesis using x shutdown_purges_all [OF assms(3)] by blast
qed

text \<open>
  An exit that cannot close one of the clients stops there: the session maps stay registered and
  unpurged, with the original values, and the audit loop keeps running.
\<close>

theorem failed_close_keeps_sessions:
  assumes "c \<in> set (app_clients cfg)" and "aclose c = Inl e" and "lifespan_exit aclose cfg st = (es', st', r)"
  shows "st' = st \<and> \<not> isOk r \<and> Loop_stopped \<notin> set es' \<and> length (closed_clients es') < length (app_clients cfg)"
proof -
  obtain cs e' where "close_clients aclose (app_clients cfg) = (map Client_closed cs, Inl e')" "length cs < length (app_clients cfg)"
    using close_clients_fails [where aclose = aclose and c = c and e = e, OF assms(1,2)] by blast
  with assms(3) show ?thesis by (auto simp: lifespan_exit_def)
qed

text \<open>
  C28. A start-up that fails leaves behind what it has opened. The audit loop was started, and nothing stops
  it, exactly when the three keys were right, the log is in Postgres and a connection string was configured,
  whatever failed later; a client that was opened is not closed either.
\<close>

theorem failed_start_leaks_loop:
  assumes "start_up env cfg = (es, Inl e)"
  shows "(Loop_started \<in> set es \<longleftrightarrow> isOk (hex_to_bytes (st_audit_encryption_key cfg) 32) \<and>
      isOk (hex_to_bytes (st_audit_hmac_key cfg) 32) \<and> isOk (hex_to_bytes (st_session_map_key cfg) 32) \<and>
      st_audit_store_backend cfg = lit ''postgres'' \<and> st_postgres_dsn cfg \<noteq> None) \<and>
    Loop_stopped \<notin> set es \<and> closed_clients es = []"
proof -
  have f: "fst (start_up env cfg) = es" using assms by simp
  have l: "Loop_started \<in> set (fst (audit_store_traced env cfg)) \<longleftrightarrow> st_audit_store_backend cfg = lit ''postgres'' \<and> st_postgres_dsn cfg \<noteq> None"
    "Loop_stopped \<notin> set (fst (audit_store_traced env cfg))" "Client_closed c \<notin> set (fst (audit_store_traced env cfg))" for c
    by (auto simp: audit_store_traced_def bring_up_traced_def split: option.split sum.split)
  have "closed_clients es = []" if "\<And>c. Client_closed c \<notin> set es"
    using that by (auto simp: closed_clients_def List.map_filter_def filter_empty_conv split: effect.splits)
  moreover have "Client_closed c \<notin> set es" for c
    unfolding f [symmetric] start_up_def by (auto simp: l split: sum.split)
  moreover have "Loop_stopped \<notin> set es" unfolding f [symmetric] start_up_def by (auto simp: l split: sum.split)
  moreover have "Loop_started \<in> set es \<longleftrightarrow> isOk (hex_to_bytes (st_audit_encryption_key cfg) 32) \<and>
      isOk (hex_to_bytes (st_audit_hmac_key cfg) 32) \<and> isOk (hex_to_bytes (st_session_map_key cfg) 32) \<and>
      st_audit_store_backend cfg = lit ''postgres'' \<and> st_postgres_dsn cfg \<noteq> None"
    unfolding f [symmetric] start_up_def by (auto simp: l isOk_def split: sum.split)
  ultimately show ?thesis by blast
qed

section \<open>Witnesses\<close>

definition database_settings :: settings where
  "database_settings = default_settings\<lparr>st_audit_store_backend := lit ''postgres'', st_postgres_dsn := Some (lit ''postgresql://d''),
     st_vllm_backend := lit ''http'', st_vllm_url := Some (lit ''http://v'')\<rparr>"

lemma database_start:
  "snd (start_up database_environment database_settings) = Inr ()"
  "start_up database_environment (database_settings\<lparr>st_ner_backend := lit ''onnx''\<rparr>) = ([Loop_started, Pool_opened (lit ''postgresql://d'')], Inl ValueError)"
proof -
  obtain db where "migrate empty_database = Inr db" using empty_database_migrates by (auto simp: isOk_iff)
  then show "snd (start_up database_environment database_settings) = Inr ()"
    "start_up database_environment (database_settings\<lparr>st_ner_backend := lit ''onnx''\<rparr>) = ([Loop_started, Pool_opened (lit ''postgresql://d'')], Inl ValueError)"
    using zero_key by (simp_all add: start_up_def database_environment_def database_settings_def default_settings_def audit_store_traced_def
        bring_up_traced_def sample_environment_def mk_audit_writer_def ner_detector_def make_ner_def contextual_detector_def
        make_contextual_def truthy_str_def master_client_of_def audit_store_of_def bring_up_postgres_audit_def prod_eq_iff)
qed

lemma one_open_session:
  obtains r st where "store_open (Some sample_customer) 0 (lit ''r1'') (empty_store (replicate 32 7) 1800) = Inr (r, st)"
    "length (ss_maps st) = 1" "store_reachable sample_aead (empty_store (replicate 32 7) 1800) st"
proof -
  obtain r st where o: "store_open (Some sample_customer) 0 (lit ''r1'') (empty_store (replicate 32 7) 1800) = Inr (r, st)"
      "length (ss_maps st) = 1"
    by (auto simp: store_open_def new_session_map_def empty_store_def Let_def)
  have "store_reachable sample_aead (empty_store (replicate 32 7) 1800) st"
    by (rule store_reachable.step [OF store_reachable.start store_step.opens [OF _ o(1)]]) (simp add: empty_store_def)
  with o that show ?thesis by blast
qed

lemma lifespan_balanced_witness:
  "\<exists>es st es' st'. start_up database_environment database_settings = (es, Inr ()) \<and> length (ss_maps st) = 1 \<and>
    lifespan_exit (\<lambda>_. Inr ()) database_settings st = (es', st', Inr ()) \<and> ss_maps st' = [] \<and>
    closed_clients es' = opened_clients es"
proof -
  obtain es where es: "start_up database_environment database_settings = (es, Inr ())" using database_start(1) by (metis prod.collapse)
  obtain r st where st: "length (ss_maps st) = 1" "store_reachable sample_aead (empty_store (replicate 32 7) 1800) st"
    by (rule one_open_session)
  obtain es' st' r' where x: "lifespan_exit (\<lambda>_. Inr ()) database_settings st = (es', st', r')" by (rule prod_cases3)
  from lifespan_balanced [OF es HOL.refl st(2) x] es st(1) x show ?thesis by blast
qed

lemma failed_close_keeps_sessions_witness:
  "\<exists>st es' e. length (ss_maps st) = 1 \<and> lifespan_exit (\<lambda>c. if c = Upstream_client then Inl (ExternalError 1) else Inr ()) database_settings st =
    (es', st, Inl e)"
proof -
  obtain r st where st: "length (ss_maps st) = 1" "store_reachable sample_aead (empty_store (replicate 32 7) 1800) st"
    by (rule one_open_session)
  let ?aclose = "\<lambda>c. if c = Upstream_client then Inl (ExternalError 1) else Inr ()"
  obtain es' st' r' where x: "lifespan_exit ?aclose database_settings st = (es', st', r')" by (rule prod_cases3)
  have "Upstream_client \<in> set (app_clients database_settings)" by (simp add: app_clients_def)
  from failed_close_keeps_sessions [where aclose = ?aclose, OF this _ x] have "st' = st" "\<not> isOk r'" by auto
  with st(1) x show ?thesis by (cases r') auto
qed

lemma failed_start_leaks_loop_witness:
  "\<exists>es. start_up database_environment (database_settings\<lparr>st_ner_backend := lit ''onnx''\<rparr>) = (es, Inl ValueError) \<and>
    Loop_started \<in> set es \<and> Loop_stopped \<notin> set es"
  using failed_start_leaks_loop [OF database_start(2)] database_start(2) zero_key
  by (simp add: database_settings_def default_settings_def)

end
