(* ===== verification/Spec2Isabelle.thy ===== *)
theory Spec2Isabelle
  imports Lifecycle Schema
begin

text \<open>
  \<^bold>\<open>A privacy gateway for language models, modelled and verified.\<close>

  The gateway is a proxy between a customer's application and a provider's chat API. For each
  request it joins the message texts, runs three detectors over them, merges what they found,
  replaces the accepted spans by synthetic values, sends the sanitised request to the provider,
  puts the originals back into the answer, and writes an encrypted, hash-chained audit record.
  Everything happens on behalf of one customer, carried in a context variable. The model follows
  the Python sources under \<open>src/\<close>; a definition has the name of the function it models unless
  that name is taken.

  \<^bold>\<open>Conventions.\<close> A Python string is its list of code points (\<open>ustr\<close>), \<open>bytes\<close> a list of numbers
  below 256, an \<open>int\<close> an \<open>int\<close>, a \<open>float\<close> the rational it is, or an infinity or NaN (\<open>pyfloat\<close>),
  with literals and sums rounded to doubles as written out in \<open>PyFloat\<close>, a \<open>dict\<close> an association
  list in insertion order. Every exception is a value of \<open>py_error\<close>, a fallible operation returns
  \<open>py_error + 'a\<close>, and state is passed explicitly; where the code shares a mutable object (the
  session maps of the registry) the state has a heap and the registry holds positions in it.
  Random draws, clocks, AES-GCM, the phone number library, tokenizers, model servers, HTTP, the
  database and the Unicode tables are arguments.

  \<^bold>\<open>Theories, in the order they build on each other.\<close>
  \<^item> \<open>Prelude\<close>, \<open>PyText\<close>, \<open>PyFloat\<close>, \<open>Regex\<close>, \<open>Json\<close>, \<open>JsonAccess\<close>, \<open>Sha256\<close>: exceptions and
    sequencing; strings, slices, UTF-8; doubles; the regular expressions the sources use, with
    leftmost-greedy matching and \<open>finditer\<close>; \<open>json.dumps\<close> with sorted keys; dynamic access to JSON
    values with the exceptions Python raises, and the status check of an HTTP response; SHA-256 and HMAC on 32-bit words.
  \<^item> \<open>Tenancy\<close> (\<open>tenancy/scope.py\<close>), \<open>ProxyAuth\<close> (\<open>proxy/auth.py\<close>): the customer context and who may set it.
  \<^item> \<open>Detection\<close> (\<open>detectors/base.py\<close>), \<open>Algeria\<close> (\<open>detectors/structural.py\<close>, \<open>detectors/countries/algeria.py\<close>),
    \<open>Ner\<close> (\<open>detectors/ner.py\<close>), \<open>Contextual\<close> (\<open>detectors/contextual.py\<close>): the detection value, the
    interface of a detector (locales \<open>span_detector\<close>, \<open>scoped_detector\<close>) and the three detectors.
  \<^item> \<open>Merge\<close> (\<open>merge/engine.py\<close>): span check, exceptions, thresholds, overlap resolution (locale
    \<open>span_resolver\<close>).
  \<^item> \<open>Components\<close>, \<open>Synthetic\<close>, \<open>SessionMap\<close>, \<open>Substitution\<close> (\<open>substitution/\<close>): name parts,
    generators of synthetic values, the encrypted per-request maps with their registry (locale
    \<open>mapping_store\<close>), forward and reverse substitution.
  \<^item> \<open>AuditLog\<close> (\<open>audit/writer.py\<close>), \<open>PgAudit\<close> (\<open>audit/postgres_backend.py\<close> and the \<open>audit_log\<close> table of
    \<open>db.py\<close>): records, the chain and its verification, the two back ends (locales \<open>audit_backend\<close>,
    \<open>log_backend\<close>, interpreted on both). \<open>Postgres\<close>, below it and \<open>Rules\<close>: which texts a text column takes, and a
    \<open>real\<close> column; the inserts of the stores fail on texts Postgres cannot store and floats out of range.
  \<^item> \<open>Rules\<close> (\<open>rules/\<close>), \<open>Retrieval\<close> (\<open>retrieval/engine.py\<close>): rule and exception stores in memory and in
    Postgres (locales \<open>rule_reader\<close>, \<open>tier3_store\<close>, \<open>isolated_store\<close>, \<open>exception_store\<close>), selection of
    rules for the prompt.
  \<^item> \<open>MasterPlane\<close> (\<open>master_client/\<close>): the telemetry whitelist and the clients of the master plane.
  \<^item> \<open>Pipeline\<close>, \<open>PipelineProps\<close> (\<open>proxy/pipeline.py\<close>, \<open>proxy/upstream.py\<close>): the request handler over the
    shared state \<open>gateway\<close> (session store, audit log, rules, exceptions), and what it guarantees.
  \<^item> \<open>Concurrency\<close>, \<open>Interleaving\<close>: the handler is a coroutine. \<open>Concurrency\<close> cuts it at its await points: a
    request is a \<open>phase\<close>, \<open>advance\<close> runs it to the next point. \<open>Interleaving\<close> steps systems of requests over
    one gateway in any order, with rules and exceptions changing between the steps (\<open>sys_reachable\<close>); its
    invariant \<open>coherent\<close> ties the shared store and log to the phases. The pieces, systems and schedules take the audit
    backend as an argument (\<open>advance_on\<close>, \<open>sys_reachable_on\<close>); the names without \<open>_on\<close> are those over the in-memory log.
  \<^item> \<open>Backends\<close>: the handler takes the operations of its audit backend as arguments (\<open>handle_chat_on\<close>; \<open>handle_chat\<close> is
    the one over the in-memory log); inside the locale \<open>log_backend\<close> it does over any lawful backend what it does
    over the in-memory log, and the database log is an interpretation.
  \<^item> \<open>Crowds\<close>: the same for requests in flight together. The locale \<open>keyed_log\<close> extends \<open>log_backend\<close> by a law about the
    identifiers of other records; over such a backend a system does step by step what it does over the in-memory log.
  \<^item> \<open>Web\<close> (\<open>proxy/schemas.py\<close>, \<open>proxy/routes.py\<close>, \<open>dashboard/routes.py\<close>): request models, the chat route, the
    dashboard's data.
  \<^item> \<open>Logging\<close> (\<open>logging_setup.py\<close>), \<open>Settings\<close> (\<open>config/settings.py\<close>), \<open>App\<close>, \<open>Lifecycle\<close> (\<open>proxy/app.py\<close>): the
    configuration of the log, with structlog as a parameter; settings, where they are read from, and their
    cache; the factory, with the pool, the HTTP clients and ONNX models it makes as parameters that may fail; its
    effects on the process and the exit of the lifespan.
  \<^item> \<open>Schema\<close> (\<open>db.py\<close>): the tables with types, defaults, checks and keys, and the \<open>INSERT\<close> statements, with
    the \<open>ON CONFLICT\<close> clause of the rules (\<open>upsert_rule\<close>), and row readers of the stores over them. \<open>Migration\<close> (\<open>db.py\<close>): the statements of the migration over a database with its
    extensions, tables and indexes; the factory runs it before it uses the log of the database.

  \<^bold>\<open>What is shown.\<close> Of a request: what the provider sees (the caller's body with one message in which
  every accepted span is replaced by a generated value, all else unchanged), that an echoed answer
  comes back with the original text, that the session map is purged and the registry restored on
  every outcome, that exactly the answered requests are audited, that strict mode sends nothing
  when a detector fails, that a request's effect on the registry is a sequence of its steps, and
  that an application started from its settings answers every request. Of requests in flight together:
  each returns and sends what it would alone (\<open>interleaving_transparent\<close>, \<open>interleaved_sends_sanitised\<close>), the
  shared log verifies and has one record per answered request (\<open>interleaved_audit\<close>), and running each
  request five times, once per piece of the handler, ends them all (\<open>schedule_drains\<close>). Of the process: an
  exit gives back what start-up took, unless a client fails to close. Of the parts: the
  merge picks one winner per component of the overlap relation and loses none; sequential
  replacement equals simultaneous replacement of an unambiguous answer; purged maps stay purged;
  the audit log is tamper evident up to collisions of SHA-256 and truncation; both back ends of
  each store refine one specification, the database log as long as one process writes, and then the whole
  gateway over it answers as over the in-memory log, one request after the other (\<open>pg_gateway_refines_memory\<close>) or
  interleaved (\<open>pg_interleaving_refines_memory\<close>, \<open>pg_crowd_answered\<close>); the migration can be repeated, alters no table
  and loses no row, and what it needs of a database is stated (\<open>migrate_ok_iff\<close>);
  customers cannot influence or read each other's rules, exceptions, activity or keys; each
  detector quotes the text it is given, the ONNX one as long as the offsets of its tokenizer lie in the text
  (\<open>onnx_ner_spec\<close>; that tokens do not overlap is assumed only for the detections not to). The limits are stated as theorems too: chains of overlaps
  drop detections, a second process or a clock step breaks the chain, extra request fields and
  lenient failure modes forward text in clear, lenient failure modes fail on their own log message under
  the configured logging, failed starts and exits leave resources behind, a log table
  of another shape passes the start-up, telemetry strings form a channel.

  \<^bold>\<open>Totality.\<close> Loops whose recursion is not structural (the digit loop of the generators,
  \<open>str.replace\<close>, the scanner of \<open>finditer\<close>, the JSON string scanner) are functions with a termination
  proof. The one bound is that of a repetition in a pattern, the number of characters left, which
  is enough because every iteration consumes one (\<open>repeat_ends_fuel\<close>). That an operation returns is proved as such (\<open>substitution_total\<close>,
  \<open>merge_total_and_disjoint\<close>, \<open>stub_ner_spec\<close>, \<open>every_request_answered\<close>).

  \<^bold>\<open>Not modelled.\<close> Rendering of the dashboard's templates and the landing page without data; the
  response models of \<open>proxy/schemas.py\<close>, which nothing uses; the root logger of the standard library;
  the use of indexes by queries; the creation of the pool, lost connections, and queries whose arguments
  Postgres refuses (the inserts have this failure); of an HTTP response, anything but its status and its JSON
  body; what pydantic makes of a number or a boolean in a string; infinite and NaN
  settings; what structlog, asyncpg, httpx and ONNX do inside, which are parameters. Threads that record
  in one audit log at once are modelled only for the log (\<open>audit_race_breaks_chain\<close>,
  \<open>stale_cache_forks_chain\<close>); requests of one event loop interleave at their await points only.
\<close>

end
